(* ===== verification/Adb_Prelude.thy ===== *)
theory Adb_Prelude
  imports Main "HOL-Library.Word"
begin

text \<open>
  Shared vocabulary of the pax\_adb development: C scalar types, byte buffers and
  C strings as character lists, the little-endian words of the wire formats, the number
  formats of \<open>printf\<close> and \<open>strtol\<close> that the sources use, and the error values of the
  operations that can end the process or leave defined behaviour.

  A C \<open>unsigned\<close> is a \<open>32 word\<close>; a byte is a \<open>char\<close>; a C string is the list of
  its characters without the terminating NUL.
\<close>

named_theorems adb_defs \<open>definitions of the model that proofs about several components unfold\<close>
named_theorems adb_frame \<open>what an operation leaves unchanged\<close>

unbundle bit_operations_syntax

type_synonym u8 = "8 word"
type_synonym u16 = "16 word"
type_synonym u32 = "32 word"
type_synonym byte = char
type_synonym bytes = "char list"

abbreviation NUL :: char where
  "NUL \<equiv> CHR 0x00"

section \<open>Results of operations that can fail\<close>

text \<open>
  \<open>Fatal\<close> is \<open>fatal\<close>/\<open>fatal_errno\<close> (\<open>exit(-1)\<close> after a message), \<open>Exited\<close> is
  \<open>exit(n)\<close>, \<open>Abort\<close> is \<open>FATAL\<close> of fdevent.c (\<open>abort()\<close>). The others are not
  values of the program: they mark what C leaves undefined (a freed object, a NULL
  pointer, a read of uninitialised or out-of-bounds memory, a list node that is unlinked
  through the pointers of a list it has already left) or a thread that waits for a mutex it
  holds itself. \<open>Blocked\<close> is a call that has not returned (it waits for its peer).
\<close>

datatype err =
    Fatal string
  | Exited int
  | Abort string
  | UseAfterFree
  | NullDeref
  | OutOfBounds
  | Uninitialised
  | Deadlock
  | StaleUnlink
  | OutOfFuel
  | Blocked

fun undefined_behaviour :: "err \<Rightarrow> bool" where
  "undefined_behaviour (Fatal m) = False"
| "undefined_behaviour (Exited n) = False"
| "undefined_behaviour (Abort m) = False"
| "undefined_behaviour Blocked = False"
| "undefined_behaviour _ = True"

definition ebind :: "'e + 'a \<Rightarrow> ('a \<Rightarrow> 'e + 'b) \<Rightarrow> 'e + 'b" where
  "ebind m f = (case m of Inl e \<Rightarrow> Inl e | Inr a \<Rightarrow> f a)"

lemma ebind_simps [simp]:
  "ebind (Inl e) f = Inl e"
  "ebind (Inr a) f = f a"
  by (simp_all add: ebind_def)

lemma ebind_eq_Inr: "ebind m f = Inr b \<longleftrightarrow> (\<exists>a. m = Inr a \<and> f a = Inr b)"
  by (cases m) auto

lemma ebind_eq_Inl: "ebind m f = Inl e \<longleftrightarrow> m = Inl e \<or> (\<exists>a. m = Inr a \<and> f a = Inl e)"
  by (cases m) auto

lemma ebind_assoc: "ebind (ebind m f) g = ebind m (\<lambda>x. ebind (f x) g)"
  by (cases m) auto

text \<open>The result is defined (a value, or an orderly end of the process) and, when it is a
  value, satisfies the predicate: the Hoare-style judgement the safety proofs compose.\<close>

definition ok :: "(err + 'a) \<Rightarrow> ('a \<Rightarrow> bool) \<Rightarrow> bool" where
  "ok r P \<longleftrightarrow> (case r of Inl e \<Rightarrow> \<not> undefined_behaviour e | Inr a \<Rightarrow> P a)"

lemma ok_Inr [simp]: "ok (Inr a) P = P a"
  by (simp add: ok_def)

lemma ok_Inl [simp]: "ok (Inl e) P = (\<not> undefined_behaviour e)"
  by (simp add: ok_def)

lemma ok_ebind: "ok m P \<Longrightarrow> (\<And>a. P a \<Longrightarrow> ok (f a) Q) \<Longrightarrow> ok (ebind m f) Q"
  by (cases m) auto

lemma ok_mono: "ok m P \<Longrightarrow> (\<And>a. P a \<Longrightarrow> Q a) \<Longrightarrow> ok m Q"
  by (cases m) auto

lemma ok_value: "ok m P \<Longrightarrow> m = Inr a \<Longrightarrow> P a"
  by simp

section \<open>Little-endian words\<close>

text \<open>How an \<open>unsigned\<close> lies in memory on the (little-endian) targets of the Makefile,
  which is also the wire order: \<open>fix_endians\<close>, \<open>htoll\<close> and \<open>ltohl\<close> are identities
  there.\<close>

definition put32 :: "u32 \<Rightarrow> bytes" where
  "put32 w = [char_of (unat w), char_of (unat w div 256), char_of (unat w div 65536),
              char_of (unat w div 16777216)]"

fun get32 :: "bytes \<Rightarrow> u32" where
  "get32 (a # b # c # d # _) =
     of_nat (of_char a + 256 * of_char b + 65536 * of_char c + 16777216 * of_char d)"
| "get32 _ = 0"

lemma length_put32 [simp]: "length (put32 w) = 4"
  by (simp add: put32_def)

lemma put32_not_Nil [simp]: "put32 w \<noteq> []"
  by (simp add: put32_def)

lemma nat_base256:
  assumes "n < (4294967296::nat)"
  shows "n mod 256 + 256 * (n div 256 mod 256) + 65536 * (n div 65536 mod 256)
         + 16777216 * (n div 16777216 mod 256) = n"
proof -
  have "n div 16777216 < 256" using assms by (simp add: less_mult_imp_div_less)
  then have "n div 16777216 mod 256 = n div 16777216" by simp
  moreover have "n div 65536 = 256 * (n div 16777216) + n div 65536 mod 256"
    using div_mult_mod_eq [of "n div 65536" 256] by (simp add: div_mult2_eq [symmetric])
  moreover have "n div 256 = 256 * (n div 65536) + n div 256 mod 256"
    using div_mult_mod_eq [of "n div 256" 256] by (simp add: div_mult2_eq [symmetric])
  moreover have "n = 256 * (n div 256) + n mod 256"
    using div_mult_mod_eq [of n 256] by simp
  ultimately show ?thesis by linarith
qed

lemma unat_u32_less [simp]: "unat (w :: u32) < 4294967296"
  using unsigned_less [of w, where ?'a = nat] by simp

lemma get32_put32 [simp]: "get32 (put32 w @ rest) = w"
proof -
  have "unat w mod 256 + 256 * (unat w div 256 mod 256) + 65536 * (unat w div 65536 mod 256)
        + 16777216 * (unat w div 16777216 mod 256) = unat w"
    by (rule nat_base256) simp
  moreover have "get32 (put32 w @ rest) =
      of_nat (unat w mod 256 + 256 * (unat w div 256 mod 256) + 65536 * (unat w div 65536 mod 256)
        + 16777216 * (unat w div 16777216 mod 256))"
    by (simp only: put32_def append_Cons append_Nil get32.simps of_char_of)
  ultimately have "get32 (put32 w @ rest) = of_nat (unat w)" by (simp only:)
  then show ?thesis by simp
qed

lemma get32_put32_single [simp]: "get32 (put32 w) = w"
  using get32_put32 [of w "[]"] by simp

text \<open>Splitting a buffer that starts with an encoded word.\<close>

lemma drop_put32 [simp]: "drop 4 (put32 w @ rest) = rest"
  by (simp add: put32_def)

lemma take_put32 [simp]: "take 4 (put32 w @ rest) = put32 w"
  by (simp add: put32_def)

section \<open>C strings\<close>

text \<open>\<open>strncmp(s, pre, strlen(pre)) == 0\<close>.\<close>

definition starts_with :: "string \<Rightarrow> string \<Rightarrow> bool" where
  "starts_with pre s \<longleftrightarrow> take (length pre) s = pre"

lemma starts_with_append [simp]: "starts_with pre (pre @ s)"
  by (simp add: starts_with_def)

lemma starts_with_iff: "starts_with pre s \<longleftrightarrow> (\<exists>r. s = pre @ r)"
  unfolding starts_with_def by (metis append_eq_conv_conj append_take_drop_id)

text \<open>\<open>strchr\<close> and \<open>strrchr\<close> give the rest of the string from the character on;
  \<open>strstr\<close> only whether there is an occurrence.\<close>

fun strchr :: "char \<Rightarrow> string \<Rightarrow> string option" where
  "strchr c [] = None"
| "strchr c (x # xs) = (if x = c then Some (x # xs) else strchr c xs)"

fun strrchr :: "char \<Rightarrow> string \<Rightarrow> string option" where
  "strrchr c [] = None"
| "strrchr c (x # xs) =
     (case strrchr c xs of Some r \<Rightarrow> Some r | None \<Rightarrow> if x = c then Some (x # xs) else None)"

fun strstr :: "string \<Rightarrow> string \<Rightarrow> bool" where
  "strstr pat [] = (pat = [])"
| "strstr pat (x # xs) = (starts_with pat (x # xs) \<or> strstr pat xs)"

text \<open>The string that is left when the first \<open>c\<close> is overwritten by NUL.\<close>

definition upto_char :: "char \<Rightarrow> string \<Rightarrow> string" where
  "upto_char c s = takeWhile (\<lambda>x. x \<noteq> c) s"

lemma strchr_None [simp]: "strchr c s = None \<longleftrightarrow> c \<notin> set s"
  by (induction s) auto

lemma strchr_Some: "strchr c s = Some r \<Longrightarrow> s = upto_char c s @ r \<and> (\<exists>t. r = c # t)"
  by (induction s) (auto simp: upto_char_def split: if_splits)

lemma strchr_append [simp]: "c \<notin> set xs \<Longrightarrow> strchr c (xs @ c # ys) = Some (c # ys)"
  by (induction xs) auto

lemma upto_char_append [simp]: "c \<notin> set xs \<Longrightarrow> upto_char c (xs @ c # ys) = xs"
  unfolding upto_char_def by (subst takeWhile_append2) auto

text \<open>The string at a buffer address: the bytes before the first NUL. Without a NUL in the
  initialised part the reader runs into memory nothing has written.\<close>

definition cstr_at :: "bytes \<Rightarrow> err + string" where
  "cstr_at bs = (if NUL \<in> set bs then Inr (takeWhile (\<lambda>c. c \<noteq> NUL) bs) else Inl Uninitialised)"

lemma cstr_at_append [simp]: "NUL \<notin> set s \<Longrightarrow> cstr_at (s @ NUL # r) = Inr s"
  unfolding cstr_at_def by (auto simp: takeWhile_append)

text \<open>What \<open>snprintf\<close> leaves in a buffer of \<open>n > 0\<close> bytes.\<close>

definition snprintf :: "nat \<Rightarrow> string \<Rightarrow> string" where
  "snprintf n s = take (n - 1) s"

lemma length_snprintf: "0 < n \<Longrightarrow> length (snprintf n s) < n"
  by (simp add: snprintf_def)

lemma snprintf_fits [simp]: "length s < n \<Longrightarrow> snprintf n s = s"
  by (simp add: snprintf_def)

section \<open>Numbers in text\<close>

definition hexdigit :: "nat \<Rightarrow> char" where
  "hexdigit n = ''0123456789abcdef'' ! n"

fun to_hex :: "nat \<Rightarrow> string" where
  "to_hex n = (if n < 16 then [hexdigit n] else to_hex (n div 16) @ [hexdigit (n mod 16)])"

declare to_hex.simps [simp del]

definition pad_left :: "nat \<Rightarrow> char \<Rightarrow> string \<Rightarrow> string" where
  "pad_left n c s = replicate (n - length s) c @ s"

text \<open>\<open>%04x\<close>\<close>

definition fmt_04x :: "nat \<Rightarrow> string" where
  "fmt_04x n = pad_left 4 (CHR ''0'') (to_hex n)"

definition decdigit :: "nat \<Rightarrow> char" where
  "decdigit n = ''0123456789'' ! n"

fun show_nat :: "nat \<Rightarrow> string" where
  "show_nat n = (if n < 10 then [decdigit n] else show_nat (n div 10) @ [decdigit (n mod 10)])"

declare show_nat.simps [simp del]

text \<open>\<open>%d\<close>\<close>

definition show_int :: "int \<Rightarrow> string" where
  "show_int i = (if i < 0 then CHR ''-'' # show_nat (nat (- i)) else show_nat (nat i))"

lemma fmt_04x_small:
  assumes "n < 65536"
  shows "fmt_04x n = [hexdigit (n div 4096), hexdigit (n div 256 mod 16),
                      hexdigit (n div 16 mod 16), hexdigit (n mod 16)]"
proof -
  have z: "hexdigit 0 = CHR ''0''" by (simp add: hexdigit_def)
  have r: "replicate 3 c = [c, c, c]" "replicate 2 c = [c, c]" for c :: char
    by (simp_all add: numeral_3_eq_3 numeral_2_eq_2)
  have d1: "n div 16 div 16 = n div 256" "n div 256 div 16 = n div 4096"
    by (simp_all add: div_mult2_eq [symmetric])
  have lt: "n div 4096 < 16" using assms by (simp add: less_mult_imp_div_less)
  have th: "to_hex n = (if n < 16 then [hexdigit n]
      else if n div 16 < 16 then [hexdigit (n div 16), hexdigit (n mod 16)]
      else if n div 256 < 16 then [hexdigit (n div 256), hexdigit (n div 16 mod 16), hexdigit (n mod 16)]
      else [hexdigit (n div 4096), hexdigit (n div 256 mod 16), hexdigit (n div 16 mod 16), hexdigit (n mod 16)])"
    using lt by (simp add: to_hex.simps [of n] to_hex.simps [of "n div 16"]
        to_hex.simps [of "n div 256"] to_hex.simps [of "n div 4096"] d1)
  show ?thesis
  proof (cases "n < 16")
    case True
    then show ?thesis by (simp add: fmt_04x_def pad_left_def th z r)
  next
    case F1: False
    show ?thesis
    proof (cases "n div 16 < 16")
      case True
      then have "n div 256 = 0" "n div 4096 = 0"
        using d1 by (simp_all add: div_eq_0_iff)
      with F1 True show ?thesis by (simp add: fmt_04x_def pad_left_def th z r)
    next
      case F2: False
      show ?thesis
      proof (cases "n div 256 < 16")
        case True
        then have "n div 4096 = 0" using d1 by simp
        with F1 F2 True show ?thesis by (simp add: fmt_04x_def pad_left_def th z r)
      next
        case False
        with F1 F2 show ?thesis by (simp add: fmt_04x_def pad_left_def th)
      qed
    qed
  qed
qed

lemma length_fmt_04x [simp]: "n < 65536 \<Longrightarrow> length (fmt_04x n) = 4"
  by (simp add: fmt_04x_small)

section \<open>Text to numbers\<close>

definition isspace :: "char \<Rightarrow> bool" where
  "isspace c \<longleftrightarrow> c \<in> {CHR '' '', CHR 0x09, CHR 0x0A, CHR 0x0B, CHR 0x0C, CHR 0x0D}"

definition isdigit :: "char \<Rightarrow> bool" where
  "isdigit c \<longleftrightarrow> 48 \<le> (of_char c :: nat) \<and> (of_char c :: nat) \<le> 57"

text \<open>The value of a digit in a base of up to 36.\<close>

definition digit_in :: "nat \<Rightarrow> char \<Rightarrow> nat option" where
  "digit_in b c =
     (let n = (of_char c :: nat);
          d = (if 48 \<le> n \<and> n \<le> 57 then n - 48
               else if 97 \<le> n \<and> n \<le> 122 then n - 87
               else if 65 \<le> n \<and> n \<le> 90 then n - 55 else 36)
      in if d < b then Some d else None)"

fun digits :: "nat \<Rightarrow> nat \<Rightarrow> string \<Rightarrow> nat \<times> string" where
  "digits b acc [] = (acc, [])"
| "digits b acc (c # cs) =
     (case digit_in b c of Some d \<Rightarrow> digits b (acc * b + d) cs | None \<Rightarrow> (acc, c # cs))"

definition LONG_MAX :: int where "LONG_MAX = 9223372036854775807"

text \<open>The base that \<open>strtol\<close> uses, and where its digits start.\<close>

definition strtol_base :: "nat \<Rightarrow> string \<Rightarrow> nat \<times> string" where
  "strtol_base b s =
     (case s of
        CHR ''0'' # x # c # _ \<Rightarrow>
          if (b = 0 \<or> b = 16) \<and> (x = CHR ''x'' \<or> x = CHR ''X'') \<and> digit_in 16 c \<noteq> None then (16, drop 2 s)
          else (if b = 0 then 8 else b, s)
      | CHR ''0'' # _ \<Rightarrow> (if b = 0 then 8 else b, s)
      | _ \<Rightarrow> (if b = 0 then 10 else b, s))"

text \<open>\<open>strtol\<close> gives the value, whether \<open>errno\<close> was set to \<open>ERANGE\<close>, and the string at the end
  pointer, which is the whole string when there is no number.\<close>

definition strtol :: "nat \<Rightarrow> string \<Rightarrow> int \<times> bool \<times> string" where
  "strtol b s =
     (let s1 = dropWhile isspace s;
          neg = (case s1 of c # _ \<Rightarrow> c = CHR ''-'' | [] \<Rightarrow> False);
          s2 = (case s1 of c # r \<Rightarrow> if c = CHR ''-'' \<or> c = CHR ''+'' then r else s1 | [] \<Rightarrow> s1);
          (b', s3) = strtol_base b s2
      in case s3 of
           [] \<Rightarrow> (0, False, s)
         | c # _ \<Rightarrow>
             if digit_in b' c = None then (0, False, s)
             else let (n, rest) = digits b' 0 s3; v = (if neg then - int n else int n)
                  in if LONG_MAX < v then (LONG_MAX, True, rest)
                     else if v < - LONG_MAX - 1 then (- LONG_MAX - 1, True, rest)
                     else (v, False, rest))"

lemma digit_in_decdigit [simp]: "n < 10 \<Longrightarrow> digit_in 10 (decdigit n) = Some n"
proof -
  assume "n < 10"
  then have "n \<in> {0, 1, 2, 3, 4, 5, 6, 7, 8, 9}" by auto
  then show ?thesis by (auto simp: decdigit_def digit_in_def)
qed

lemma digits_append:
  "digits b acc (xs @ ys) = (case digits b acc xs of (n, []) \<Rightarrow> digits b n ys | (n, r) \<Rightarrow> (n, r @ ys))"
  by (induction b acc xs rule: digits.induct) (auto split: option.split)

lemma digits_show_nat: "digits 10 0 (show_nat n) = (n, [])"
proof (induction n rule: show_nat.induct)
  case (1 n)
  then show ?case by (subst show_nat.simps) (auto simp: digits_append)
qed

lemma show_nat_head: "\<exists>d r. show_nat n = decdigit d # r \<and> d < 10"
proof (induction n rule: show_nat.induct)
  case (1 n)
  show ?case
  proof (cases "n < 10")
    case True
    then show ?thesis by (subst show_nat.simps) auto
  next
    case False
    then obtain d r where "show_nat (n div 10) = decdigit d # r" "d < 10" using 1 by blast
    then show ?thesis using False by (subst show_nat.simps) auto
  qed
qed

lemma decdigit_plain: "d < 10 \<Longrightarrow> \<not> isspace (decdigit d) \<and> decdigit d \<noteq> CHR ''-'' \<and> decdigit d \<noteq> CHR ''+''"
proof -
  assume "d < 10"
  then have "d \<in> {0, 1, 2, 3, 4, 5, 6, 7, 8, 9}" by auto
  then show ?thesis by (auto simp: decdigit_def isspace_def)
qed

text \<open>Reading back a number that \<open>%d\<close> has printed, whatever follows it that is no digit.\<close>

lemma strtol_base_10 [simp]: "strtol_base 10 s = (10, s)"
  by (auto simp: strtol_base_def split: list.split char.split bool.split)

lemma strtol_show_nat:
  assumes "int n \<le> LONG_MAX" and "rest = [] \<or> digit_in 10 (hd rest) = None"
  shows "strtol 10 (show_nat n @ rest) = (int n, False, rest)"
proof -
  obtain d r where s: "show_nat n = decdigit d # r" and "d < 10" using show_nat_head by blast
  have "digits 10 0 (show_nat n @ rest) = (n, rest)"
    using assms(2) by (cases rest) (auto simp: digits_append digits_show_nat)
  then show ?thesis
    using assms(1) decdigit_plain [OF \<open>d < 10\<close>] \<open>d < 10\<close> by (simp add: strtol_def s LONG_MAX_def del: digits.simps)
qed

end
