(* ===== verification/Adb_IO.thy ===== *)
theory Adb_IO
  imports Adb_Prelude
begin

text \<open>
  File descriptors and the exact-length transfers of transport.c (\<open>readx\<close>, \<open>writex\<close>,
  \<open>read_packet\<close>/\<open>write_packet\<close>). The kernel side of a descriptor is a script: the list of
  what its next \<open>read\<close> or \<open>write\<close> calls will give. The theorems quantify over the script,
  so they hold for every behaviour of the other end: every way the bytes are cut into
  pieces, every interruption, every error.
\<close>

section \<open>System calls\<close>

datatype errno = EINTR | EAGAIN | ETIMEDOUT | EOther

text \<open>\<open>RData bs\<close>: the call finds the bytes \<open>bs\<close> and returns as many of them as fit
  (\<open>RData []\<close> is the return value 0, end of file). \<open>RErr e\<close>: it returns -1 with
  that \<open>errno\<close>.\<close>

datatype rres = RData bytes | RErr errno

text \<open>\<open>WOk n\<close>: the call accepts up to \<open>n\<close> bytes; \<open>WErr e\<close>: it returns -1.\<close>

datatype wres = WOk nat | WErr errno

section \<open>readx and writex\<close>

text \<open>\<open>readx\<close> gives the \<open>n\<close> bytes (return value 0), or \<open>None\<close> (return value -1), and
  the script that is left; it is \<open>Blocked\<close> where the script ends before it returns.\<close>

fun readx :: "nat \<Rightarrow> rres list \<Rightarrow> err + (bytes option \<times> rres list)" where
  "readx n [] = (if n = 0 then Inr (Some [], []) else Inl Blocked)"
| "readx n (RData bs # rs) =
     (if n = 0 then Inr (Some [], RData bs # rs)
      else if bs = [] then Inr (None, rs)
      else if length bs \<le> n then
        ebind (readx (n - length bs) rs) (\<lambda>(r, rs'). Inr (map_option ((@) bs) r, rs'))
      else Inr (Some (take n bs), RData (drop n bs) # rs))"
| "readx n (RErr e # rs) =
     (if n = 0 then Inr (Some [], RErr e # rs)
      else if e = EINTR then readx n rs
      else Inr (None, rs))"

text \<open>\<open>writex\<close> gives whether it returned 0, the bytes the descriptor accepted, and the
  script that is left.\<close>

fun writex :: "bytes \<Rightarrow> wres list \<Rightarrow> err + (bool \<times> bytes \<times> wres list)" where
  "writex bs [] = (if bs = [] then Inr (True, [], []) else Inl Blocked)"
| "writex bs (WOk n # ws) =
     (if bs = [] then Inr (True, [], WOk n # ws)
      else if n = 0 then Inr (False, [], ws)
      else ebind (writex (drop n bs) ws) (\<lambda>(r, acc, ws'). Inr (r, take n bs @ acc, ws')))"
| "writex bs (WErr e # ws) =
     (if bs = [] then Inr (True, [], WErr e # ws)
      else if e = EINTR \<or> e = EAGAIN then writex bs ws
      else Inr (False, [], ws))"

text \<open>\<open>write_packet\<close>: the same loop on the eight bytes of a packet address, but only
  \<open>EINTR\<close> is retried. \<open>read_packet\<close> reads an address back, with the loop of \<open>readx\<close>.\<close>

definition ptr_size :: nat where
  "ptr_size = 8"

fun write_ptr_loop :: "nat \<Rightarrow> wres list \<Rightarrow> err + (bool \<times> wres list)" where
  "write_ptr_loop n [] = (if n = 0 then Inr (True, []) else Inl Blocked)"
| "write_ptr_loop n (WOk k # ws) =
     (if n = 0 then Inr (True, WOk k # ws)
      else if k = 0 then Inr (False, ws)
      else write_ptr_loop (n - k) ws)"
| "write_ptr_loop n (WErr e # ws) =
     (if n = 0 then Inr (True, WErr e # ws)
      else if e = EINTR then write_ptr_loop n ws
      else Inr (False, ws))"

definition write_packet :: "wres list \<Rightarrow> err + (bool \<times> wres list)" where
  "write_packet ws = write_ptr_loop ptr_size ws"

definition read_packet :: "rres list \<Rightarrow> err + (bytes option \<times> rres list)" where
  "read_packet rs = readx ptr_size rs"

section \<open>Scripts of a healthy connection\<close>

text \<open>The bytes a script delivers when nothing goes wrong, and that nothing does: every
  call gives at least one byte or is interrupted.\<close>

fun stream :: "rres list \<Rightarrow> bytes" where
  "stream [] = []"
| "stream (RData bs # rs) = bs @ stream rs"
| "stream (RErr e # rs) = stream rs"

fun healthy :: "rres list \<Rightarrow> bool" where
  "healthy [] = True"
| "healthy (RData bs # rs) = (bs \<noteq> [] \<and> healthy rs)"
| "healthy (RErr e # rs) = (e = EINTR \<and> healthy rs)"

lemma readx_zero [simp]: "readx 0 rs = Inr (Some [], rs)"
  by (cases "(0::nat, rs)" rule: readx.cases) auto

text \<open>The contract of \<open>readx\<close>: with enough bytes on the way it returns exactly the next
  \<open>n\<close> of them, however they are cut into pieces, and leaves the rest.\<close>

lemma readx_exact:
  assumes "healthy rs" and "n \<le> length (stream rs)"
  shows "\<exists>rs'. readx n rs = Inr (Some (take n (stream rs)), rs') \<and> healthy rs' \<and>
               stream rs' = drop n (stream rs)"
  using assms
proof (induction rs arbitrary: n)
  case Nil
  then show ?case by simp
next
  case (Cons x rs)
  show ?case
  proof (cases x)
    case (RErr e)
    with Cons.prems have e: "e = EINTR" and "healthy rs" "n \<le> length (stream rs)"
      by auto
    then obtain rs' where IH: "readx n rs = Inr (Some (take n (stream rs)), rs')"
      "healthy rs'" "stream rs' = drop n (stream rs)"
      using Cons.IH by blast
    show ?thesis
    proof (cases "n = 0")
      case True
      with RErr e \<open>healthy rs\<close> show ?thesis by simp
    next
      case False
      with RErr e IH show ?thesis by simp
    qed
  next
    case (RData bs)
    with Cons.prems have "healthy rs" "bs \<noteq> []" "n - length bs \<le> length (stream rs)"
      by auto
    then obtain rs' where IH: "readx (n - length bs) rs = Inr (Some (take (n - length bs) (stream rs)), rs')"
      "healthy rs'" "stream rs' = drop (n - length bs) (stream rs)"
      using Cons.IH by blast
    show ?thesis
    proof (cases "0 < n \<and> length bs \<le> n")
      case True
      with RData IH \<open>bs \<noteq> []\<close> show ?thesis by simp
    next
      case False
      with RData \<open>bs \<noteq> []\<close> \<open>healthy rs\<close> show ?thesis by auto
    qed
  qed
qed

text \<open>Soundness on any script: a success returns exactly \<open>n\<close> bytes, and they are the next
  bytes of the stream.\<close>

lemma readx_Some:
  "readx n rs = Inr (Some bs, rs') \<Longrightarrow> length bs = n \<and> stream rs = bs @ stream rs'"
proof (induction rs arbitrary: n bs)
  case Nil
  then show ?case by (auto split: if_splits)
next
  case (Cons x rs)
  show ?case
  proof (cases x)
    case (RErr e)
    with Cons show ?thesis by (auto split: if_splits)
  next
    case (RData cs)
    show ?thesis
    proof (cases "0 < n \<and> cs \<noteq> [] \<and> length cs \<le> n")
      case True
      with Cons.prems RData obtain ds where "readx (n - length cs) rs = Inr (Some ds, rs')" "bs = cs @ ds"
        by (auto simp: ebind_eq_Inr)
      with Cons.IH True RData show ?thesis by fastforce
    next
      case False
      with Cons.prems RData show ?thesis by (auto split: if_splits)
    qed
  qed
qed

lemma writex_success:
  "writex bs ws = Inr (True, acc, ws') \<Longrightarrow> acc = bs"
  by (induction bs ws arbitrary: acc rule: writex.induct)
     (auto simp: ebind_eq_Inr split: if_splits)

text \<open>A failed \<open>writex\<close> has sent a proper prefix: nothing is reordered or repeated.\<close>

lemma writex_failure:
  "writex bs ws = Inr (False, acc, ws') \<Longrightarrow> \<exists>rest. rest \<noteq> [] \<and> bs = acc @ rest"
proof (induction bs ws arbitrary: acc rule: writex.induct)
  case (2 bs n ws)
  show ?case
  proof (cases "bs = [] \<or> n = 0")
    case True
    with "2.prems" show ?thesis by (auto split: if_splits)
  next
    case False
    with "2.prems" obtain acc' where "writex (drop n bs) ws = Inr (False, acc', ws')" "acc = take n bs @ acc'"
      by (auto simp: ebind_eq_Inr)
    with "2.IH" False obtain rest where "rest \<noteq> []" "drop n bs = acc' @ rest"
      by blast
    have "bs = take n bs @ drop n bs" by simp
    also have "\<dots> = acc @ rest"
      using \<open>acc = take n bs @ acc'\<close> \<open>drop n bs = acc' @ rest\<close> by simp
    finally show ?thesis using \<open>rest \<noteq> []\<close> by blast
  qed
qed (auto split: if_splits)

text \<open>A descriptor that accepts everything.\<close>

lemma writex_Nil [simp]: "writex [] ws = Inr (True, [], ws)"
  by (cases "([]::bytes, ws)" rule: writex.cases) auto

lemma writex_all: "bs \<noteq> [] \<Longrightarrow> length bs \<le> n \<Longrightarrow> writex bs (WOk n # ws) = Inr (True, bs, ws)"
  by (cases bs) auto

section \<open>The interface the packet layer relies on\<close>

text \<open>A source of bytes that can be read in exact lengths: \<open>readx\<close> on a TCP descriptor
  here, \<open>usb_read\<close> on a bulk endpoint in the USB component.\<close>

locale exact_reader =
  fixes rd :: "nat \<Rightarrow> 's \<Rightarrow> err + (bytes option \<times> 's)"
    and pending_bytes :: "'s \<Rightarrow> bytes"
    and good :: "'s \<Rightarrow> bool"
  assumes rd_exact: "good s \<Longrightarrow> n \<le> length (pending_bytes s) \<Longrightarrow>
    \<exists>s'. rd n s = Inr (Some (take n (pending_bytes s)), s') \<and> good s' \<and>
         pending_bytes s' = drop n (pending_bytes s)"
begin

lemma rd_prefix:
  assumes "good s" and "pending_bytes s = xs @ ys"
  shows "\<exists>s'. rd (length xs) s = Inr (Some xs, s') \<and> good s' \<and> pending_bytes s' = ys"
  using rd_exact [of s "length xs"] assms by auto

text \<open>A header and the body it announces, read one after the other.\<close>

lemma rd_frame:
  assumes "good s" and "pending_bytes s = hdr @ body @ rest"
  shows "\<exists>s1 s2. rd (length hdr) s = Inr (Some hdr, s1) \<and> rd (length body) s1 = Inr (Some body, s2) \<and>
                 good s2 \<and> pending_bytes s2 = rest"
proof -
  obtain s1 where "rd (length hdr) s = Inr (Some hdr, s1)" "good s1" "pending_bytes s1 = body @ rest"
    using rd_prefix assms by blast
  then show ?thesis using rd_prefix by blast
qed

end

interpretation tcp: exact_reader readx stream healthy
  by unfold_locales (rule readx_exact)

end
