(* ===== verification/Adb_Packet.thy ===== *)
theory Adb_Packet
  imports Adb_IO
begin

text \<open>
  Packets (adb.h, transport.c, transport\_local.c): the message header and the packet, the
  part of \<open>send_packet\<close> that completes a header, \<open>check_header\<close> and \<open>check_data\<close>, and
  the TCP transport's \<open>remote_read\<close> and \<open>remote_write\<close>.

  The payload buffer \<open>unsigned char data[MAX_PAYLOAD]\<close> is the list of the bytes that have
  been written so far from its start (\<open>get_apacket\<close> does not clear it): reading past them
  is \<open>Uninitialised\<close>, writing past \<open>MAX_PAYLOAD\<close> is \<open>OutOfBounds\<close>.
\<close>

section \<open>Constants and data\<close>

definition MAX_PAYLOAD :: nat where
  "MAX_PAYLOAD = 4096"

definition A_SYNC :: u32 where "A_SYNC = 0x434e5953"
definition A_CNXN :: u32 where "A_CNXN = 0x4e584e43"
definition A_OPEN :: u32 where "A_OPEN = 0x4e45504f"
definition A_OKAY :: u32 where "A_OKAY = 0x59414b4f"
definition A_CLSE :: u32 where "A_CLSE = 0x45534c43"
definition A_WRTE :: u32 where "A_WRTE = 0x45545257"
definition A_AUTH :: u32 where "A_AUTH = 0x48545541"
definition A_HDSK :: u32 where "A_HDSK = 0x4b534448"
definition A_VERSION :: u32 where "A_VERSION = 0x01000000"

definition PAX_HANDSHAKE_REQ :: u32 where "PAX_HANDSHAKE_REQ = 1"
definition PAX_HANDSHAKE_RES :: u32 where "PAX_HANDSHAKE_RES = 2"
definition PAX_HANDSHAKE_MAGIC :: string where "PAX_HANDSHAKE_MAGIC = ''paxadb''"

lemmas command_defs =
  A_SYNC_def A_CNXN_def A_OPEN_def A_OKAY_def A_CLSE_def A_WRTE_def A_AUTH_def A_HDSK_def

record amessage =
  m_command :: u32
  m_arg0 :: u32
  m_arg1 :: u32
  m_data_length :: u32
  m_data_check :: u32
  m_magic :: u32

text \<open>\<open>p_len\<close> and \<open>p_ptr\<close> (an offset into \<open>p_data\<close>) are the local bookkeeping of a
  queued packet.\<close>

record apacket =
  p_len :: nat
  p_ptr :: nat
  p_msg :: amessage
  p_data :: bytes

definition zero_msg :: amessage where
  "zero_msg = \<lparr>m_command = 0, m_arg0 = 0, m_arg1 = 0, m_data_length = 0, m_data_check = 0,
               m_magic = 0\<rparr>"

definition get_apacket :: apacket where
  "get_apacket = \<lparr>p_len = 0, p_ptr = 0, p_msg = zero_msg, p_data = []\<rparr>"

text \<open>\<open>memcpy(p->data + off, bs, len)\<close>\<close>

definition buf_write :: "nat \<Rightarrow> bytes \<Rightarrow> bytes \<Rightarrow> err + bytes" where
  "buf_write off bs buf =
     (if MAX_PAYLOAD < off + length bs then Inl OutOfBounds
      else if length buf < off then Inl Uninitialised
      else Inr (take off buf @ bs @ drop (off + length bs) buf))"

text \<open>The first \<open>n\<close> bytes of the buffer.\<close>

definition buf_read :: "nat \<Rightarrow> bytes \<Rightarrow> err + bytes" where
  "buf_read n buf =
     (if MAX_PAYLOAD < n then Inl OutOfBounds
      else if length buf < n then Inl Uninitialised
      else Inr (take n buf))"

section \<open>Checksum and header\<close>

text \<open>The loop \<open>while(count-- > 0) sum += *x++\<close> of \<open>send_packet\<close> and \<open>check_data\<close>.\<close>

fun sum_loop :: "nat \<Rightarrow> bytes \<Rightarrow> u32 \<Rightarrow> err + u32" where
  "sum_loop 0 x s = Inr s"
| "sum_loop (Suc count) [] s = Inl Uninitialised"
| "sum_loop (Suc count) (b # x) s = sum_loop count x (s + of_char b)"

definition payload_sum :: "bytes \<Rightarrow> u32" where
  "payload_sum bs = sum_list (map of_char bs)"

text \<open>\<open>send_packet\<close> up to the hand-over to the transport socket: magic and checksum.\<close>

definition seal_packet :: "apacket \<Rightarrow> err + apacket" where
  "seal_packet p =
     (let p = p\<lparr>p_msg := (p_msg p)\<lparr>m_magic := m_command (p_msg p) XOR 0xffffffff\<rparr>\<rparr>
      in ebind (sum_loop (unat (m_data_length (p_msg p))) (p_data p) 0) (\<lambda>sum.
           Inr (p\<lparr>p_msg := (p_msg p)\<lparr>m_data_check := sum\<rparr>\<rparr>)))"

definition check_header :: "apacket \<Rightarrow> int" where
  "check_header p =
     (if m_magic (p_msg p) \<noteq> m_command (p_msg p) XOR 0xffffffff then -1
      else if MAX_PAYLOAD < unat (m_data_length (p_msg p)) then -1
      else 0)"

definition check_data :: "apacket \<Rightarrow> err + int" where
  "check_data p =
     ebind (sum_loop (unat (m_data_length (p_msg p))) (p_data p) 0) (\<lambda>sum.
       Inr (if sum \<noteq> m_data_check (p_msg p) then -1 else 0))"

section \<open>The wire format\<close>

definition enc_msg :: "amessage \<Rightarrow> bytes" where
  "enc_msg m = put32 (m_command m) @ put32 (m_arg0 m) @ put32 (m_arg1 m) @
               put32 (m_data_length m) @ put32 (m_data_check m) @ put32 (m_magic m)"

definition dec_msg :: "bytes \<Rightarrow> amessage" where
  "dec_msg bs = \<lparr>m_command = get32 bs, m_arg0 = get32 (drop 4 bs), m_arg1 = get32 (drop 8 bs),
                 m_data_length = get32 (drop 12 bs), m_data_check = get32 (drop 16 bs),
                 m_magic = get32 (drop 20 bs)\<rparr>"

definition sizeof_amessage :: nat where
  "sizeof_amessage = 24"

text \<open>\<open>readx\<close> into the payload buffer of a packet.\<close>

definition readx_data :: "nat \<Rightarrow> rres list \<Rightarrow> err + (bytes option \<times> rres list)" where
  "readx_data n rs = (if MAX_PAYLOAD < n then Inl OutOfBounds else readx n rs)"

definition local_remote_read :: "apacket \<Rightarrow> rres list \<Rightarrow> err + (apacket option \<times> rres list)" where
  "local_remote_read p rs =
     ebind (readx sizeof_amessage rs) (\<lambda>(r, rs).
       case r of None \<Rightarrow> Inr (None, rs)
       | Some hdr \<Rightarrow>
           let p = p\<lparr>p_msg := dec_msg hdr\<rparr> in
           if check_header p \<noteq> 0 then Inr (None, rs)
           else ebind (readx_data (unat (m_data_length (p_msg p))) rs) (\<lambda>(r, rs).
             case r of None \<Rightarrow> Inr (None, rs)
             | Some d \<Rightarrow>
                 ebind (buf_write 0 d (p_data p)) (\<lambda>buf.
                   let p = p\<lparr>p_data := buf\<rparr> in
                   ebind (check_data p) (\<lambda>c. Inr (if c \<noteq> 0 then None else Some p, rs)))))"

text \<open>Header and payload are adjacent in \<open>struct apacket\<close>: one \<open>writex\<close> sends both.\<close>

definition local_remote_write :: "apacket \<Rightarrow> wres list \<Rightarrow> err + (bool \<times> bytes \<times> wres list)" where
  "local_remote_write p ws =
     ebind (buf_read (unat (m_data_length (p_msg p))) (p_data p)) (\<lambda>d.
       writex (enc_msg (p_msg p) @ d) ws)"

section \<open>Lemmas\<close>

lemma sum_loop_eq:
  "sum_loop n x s = (if n \<le> length x then Inr (s + payload_sum (take n x)) else Inl Uninitialised)"
  by (induction n x s rule: sum_loop.induct) (auto simp: payload_sum_def add.assoc)

lemma length_enc_msg [simp]: "length (enc_msg m) = sizeof_amessage"
  by (simp add: enc_msg_def sizeof_amessage_def)

lemma drop_drop_put32 [simp]: "n = 4 + k \<Longrightarrow> drop n (put32 w @ rest) = drop k rest"
  by (metis add.commute drop_drop drop_put32)

lemma dec_enc_msg [simp]: "dec_msg (enc_msg m) = m"
  by (simp add: dec_msg_def enc_msg_def)

text \<open>A packet whose header \<open>check_header\<close> accepts and whose payload is there and matches
  its checksum: what the protocol layer may rely on.\<close>

definition valid_packet :: "apacket \<Rightarrow> bool" where
  "valid_packet p \<longleftrightarrow>
     m_magic (p_msg p) = m_command (p_msg p) XOR 0xffffffff \<and>
     unat (m_data_length (p_msg p)) \<le> MAX_PAYLOAD \<and>
     unat (m_data_length (p_msg p)) \<le> length (p_data p) \<and>
     length (p_data p) \<le> MAX_PAYLOAD \<and>
     m_data_check (p_msg p) = payload_sum (take (unat (m_data_length (p_msg p))) (p_data p))"

lemma seal_packet_valid:
  assumes "unat (m_data_length (p_msg p)) \<le> length (p_data p)" and "length (p_data p) \<le> MAX_PAYLOAD"
  obtains q where "seal_packet p = Inr q" and "valid_packet q" and "p_data q = p_data p"
    and "m_command (p_msg q) = m_command (p_msg p)" and "m_arg0 (p_msg q) = m_arg0 (p_msg p)"
    and "m_arg1 (p_msg q) = m_arg1 (p_msg p)" and "m_data_length (p_msg q) = m_data_length (p_msg p)"
  using assms that by (simp add: seal_packet_def sum_loop_eq valid_packet_def Let_def)

lemma check_data_eq:
  "check_data p =
     (if unat (m_data_length (p_msg p)) \<le> length (p_data p)
      then Inr (if payload_sum (take (unat (m_data_length (p_msg p))) (p_data p)) = m_data_check (p_msg p)
                then 0 else -1)
      else Inl Uninitialised)"
  by (simp add: check_data_def sum_loop_eq)

lemma local_remote_write_sent:
  assumes "local_remote_write p ws = Inr (True, sent, ws')"
  shows "sent = enc_msg (p_msg p) @ take (unat (m_data_length (p_msg p))) (p_data p)"
  using assms by (auto simp: local_remote_write_def buf_read_def dest: writex_success split: if_splits)

lemma readx_ok: "ok (readx n rs) (\<lambda>(r, _). case r of None \<Rightarrow> True | Some bs \<Rightarrow> length bs = n)"
proof (cases "readx n rs")
  case (Inl e)
  have "e = Blocked" using Inl
    by (induction n rs rule: readx.induct) (auto simp: ebind_eq_Inl split: if_splits)
  with Inl show ?thesis by simp
next
  case (Inr x)
  then show ?thesis by (cases x) (auto dest: readx_Some split: option.splits)
qed

lemma readx_data_ok:
  "n \<le> MAX_PAYLOAD \<Longrightarrow>
   ok (readx_data n rs) (\<lambda>(r, _). case r of None \<Rightarrow> True | Some bs \<Rightarrow> length bs = n)"
  by (simp add: readx_data_def readx_ok)

text \<open>The bytes of a packet on the wire, and what the other end makes of them.\<close>

definition wire :: "apacket \<Rightarrow> bytes" where
  "wire p = enc_msg (p_msg p) @ take (unat (m_data_length (p_msg p))) (p_data p)"

definition received :: "apacket \<Rightarrow> apacket" where
  "received p = get_apacket\<lparr>p_msg := p_msg p, p_data := take (unat (m_data_length (p_msg p))) (p_data p)\<rparr>"

text \<open>A source of packets: the contract that the output thread relies on, whatever the
  underlying transport.\<close>

locale packet_source =
  fixes rp :: "'s \<Rightarrow> err + (apacket option \<times> 's)"
    and pending_bytes :: "'s \<Rightarrow> bytes"
    and good :: "'s \<Rightarrow> bool"
  assumes rp_packet: "good s \<Longrightarrow> valid_packet p \<Longrightarrow> pending_bytes s = wire p @ rest \<Longrightarrow>
    \<exists>s'. rp s = Inr (Some (received p), s') \<and> good s' \<and> pending_bytes s' = rest"

lemma local_remote_read_packet:
  assumes "healthy rs" and "valid_packet p" and "stream rs = wire p @ rest"
  shows "\<exists>rs'. local_remote_read get_apacket rs = Inr (Some (received p), rs') \<and>
         healthy rs' \<and> stream rs' = rest"
proof -
  let ?n = "unat (m_data_length (p_msg p))"
  have len: "length (take ?n (p_data p)) = ?n" and "?n \<le> MAX_PAYLOAD"
    using assms(2) by (auto simp: valid_packet_def)
  have "stream rs = enc_msg (p_msg p) @ take ?n (p_data p) @ rest"
    using assms(3) by (simp add: wire_def)
  from tcp.rd_frame [OF assms(1) this]
  obtain s1 s2 where "readx sizeof_amessage rs = Inr (Some (enc_msg (p_msg p)), s1)"
    and "readx ?n s1 = Inr (Some (take ?n (p_data p)), s2)" and "healthy s2" and "stream s2 = rest"
    unfolding len length_enc_msg by blast
  then show ?thesis using assms(2) \<open>?n \<le> MAX_PAYLOAD\<close>
    by (simp add: local_remote_read_def valid_packet_def check_header_def readx_data_def
        buf_write_def check_data_eq get_apacket_def received_def)
qed

interpretation tcp_packets: packet_source "local_remote_read get_apacket" stream healthy
  by unfold_locales (rule local_remote_read_packet)

section \<open>Properties\<close>

text \<open>C4: A packet that \<open>remote_write\<close> of the TCP transport has sent is what \<open>remote_read\<close> at
  the other end gives: the same header and the same payload, however the bytes were cut into
  pieces on the way, and nothing of what follows in the stream is consumed.\<close>

theorem local_read_write_roundtrip:
  assumes "valid_packet p"
    and "local_remote_write p ws = Inr (True, sent, ws')"
    and "healthy rs" and "stream rs = sent @ rest"
  shows "\<exists>rs'. local_remote_read get_apacket rs =
           Inr (Some (get_apacket\<lparr>p_msg := p_msg p,
                        p_data := take (unat (m_data_length (p_msg p))) (p_data p)\<rparr>), rs') \<and>
         healthy rs' \<and> stream rs' = rest"
  using tcp_packets.rp_packet [OF assms(3,1)] assms(4) local_remote_write_sent [OF assms(2)]
  by (simp add: wire_def received_def)

text \<open>C13: Whatever the other end of a TCP transport sends, \<open>remote_read\<close> never writes outside
  the payload buffer and never reads a byte of it that was not received; and a packet it
  accepts has the right magic, a length of at most \<open>MAX_PAYLOAD\<close> and a payload that
  matches its checksum.\<close>

theorem local_remote_read_safe:
  "ok (local_remote_read get_apacket rs) (\<lambda>(r, _). case r of None \<Rightarrow> True | Some p \<Rightarrow>
     valid_packet p \<and> length (p_data p) = unat (m_data_length (p_msg p)) \<and> p_len p = 0)"
  unfolding local_remote_read_def
  apply (rule ok_ebind, rule readx_ok)
  apply (clarsimp split: option.splits)
  apply (clarsimp simp: Let_def)
  apply (rule ok_ebind, rule readx_data_ok)
   apply (simp add: check_header_def split: if_splits)
  apply (auto simp: buf_write_def check_data_eq valid_packet_def check_header_def get_apacket_def
      Let_def split: option.splits if_splits)
  done

lemma payload_sum_update:
  assumes "i < length d"
  shows "payload_sum (d[i := b]) = payload_sum d - of_char (d ! i) + of_char b"
  using assms
  by (induction d arbitrary: i) (auto simp: payload_sum_def nth_Cons split: nat.splits)

lemma of_char_u32_inject: "(of_char a :: u32) = of_char b \<longleftrightarrow> a = b"
proof -
  have "unat (of_nat (of_char c) :: u32) = of_char c" for c :: char
    by (simp add: unsigned_of_nat take_bit_nat_eq_self_iff del: of_nat_of_char)
      (rule less_trans [OF nat_of_char_less_256], simp)
  then have "unat (of_char c :: u32) = of_char c" for c :: char
    by (metis of_nat_of_char)
  then show ?thesis by (metis of_char_eq_iff)
qed

text \<open>\<open>check_data\<close> detects the corruption of any single payload byte: a packet that it
  accepts, with one byte inside \<open>data_length\<close> changed, is refused.\<close>

theorem check_data_detects_corruption:
  assumes "check_data p = Inr 0" and "i < unat (m_data_length (p_msg p))" and "p_data p ! i \<noteq> b"
  shows "check_data (p\<lparr>p_data := (p_data p)[i := b]\<rparr>) = Inr (-1)"
proof -
  let ?n = "unat (m_data_length (p_msg p))"
  have n: "?n \<le> length (p_data p)" and sum: "payload_sum (take ?n (p_data p)) = m_data_check (p_msg p)"
    using assms(1) by (auto simp: check_data_eq split: if_splits)
  have "payload_sum (take ?n ((p_data p)[i := b])) =
        m_data_check (p_msg p) - of_char (p_data p ! i) + of_char b"
    using n sum assms(2) by (simp add: take_update_swap payload_sum_update)
  moreover have "(of_char (p_data p ! i) :: u32) \<noteq> of_char b"
    using assms(3) by (simp add: of_char_u32_inject)
  ultimately show ?thesis using n by (simp add: check_data_eq)
qed

text \<open>A concrete sealed packet for the witnesses.\<close>

definition sample_packet :: apacket where
  "sample_packet = \<lparr>p_len = 0, p_ptr = 0,
     p_msg = \<lparr>m_command = A_WRTE, m_arg0 = 7, m_arg1 = 9, m_data_length = 2, m_data_check = 0xd1,
              m_magic = A_WRTE XOR 0xffffffff\<rparr>,
     p_data = ''hi''\<rparr>"

lemma sample_packet_valid: "valid_packet sample_packet"
  by (simp add: sample_packet_def valid_packet_def MAX_PAYLOAD_def payload_sum_def)

theorem local_read_write_roundtrip_witness:
  "\<exists>rs'. local_remote_read get_apacket
        [RData (take 5 (enc_msg (p_msg sample_packet))), RErr EINTR,
         RData (drop 5 (enc_msg (p_msg sample_packet)) @ ''hi'' @ ''next'')] =
      Inr (Some (get_apacket\<lparr>p_msg := p_msg sample_packet, p_data := ''hi''\<rparr>), rs') \<and>
    healthy rs' \<and> stream rs' = ''next''"
proof -
  have "local_remote_write sample_packet [WOk 100] =
        Inr (True, enc_msg (p_msg sample_packet) @ ''hi'', [])"
    by (simp add: local_remote_write_def buf_read_def sample_packet_def MAX_PAYLOAD_def
        enc_msg_def)
  from local_read_write_roundtrip [OF sample_packet_valid this, of
      "[RData (take 5 (enc_msg (p_msg sample_packet))), RErr EINTR,
        RData (drop 5 (enc_msg (p_msg sample_packet)) @ ''hi'' @ ''next'')]" "''next''"]
  show ?thesis
    by (simp add: sample_packet_def enc_msg_def)
qed

theorem check_data_detects_corruption_witness:
  "check_data (sample_packet\<lparr>p_data := ''ha''\<rparr>) = Inr (-1)"
  using check_data_detects_corruption [of sample_packet 1 "CHR ''a''"]
  by (simp add: check_data_eq sample_packet_def payload_sum_def)

end
