(* ===== verification/Adb_Usb_Vendors.thy ===== *)
theory Adb_Usb_Vendors
  imports Adb_Prelude
begin

text \<open>
  The table of USB vendors (usb\_vendors.c) and the test of a USB interface against it
  (\<open>is_adb_interface\<close> of transport\_usb.c).

  The content of the vendor file \<open>~/.android/adb_usb.ini\<close> is an argument: \<open>None\<close> when its
  path cannot be made or the file cannot be opened.
\<close>

section \<open>The built-in vendors\<close>

text \<open>The \<open>VENDOR_ID_\<close> macros, by the rest of their names.\<close>

definition VENDOR_ID :: "(string \<times> int) list" where
  "VENDOR_ID = [
    (''ACER'', 0x0502), (''ALLWINNER'', 0x1F3A), (''PAX'', 0x2FB8), (''PAX_LEGACY'', 0x0327),
    (''AMLOGIC'', 0x1b8e), (''ANYDATA'', 0x16D5), (''ARCHOS'', 0x0E79), (''ASUS'', 0x0b05),
    (''BYD'', 0x1D91), (''COMPAL'', 0x04B7), (''COMPALCOMM'', 0x1219), (''DELL'', 0x413c),
    (''ECS'', 0x03fc), (''EMERGING_TECH'', 0x297F), (''EMERSON'', 0x2207), (''FOXCONN'', 0x0489),
    (''FUJITSU'', 0x04C5), (''FUNAI'', 0x0F1C), (''GARMIN_ASUS'', 0x091E),
    (''GIGABYTE'', 0x0414), (''GIGASET'', 0x1E85), (''GIONEE'', 0x271D), (''GOOGLE'', 0x18d1),
    (''HAIER'', 0x201E), (''HARRIS'', 0x19A5), (''HISENSE'', 0x109b), (''HONEYWELL'', 0x0c2e),
    (''HP'', 0x03f0), (''HTC'', 0x0bb4), (''HUAWEI'', 0x12D1), (''INQ_MOBILE'', 0x2314),
    (''INTEL'', 0x8087), (''INTERMEC'', 0x067e), (''IRIVER'', 0x2420), (''K_TOUCH'', 0x24E3),
    (''KT_TECH'', 0x2116), (''KOBO'', 0x2237), (''KYOCERA'', 0x0482), (''LAB126'', 0x1949),
    (''LENOVO'', 0x17EF), (''LENOVOMOBILE'', 0x2006), (''LGE'', 0x1004), (''LUMIGON'', 0x25E3),
    (''MOTOROLA'', 0x22b8), (''MSI'', 0x0DB0), (''MTK'', 0x0e8d), (''NEC'', 0x0409),
    (''NOOK'', 0x2080), (''NVIDIA'', 0x0955), (''OPPO'', 0x22D9), (''OTGV'', 0x2257),
    (''OUYA'', 0x2836), (''PANTECH'', 0x10A9), (''PEGATRON'', 0x1D4D), (''PHILIPS'', 0x0471),
    (''PMC'', 0x04DA), (''POSITIVO'', 0x1662), (''PRESTIGIO'', 0x29e4), (''QISDA'', 0x1D45),
    (''QUALCOMM'', 0x05c6), (''QUANTA'', 0x0408), (''ROCKCHIP'', 0x2207), (''SAMSUNG'', 0x04e8),
    (''SHARP'', 0x04dd), (''SK_TELESYS'', 0x1F53), (''SMARTISAN'', 0x29a9), (''SONY'', 0x054C),
    (''SONY_ERICSSON'', 0x0FCE), (''T_AND_A'', 0x1BBB), (''TECHFAITH'', 0x1d09),
    (''TELEEPOCH'', 0x2340), (''TI'', 0x0451), (''TOSHIBA'', 0x0930), (''UNOWHY'', 0x2A49),
    (''VIZIO'', 0xE040), (''WACOM'', 0x0531), (''XIAOMI'', 0x2717), (''YOTADEVICES'', 0x2916),
    (''YULONG_COOLPAD'', 0x1EBF), (''ZTE'', 0x19D2)]"

definition builtInVendorIds :: "int list" where
  "builtInVendorIds = map (\<lambda>n. the (map_of VENDOR_ID n)) [
    ''ACER'', ''ALLWINNER'', ''PAX'', ''PAX_LEGACY'', ''AMLOGIC'', ''ANYDATA'', ''ARCHOS'',
    ''ASUS'', ''BYD'', ''COMPAL'', ''COMPALCOMM'', ''DELL'', ''ECS'', ''EMERGING_TECH'',
    ''EMERSON'', ''FOXCONN'', ''FUJITSU'', ''FUNAI'', ''GARMIN_ASUS'', ''GIGABYTE'', ''GIGASET'',
    ''GIONEE'', ''GOOGLE'', ''HAIER'', ''HARRIS'', ''HISENSE'', ''HONEYWELL'', ''HP'', ''HTC'',
    ''HUAWEI'', ''INQ_MOBILE'', ''INTEL'', ''INTERMEC'', ''IRIVER'', ''KOBO'', ''K_TOUCH'',
    ''KT_TECH'', ''KYOCERA'', ''LAB126'', ''LENOVO'', ''LENOVOMOBILE'', ''LGE'', ''LUMIGON'',
    ''MOTOROLA'', ''MSI'', ''MTK'', ''NEC'', ''NOOK'', ''NVIDIA'', ''OPPO'', ''OTGV'', ''OUYA'',
    ''PANTECH'', ''PEGATRON'', ''PHILIPS'', ''PMC'', ''POSITIVO'', ''PRESTIGIO'', ''QISDA'',
    ''QUALCOMM'', ''QUANTA'', ''ROCKCHIP'', ''SAMSUNG'', ''SHARP'', ''SK_TELESYS'',
    ''SMARTISAN'', ''SONY'', ''SONY_ERICSSON'', ''T_AND_A'', ''TECHFAITH'', ''TELEEPOCH'',
    ''TI'', ''TOSHIBA'', ''UNOWHY'', ''VIZIO'', ''WACOM'', ''XIAOMI'', ''YOTADEVICES'',
    ''YULONG_COOLPAD'', ''ZTE'']"

definition VENDOR_COUNT_MAX :: nat where
  "VENDOR_COUNT_MAX = 128"

definition INT_MAX :: int where
  "INT_MAX = 2147483647"

definition PATH_MAX :: nat where
  "PATH_MAX = 4096"

section \<open>The vendor file\<close>

text \<open>\<open>fgets\<close> on what is left of a file: the bytes up to and including the next newline, at
  most \<open>n - 1\<close> of them.\<close>

definition fgets :: "nat \<Rightarrow> bytes \<Rightarrow> (bytes \<times> bytes) option" where
  "fgets n bs =
     (if bs = [] then None
      else let pre = take (n - 1) bs;
               body = takeWhile (\<lambda>c. c \<noteq> CHR 0x0A) pre;
               line = (if length body < length pre then body @ [CHR 0x0A] else pre)
           in Some (line, drop (length line) bs))"

lemma fgets_shorter:
  assumes "fgets n bs = Some (line, rest)" and "1 < n"
  shows "length rest < length bs"
  using assms by (auto simp: fgets_def Let_def split: if_splits)

text \<open>The loop over the lines. \<open>bad\<close> says that \<open>errno\<close> is \<open>EINVAL\<close> or \<open>ERANGE\<close>; nothing
  resets it, so it may hold before the first call of \<open>strtol\<close>.\<close>

function vendors_loop :: "bool \<Rightarrow> bytes \<Rightarrow> int list \<Rightarrow> err + int list" where
  "vendors_loop bad bs ids =
     (case fgets PATH_MAX bs of
        None \<Rightarrow> Inr ids
      | Some (temp, rest) \<Rightarrow>
          if take 1 temp = ''#'' then vendors_loop bad rest ids
          else let (value, range, _) = strtol 0 (takeWhile (\<lambda>c. c \<noteq> NUL) temp); bad = (bad \<or> range) in
            if bad \<or> INT_MAX < value \<or> value < 0 then Inl (Exited 2)
            else if length ids < VENDOR_COUNT_MAX then
              let ids = ids @ [value] in
              if length ids = VENDOR_COUNT_MAX then Inr ids else vendors_loop bad rest ids
            else Inl OutOfBounds)"
  by pat_completeness auto
termination
  by (relation "measure (\<lambda>(_, bs, _). length bs)") (auto dest: fgets_shorter simp: PATH_MAX_def)

declare vendors_loop.simps [simp del]

definition usb_vendors_init :: "bool \<Rightarrow> bytes option \<Rightarrow> err + int list" where
  "usb_vendors_init bad ini =
     (if VENDOR_COUNT_MAX < length builtInVendorIds then Inl (Exited 2)
      else if VENDOR_COUNT_MAX = length builtInVendorIds then Inr builtInVendorIds
      else case ini of
             None \<Rightarrow> Inr builtInVendorIds
           | Some bs \<Rightarrow> vendors_loop bad bs builtInVendorIds)"

section \<open>The test of an interface\<close>

definition ADB_CLASS :: int where "ADB_CLASS = 0xff"
definition ADB_SUBCLASS :: int where "ADB_SUBCLASS = 0x42"
definition ADB_PROTOCOL :: int where "ADB_PROTOCOL = 0x1"

fun is_adb_interface :: "int list \<Rightarrow> int \<Rightarrow> int \<Rightarrow> int \<Rightarrow> int \<Rightarrow> int \<Rightarrow> bool" where
  "is_adb_interface [] vid pid usb_class usb_subclass usb_protocol = False"
| "is_adb_interface (v # vs) vid pid usb_class usb_subclass usb_protocol =
     (if vid = v then
        usb_class = ADB_CLASS \<and> usb_subclass = ADB_SUBCLASS \<and> usb_protocol = ADB_PROTOCOL
      else is_adb_interface vs vid pid usb_class usb_subclass usb_protocol)"

section \<open>Lemmas\<close>

lemma length_builtin: "length builtInVendorIds = 80"
  by (simp add: builtInVendorIds_def)

lemma is_adb_interface_iff:
  "is_adb_interface vs vid pid c sc pr \<longleftrightarrow>
     vid \<in> set vs \<and> c = ADB_CLASS \<and> sc = ADB_SUBCLASS \<and> pr = ADB_PROTOCOL"
  by (induction vs) auto

lemma vendors_loop_bounds:
  assumes "length ids < VENDOR_COUNT_MAX" and "\<forall>v \<in> set ids. 0 \<le> v \<and> v \<le> INT_MAX"
  shows "ok (vendors_loop bad bs ids) (\<lambda>r. take (length ids) r = ids \<and> length r \<le> VENDOR_COUNT_MAX \<and>
     (\<forall>v \<in> set r. 0 \<le> v \<and> v \<le> INT_MAX))"
  using assms
proof (induction bad bs ids rule: vendors_loop.induct)
  case (1 bad bs ids)
  show ?case
  proof (cases "fgets PATH_MAX bs")
    case None
    then show ?thesis using 1(3,4) by (simp add: vendors_loop.simps)
  next
    case (Some tr)
    obtain temp rest where tr: "tr = (temp, rest)" by (cases tr)
    obtain v rg e where st: "strtol 0 (takeWhile (\<lambda>c. c \<noteq> NUL) temp) = (v, rg, e)"
      by (cases "strtol 0 (takeWhile (\<lambda>c. c \<noteq> NUL) temp)") auto
    show ?thesis
    proof (cases "take 1 temp = ''#''")
      case True
      then show ?thesis using 1(1) [OF Some tr [symmetric] True 1(3,4)] Some tr
        by (subst vendors_loop.simps) simp
    next
      case False
      show ?thesis
      proof (cases "(bad \<or> rg) \<or> INT_MAX < v \<or> v < 0")
        case True
        then show ?thesis using False Some tr st by (subst vendors_loop.simps) (simp add: Let_def)
      next
        case ok: False
        show ?thesis
        proof (cases "length (ids @ [v]) = VENDOR_COUNT_MAX")
          case True
          then show ?thesis using False Some tr st ok 1(4) by (subst vendors_loop.simps) (auto simp: Let_def)
        next
          case more: False
          then have len: "length (ids @ [v]) < VENDOR_COUNT_MAX" using 1(3) by simp
          have "\<forall>x \<in> set (ids @ [v]). 0 \<le> x \<and> x \<le> INT_MAX" using 1(4) ok by auto
          from 1(2) [OF Some tr [symmetric] False refl st [symmetric] refl refl ok 1(3) refl more len this]
          have "ok (vendors_loop (bad \<or> rg) rest (ids @ [v])) (\<lambda>r. take (length (ids @ [v])) r = ids @ [v] \<and>
              length r \<le> VENDOR_COUNT_MAX \<and> (\<forall>x \<in> set r. 0 \<le> x \<and> x \<le> INT_MAX))" .
          then have "ok (vendors_loop (bad \<or> rg) rest (ids @ [v])) (\<lambda>r. take (length ids) r = ids \<and>
              length r \<le> VENDOR_COUNT_MAX \<and> (\<forall>x \<in> set r. 0 \<le> x \<and> x \<le> INT_MAX))"
            by (rule ok_mono) (metis append_eq_conv_conj append_take_drop_id append.assoc append_same_eq
                length_append take_add)
          then show ?thesis using False Some tr st ok more 1(3) by (subst vendors_loop.simps) (simp add: Let_def)
        qed
      qed
    qed
  qed
qed

section \<open>Properties\<close>

lemma builtin_values: "builtInVendorIds = [
    0x0502, 0x1F3A, 0x2FB8, 0x0327, 0x1b8e, 0x16D5, 0x0E79, 0x0b05, 0x1D91, 0x04B7, 0x1219,
    0x413c, 0x03fc, 0x297F, 0x2207, 0x0489, 0x04C5, 0x0F1C, 0x091E, 0x0414, 0x1E85, 0x271D,
    0x18d1, 0x201E, 0x19A5, 0x109b, 0x0c2e, 0x03f0, 0x0bb4, 0x12D1, 0x2314, 0x8087, 0x067e,
    0x2420, 0x2237, 0x24E3, 0x2116, 0x0482, 0x1949, 0x17EF, 0x2006, 0x1004, 0x25E3, 0x22b8,
    0x0DB0, 0x0e8d, 0x0409, 0x2080, 0x0955, 0x22D9, 0x2257, 0x2836, 0x10A9, 0x1D4D, 0x0471,
    0x04DA, 0x1662, 0x29e4, 0x1D45, 0x05c6, 0x0408, 0x2207, 0x04e8, 0x04dd, 0x1F53, 0x29a9,
    0x054C, 0x0FCE, 0x1BBB, 0x1d09, 0x2340, 0x0451, 0x0930, 0x2A49, 0xE040, 0x0531, 0x2717,
    0x2916, 0x1EBF, 0x19D2]"
  by code_simp

lemma builtin_range: "\<forall>v \<in> set builtInVendorIds. 0 \<le> v \<and> v \<le> INT_MAX"
  by (simp add: builtin_values INT_MAX_def)

lemma builtin_pax: "0x2FB8 \<in> set builtInVendorIds" "0x0327 \<in> set builtInVendorIds"
  by (simp_all add: builtin_values)

text \<open>C32: Whatever the vendor file holds, and however many lines it has, \<open>usb_vendors_init\<close>
  never writes past the 128 entries of \<open>vendorIds\<close>: it stops the program with status 2 or
  leaves the built-in vendors followed by numbers of the file, all of them valid values of an
  \<open>int\<close>; and the two vendor numbers of PAX terminals are recognised then, on an interface of
  the ADB class, subclass and protocol and on no other.\<close>

theorem usb_vendors_init_bounds:
  "ok (usb_vendors_init bad ini) (\<lambda>ids. take (length builtInVendorIds) ids = builtInVendorIds \<and>
     length ids \<le> VENDOR_COUNT_MAX \<and> (\<forall>v \<in> set ids. 0 \<le> v \<and> v \<le> INT_MAX) \<and>
     (\<forall>pid c sc pr. is_adb_interface ids 0x2FB8 pid c sc pr = (c = 0xff \<and> sc = 0x42 \<and> pr = 1) \<and>
                    is_adb_interface ids 0x0327 pid c sc pr = (c = 0xff \<and> sc = 0x42 \<and> pr = 1)))"
proof -
  have lt: "length builtInVendorIds < VENDOR_COUNT_MAX" by (simp add: length_builtin VENDOR_COUNT_MAX_def)
  have pax: "0x2FB8 \<in> set ids \<and> 0x0327 \<in> set ids" if "take (length builtInVendorIds) ids = builtInVendorIds"
    for ids :: "int list"
    using builtin_pax that by (metis in_set_takeD)
  have "ok (usb_vendors_init bad ini) (\<lambda>ids. take (length builtInVendorIds) ids = builtInVendorIds \<and>
     length ids \<le> VENDOR_COUNT_MAX \<and> (\<forall>v \<in> set ids. 0 \<le> v \<and> v \<le> INT_MAX))"
    using lt vendors_loop_bounds [OF lt builtin_range] builtin_range
    by (auto simp: usb_vendors_init_def split: option.split)
  then show ?thesis
    by (rule ok_mono) (use pax in \<open>auto simp: is_adb_interface_iff ADB_CLASS_def ADB_SUBCLASS_def ADB_PROTOCOL_def\<close>)
qed

theorem usb_vendors_init_bounds_witness:
  "0x18D2 \<notin> set builtInVendorIds \<and>
   ok (usb_vendors_init False (Some ''0x18D2'')) (\<lambda>ids. take (length builtInVendorIds) ids = builtInVendorIds \<and>
     length ids \<le> VENDOR_COUNT_MAX \<and> (\<forall>v \<in> set ids. 0 \<le> v \<and> v \<le> INT_MAX) \<and>
     (\<forall>pid c sc pr. is_adb_interface ids 0x2FB8 pid c sc pr = (c = 0xff \<and> sc = 0x42 \<and> pr = 1) \<and>
                    is_adb_interface ids 0x0327 pid c sc pr = (c = 0xff \<and> sc = 0x42 \<and> pr = 1)))"
proof -
  have "0x18D2 \<notin> set builtInVendorIds" by (simp add: builtin_values)
  then show ?thesis using usb_vendors_init_bounds [of False "Some ''0x18D2''"] by blast
qed

end
