(* ===== verification/Adb_Usb.thy ===== *)
theory Adb_Usb
  imports Adb_Packet Adb_Usb_Vendors
begin

text \<open>
  USB devices (usb\_linux.c): bulk transfers through \<open>usbfs\<close>, \<open>usb_read\<close> and \<open>usb_write\<close>,
  the packet functions of transport\_usb.c on top of them, and the search for the ADB interface
  in the descriptors of a device.

  What the kernel answers is a script in the handle: one entry per \<open>USBDEVFS_SUBMITURB\<close>, one
  per return of \<open>USBDEVFS_REAPURB\<close>, one per return of \<open>pthread_cond_timedwait\<close>. The lock of
  the handle is released while a thread waits, so an entry of the last two also says whether
  another thread has marked the handle dead by then. \<open>uh_errno\<close> is the \<open>errno\<close> of the thread.
\<close>

section \<open>Data\<close>

datatype ioctl_res = Io_ok | Io_err errno

text \<open>\<open>Reap_in st bs\<close>: the IN transfer is complete, with that status and those bytes in the
  buffer; \<open>Reap_out\<close>: the OUT transfer is.\<close>

datatype reap_res = Reap_in int bytes | Reap_out | Reap_err errno

text \<open>A return of \<open>pthread_cond_timedwait\<close>: its value, and the status and length of the OUT
  transfer when it is complete.\<close>

datatype wake = Wake int "(int \<times> nat) option"

record usb_handle =
  uh_fname :: string
  uh_desc :: int
  uh_ep_in :: u8
  uh_ep_out :: u8
  uh_zero_mask :: u32
  uh_writeable :: bool
  uh_urb_in_busy :: bool
  uh_urb_out_busy :: bool
  uh_dead :: bool
  uh_mark :: bool
  uh_errno :: errno
  uh_submits :: "ioctl_res list"
  uh_reaps :: "(bool \<times> reap_res) list"
  uh_wakes :: "(bool \<times> wake) list"
  uh_out :: "bytes list"

section \<open>Bulk transfers\<close>

text \<open>\<open>do res = ioctl(...) while (res < 0 && errno == EINTR)\<close>.\<close>

fun submit_loop :: "ioctl_res list \<Rightarrow> errno \<Rightarrow> err + (bool \<times> errno \<times> ioctl_res list)" where
  "submit_loop [] e0 = Inl Blocked"
| "submit_loop (Io_ok # ss) e0 = Inr (True, e0, ss)"
| "submit_loop (Io_err e # ss) e0 = (if e = EINTR then submit_loop ss EINTR else Inr (False, e, ss))"

definition submit_urb :: "usb_handle \<Rightarrow> err + (bool \<times> usb_handle)" where
  "submit_urb h =
     ebind (submit_loop (uh_submits h) (uh_errno h)) (\<lambda>(r, e, ss).
       Inr (r, h\<lparr>uh_submits := ss, uh_errno := e\<rparr>))"

text \<open>The loop of \<open>usb_bulk_read\<close>: the result and the bytes that are in the buffer.\<close>

fun reap_loop :: "nat \<Rightarrow> (bool \<times> reap_res) list \<Rightarrow> usb_handle \<Rightarrow> err + (int \<times> bytes \<times> usb_handle)" where
  "reap_loop len [] h = Inl Blocked"
| "reap_loop len ((killed, r) # rs) h =
     (let h = h\<lparr>uh_reaps := rs, uh_dead := uh_dead h \<or> killed,
                uh_errno := (case r of Reap_err e \<Rightarrow> e | _ \<Rightarrow> uh_errno h)\<rparr>
      in if uh_dead h then Inr (-1, [], h)
         else case r of
           Reap_err e \<Rightarrow> if e = EINTR then reap_loop len rs h else Inr (-1, [], h)
         | Reap_in st bs \<Rightarrow>
             let h = h\<lparr>uh_urb_in_busy := False\<rparr>; bs = take len bs in
             if st = 0 then Inr (int (length bs), bs, h) else Inr (-1, [], h)
         | Reap_out \<Rightarrow> reap_loop len rs (h\<lparr>uh_urb_out_busy := False\<rparr>))"

definition usb_bulk_read :: "nat \<Rightarrow> usb_handle \<Rightarrow> err + (int \<times> bytes \<times> usb_handle)" where
  "usb_bulk_read len h =
     (if uh_dead h then Inr (-1, [], h)
      else ebind (submit_urb h) (\<lambda>(r, h).
        if \<not> r then Inr (-1, [], h)
        else reap_loop len (uh_reaps h) (h\<lparr>uh_urb_in_busy := True\<rparr>)))"

text \<open>The loop of \<open>usb_bulk_write\<close>. Its result is what \<open>pthread_cond_timedwait\<close> returned
  unless the transfer succeeded.\<close>

fun wait_loop :: "bytes \<Rightarrow> (bool \<times> wake) list \<Rightarrow> usb_handle \<Rightarrow> err + (int \<times> usb_handle)" where
  "wait_loop data [] h = Inl Blocked"
| "wait_loop data ((killed, Wake res fin) # ws) h =
     (let h = h\<lparr>uh_wakes := ws, uh_dead := uh_dead h \<or> killed,
                uh_urb_out_busy := (fin = None \<and> uh_urb_out_busy h),
                uh_out := uh_out h @ (case fin of Some (st, n) \<Rightarrow> if st = 0 then [take n data] else [] | None \<Rightarrow> [])\<rparr>
      in if res < 0 \<or> uh_dead h then Inr (res, h)
         else case fin of
           Some (st, n) \<Rightarrow> Inr (if st = 0 then int (length (take n data)) else res, h)
         | None \<Rightarrow> wait_loop data ws h)"

definition usb_bulk_write :: "bytes \<Rightarrow> usb_handle \<Rightarrow> err + (int \<times> usb_handle)" where
  "usb_bulk_write data h =
     (if uh_dead h then Inr (-1, h)
      else ebind (submit_urb h) (\<lambda>(r, h).
        if \<not> r then Inr (-1, h)
        else wait_loop data (uh_wakes h) (h\<lparr>uh_urb_out_busy := True\<rparr>)))"

section \<open>usb_read and usb_write\<close>

definition BULK_MAX :: nat where
  "BULK_MAX = 4096"

fun usb_write_loop :: "nat \<Rightarrow> bytes \<Rightarrow> usb_handle \<Rightarrow> err + (bool \<times> usb_handle)" where
  "usb_write_loop 0 data h = Inl OutOfFuel"
| "usb_write_loop (Suc k) data h =
     (if data = [] then Inr (True, h)
      else let xfer = min BULK_MAX (length data) in
        ebind (usb_bulk_write (take xfer data) h) (\<lambda>(n, h).
          if n \<noteq> int xfer then Inr (False, h) else usb_write_loop k (drop xfer data) h))"

text \<open>\<open>usb_write\<close>: the loop takes at least one byte per round.\<close>

definition usb_write :: "bytes \<Rightarrow> usb_handle \<Rightarrow> err + (int \<times> usb_handle)" where
  "usb_write data h =
     (let need_zero = (uh_zero_mask h \<noteq> 0 \<and> of_nat (length data) AND uh_zero_mask h = 0) in
      ebind (usb_write_loop (Suc (length data)) data h) (\<lambda>(r, h).
        if \<not> r then Inr (-1, h)
        else if need_zero then usb_bulk_write [] h
        else Inr (0, h)))"

text \<open>The loop of \<open>usb_read\<close>. After a short transfer it looks at \<open>errno\<close>, whoever set it; the
  descriptor is not -1 while the handle exists.\<close>

fun usb_read_loop :: "nat \<Rightarrow> nat \<Rightarrow> bytes \<Rightarrow> usb_handle \<Rightarrow> err + (bytes option \<times> usb_handle)" where
  "usb_read_loop 0 len got h = Inl OutOfFuel"
| "usb_read_loop (Suc k) len got h =
     (if len = 0 then Inr (Some got, h)
      else let xfer = min BULK_MAX len in
        ebind (usb_bulk_read xfer h) (\<lambda>(n, bs, h).
          if n \<noteq> int xfer then
            if uh_errno h = ETIMEDOUT \<and> uh_desc h \<noteq> -1 then
              if 0 < n then usb_read_loop k (len - nat n) (got @ bs) h else usb_read_loop k len got h
            else Inr (None, h)
          else usb_read_loop k (len - xfer) (got @ bs) h))"

text \<open>A round that goes on either takes a byte or takes an entry of the script of submissions,
  unless the handle is dead; then it goes on for ever.\<close>

definition usb_read :: "nat \<Rightarrow> usb_handle \<Rightarrow> err + (bytes option \<times> usb_handle)" where
  "usb_read len h = usb_read_loop (Suc (len + length (uh_submits h))) len [] h"

section \<open>Packets over USB\<close>

definition usb_remote_read :: "apacket \<Rightarrow> usb_handle \<Rightarrow> err + (apacket option \<times> usb_handle)" where
  "usb_remote_read p h =
     ebind (usb_read sizeof_amessage h) (\<lambda>(r, h).
       case r of None \<Rightarrow> Inr (None, h)
       | Some hdr \<Rightarrow>
           let p = p\<lparr>p_msg := dec_msg hdr\<rparr> in
           if check_header p \<noteq> 0 then Inr (None, h)
           else ebind (if m_data_length (p_msg p) \<noteq> 0
                       then usb_read (unat (m_data_length (p_msg p))) h
                       else Inr (Some [], h)) (\<lambda>(r, h).
             case r of None \<Rightarrow> Inr (None, h)
             | Some d \<Rightarrow>
                 ebind (buf_write 0 d (p_data p)) (\<lambda>buf.
                   let p = p\<lparr>p_data := buf\<rparr> in
                   ebind (check_data p) (\<lambda>c. Inr (if c \<noteq> 0 then None else Some p, h)))))"

definition usb_remote_write :: "apacket \<Rightarrow> usb_handle \<Rightarrow> err + (int \<times> usb_handle)" where
  "usb_remote_write p h =
     ebind (usb_write (enc_msg (p_msg p)) h) (\<lambda>(r, h).
       if r \<noteq> 0 then Inr (-1, h)
       else if m_data_length (p_msg p) = 0 then Inr (0, h)
       else ebind (buf_read (unat (m_data_length (p_msg p))) (p_data p)) (\<lambda>d.
         ebind (usb_write d h) (\<lambda>(r, h). Inr (if r \<noteq> 0 then -1 else 0, h))))"

section \<open>The descriptors of a device\<close>

definition USB_DT_DEVICE :: u8 where "USB_DT_DEVICE = 1"
definition USB_DT_CONFIG :: u8 where "USB_DT_CONFIG = 2"
definition USB_DT_INTERFACE :: u8 where "USB_DT_INTERFACE = 4"
definition USB_DT_ENDPOINT :: u8 where "USB_DT_ENDPOINT = 5"
definition USB_DT_DEVICE_SIZE :: nat where "USB_DT_DEVICE_SIZE = 18"
definition USB_DT_CONFIG_SIZE :: nat where "USB_DT_CONFIG_SIZE = 9"
definition USB_DT_INTERFACE_SIZE :: nat where "USB_DT_INTERFACE_SIZE = 9"
definition USB_DT_ENDPOINT_SIZE :: nat where "USB_DT_ENDPOINT_SIZE = 7"
definition USB_ENDPOINT_XFER_BULK :: u8 where "USB_ENDPOINT_XFER_BULK = 2"
definition USB_ENDPOINT_DIR_MASK :: u8 where "USB_ENDPOINT_DIR_MASK = 0x80"

lemmas usb_dt_defs = USB_DT_DEVICE_def USB_DT_CONFIG_def USB_DT_INTERFACE_def USB_DT_ENDPOINT_def
  USB_DT_DEVICE_SIZE_def USB_DT_CONFIG_SIZE_def USB_DT_INTERFACE_SIZE_def USB_DT_ENDPOINT_SIZE_def
  USB_ENDPOINT_XFER_BULK_def USB_ENDPOINT_DIR_MASK_def

definition DEVDESC_SIZE :: nat where "DEVDESC_SIZE = 4096"

text \<open>A byte of \<open>devdesc\<close>, of which \<open>read\<close> has filled the start.\<close>

definition desc_byte :: "bytes \<Rightarrow> nat \<Rightarrow> err + u8" where
  "desc_byte d i =
     (if DEVDESC_SIZE \<le> i then Inl OutOfBounds
      else if length d \<le> i then Inl Uninitialised
      else Inr (of_char (d ! i)))"

definition desc_u16 :: "bytes \<Rightarrow> nat \<Rightarrow> err + nat" where
  "desc_u16 d i = ebind (desc_byte d i) (\<lambda>a. ebind (desc_byte d (i + 1)) (\<lambda>b. Inr (unat a + 256 * unat b)))"

text \<open>What \<open>register_device\<close> is called with, the device path apart.\<close>

record usb_match =
  um_ep_in :: u8
  um_ep_out :: u8
  um_interface :: u8
  um_serial_index :: u8
  um_zero_mask :: u32

text \<open>The two endpoint descriptors at \<open>p\<close> of an interface descriptor at \<open>i\<close>: \<open>None\<close> where the
  search ends without a match, \<open>Some None\<close> where it goes on.\<close>

definition match_endpoints :: "bytes \<Rightarrow> nat \<Rightarrow> nat \<Rightarrow> err + usb_match option option" where
  "match_endpoints d i p =
     (let ep1 = p; ep2 = p + USB_DT_ENDPOINT_SIZE; bufptr = p + 2 * USB_DT_ENDPOINT_SIZE in
      if length d < bufptr then Inr None
      else
        ebind (desc_byte d ep1) (\<lambda>len1.
        ebind (desc_byte d (ep1 + 1)) (\<lambda>type1.
        ebind (desc_byte d ep2) (\<lambda>len2.
        ebind (desc_byte d (ep2 + 1)) (\<lambda>type2.
        if unat len1 \<noteq> USB_DT_ENDPOINT_SIZE \<or> type1 \<noteq> USB_DT_ENDPOINT \<or>
           unat len2 \<noteq> USB_DT_ENDPOINT_SIZE \<or> type2 \<noteq> USB_DT_ENDPOINT then Inr None
        else
          ebind (desc_byte d (ep1 + 3)) (\<lambda>attr1.
          ebind (desc_byte d (ep2 + 3)) (\<lambda>attr2.
          if attr1 \<noteq> USB_ENDPOINT_XFER_BULK \<or> attr2 \<noteq> USB_ENDPOINT_XFER_BULK then Inr (Some None)
          else
            ebind (desc_byte d (i + 7)) (\<lambda>protocol.
            ebind (desc_u16 d (ep1 + 4)) (\<lambda>max1.
            ebind (desc_byte d (ep1 + 2)) (\<lambda>addr1.
            ebind (desc_byte d (ep2 + 2)) (\<lambda>addr2.
            ebind (desc_byte d (i + 2)) (\<lambda>ifc.
            ebind (desc_byte d 16) (\<lambda>serial_index.
            let first_in = (addr1 AND USB_ENDPOINT_DIR_MASK \<noteq> 0) in
              Inr (Some (Some \<lparr>um_ep_in = (if first_in then addr1 else addr2),
                um_ep_out = (if first_in then addr2 else addr1), um_interface = ifc,
                um_serial_index = serial_index,
                um_zero_mask = (if protocol = 1 then of_nat max1 - 1 else 0)\<rparr>)))))))))))))))"

text \<open>The loop over the descriptors from \<open>bufptr\<close> on.\<close>

fun scan_loop :: "nat \<Rightarrow> int list \<Rightarrow> bytes \<Rightarrow> nat \<Rightarrow> nat \<Rightarrow> nat \<Rightarrow> err + usb_match option" where
  "scan_loop 0 vendorIds d vid pid bufptr = Inl OutOfFuel"
| "scan_loop (Suc k) vendorIds d vid pid bufptr =
     (if \<not> bufptr < length d then Inr None
      else
        ebind (desc_byte d bufptr) (\<lambda>len.
        ebind (desc_byte d (bufptr + 1)) (\<lambda>type.
        let i = bufptr; bufptr = bufptr + unat len in
        if type = USB_DT_INTERFACE then
          if unat len \<noteq> USB_DT_INTERFACE_SIZE then Inr None
          else
            ebind (desc_byte d (i + 4)) (\<lambda>num.
            if num = 2 then
              ebind (desc_byte d (i + 5)) (\<lambda>cls.
              ebind (desc_byte d (i + 6)) (\<lambda>subcls.
              ebind (desc_byte d (i + 7)) (\<lambda>protocol.
              if is_adb_interface vendorIds (int vid) (int pid) (uint cls) (uint subcls) (uint protocol) then
                ebind (match_endpoints d i bufptr) (\<lambda>r.
                  case r of
                    None \<Rightarrow> Inr None
                  | Some None \<Rightarrow> scan_loop k vendorIds d vid pid (bufptr + 2 * USB_DT_ENDPOINT_SIZE)
                  | Some (Some m) \<Rightarrow> Inr (Some m))
              else scan_loop k vendorIds d vid pid bufptr)))
            else scan_loop k vendorIds d vid pid bufptr)
        else scan_loop k vendorIds d vid pid bufptr)))"

text \<open>The part of \<open>find_usb_device\<close> that looks at one device. The result of \<open>read\<close> is -1 on
  failure, which as a \<open>size_t\<close> is larger than the two descriptors; nothing is in the buffer
  then. \<open>fuel\<close> bounds the number of descriptors.\<close>

definition scan_device :: "nat \<Rightarrow> int list \<Rightarrow> bytes option \<Rightarrow> err + usb_match option" where
  "scan_device fuel vendorIds r =
     (let d = (case r of Some d \<Rightarrow> d | None \<Rightarrow> []) in
      if r \<noteq> None \<and> length d < USB_DT_DEVICE_SIZE + USB_DT_CONFIG_SIZE then Inr None
      else
        ebind (desc_byte d 0) (\<lambda>len.
        ebind (desc_byte d 1) (\<lambda>type.
        if unat len \<noteq> USB_DT_DEVICE_SIZE \<or> type \<noteq> USB_DT_DEVICE then Inr None
        else
          ebind (desc_u16 d 8) (\<lambda>vid.
          ebind (desc_u16 d 10) (\<lambda>pid.
          ebind (desc_byte d USB_DT_DEVICE_SIZE) (\<lambda>clen.
          ebind (desc_byte d (USB_DT_DEVICE_SIZE + 1)) (\<lambda>ctype.
          if unat clen \<noteq> USB_DT_CONFIG_SIZE \<or> ctype \<noteq> USB_DT_CONFIG then Inr None
          else scan_loop fuel vendorIds d vid pid (USB_DT_DEVICE_SIZE + USB_DT_CONFIG_SIZE))))))))"

text \<open>The name of the device path, from the target of the link in \<open>/sys/dev/char\<close>.\<close>

definition usb_devpath :: "string option \<Rightarrow> string option" where
  "usb_devpath target =
     (case target of
        None \<Rightarrow> None
      | Some l \<Rightarrow> map_option (\<lambda>slash. snprintf 128 (''usb:'' @ tl slash)) (strrchr (CHR ''/'') (take 255 l)))"

fun badname :: "string \<Rightarrow> bool" where
  "badname [] = False"
| "badname (c # cs) = (\<not> isdigit c \<or> badname cs)"

section \<open>The serial number\<close>

text \<open>A string descriptor as the device returned it: words after the first, each cut to a
  byte.\<close>

fun narrow_words :: "bytes \<Rightarrow> string" where
  "narrow_words (lo # hi # bs) = lo # narrow_words bs"
| "narrow_words _ = []"

text \<open>\<open>langs\<close> answers the first request, \<open>ask n\<close> the one for the serial number in the language
  of word \<open>n\<close>; \<open>None\<close> where the request fails. Each buffer has 256 bytes.\<close>

fun serial_loop :: "nat \<Rightarrow> nat \<Rightarrow> (nat \<Rightarrow> bytes option) \<Rightarrow> string" where
  "serial_loop 0 i ask = []"
| "serial_loop (Suc k) i ask =
     (case ask i of
        Some (b # bs) \<Rightarrow> takeWhile (\<lambda>c. c \<noteq> NUL) (narrow_words (drop 2 (take 256 (b # bs))))
      | _ \<Rightarrow> serial_loop k (Suc i) ask)"

definition read_serial :: "u8 \<Rightarrow> bytes option \<Rightarrow> (nat \<Rightarrow> bytes option) \<Rightarrow> string" where
  "read_serial serial_index langs ask =
     (if serial_index = 0 then []
      else let n = (case langs of Some l \<Rightarrow> length (take 256 l) | None \<Rightarrow> 0);
               languageCount = (n - 2) div 2
           in serial_loop languageCount 1 ask)"

section \<open>A working device as a source of packets\<close>

text \<open>The IN transfers a script delivers, and that nothing goes wrong.\<close>

fun in_transfers :: "(bool \<times> reap_res) list \<Rightarrow> bytes list" where
  "in_transfers [] = []"
| "in_transfers ((k, Reap_in st bs) # rs) = bs # in_transfers rs"
| "in_transfers ((k, Reap_out) # rs) = in_transfers rs"
| "in_transfers ((k, Reap_err e) # rs) = in_transfers rs"

fun calm :: "(bool \<times> reap_res) list \<Rightarrow> bool" where
  "calm [] = True"
| "calm ((k, Reap_in st bs) # rs) = (\<not> k \<and> st = 0 \<and> calm rs)"
| "calm ((k, Reap_out) # rs) = (\<not> k \<and> calm rs)"
| "calm ((k, Reap_err e) # rs) = (\<not> k \<and> e = EINTR \<and> calm rs)"

fun accepting :: "nat \<Rightarrow> ioctl_res list \<Rightarrow> bool" where
  "accepting n [] = (n = 0)"
| "accepting n (Io_ok # ss) = accepting (n - 1) ss"
| "accepting n (Io_err e # ss) = (n = 0 \<or> e = EINTR \<and> accepting n ss)"

text \<open>The device sends a header in one transfer and a payload, if there is one, in another.\<close>

fun aligned :: "bytes list \<Rightarrow> bool" where
  "aligned [] = True"
| "aligned (hdr # ts) =
     (length hdr = sizeof_amessage \<and>
      (if m_data_length (dec_msg hdr) = 0 then aligned ts
       else case ts of [] \<Rightarrow> False
            | d # ts \<Rightarrow> length d = unat (m_data_length (dec_msg hdr)) \<and> aligned ts))"

definition usb_working :: "usb_handle \<Rightarrow> bool" where
  "usb_working h \<longleftrightarrow> \<not> uh_dead h \<and> calm (uh_reaps h) \<and>
     accepting (length (in_transfers (uh_reaps h))) (uh_submits h)"

definition usb_pending :: "usb_handle \<Rightarrow> bytes" where
  "usb_pending h = concat (in_transfers (uh_reaps h))"

definition usb_good :: "usb_handle \<Rightarrow> bool" where
  "usb_good h \<longleftrightarrow> usb_working h \<and> aligned (in_transfers (uh_reaps h))"

lemma submit_accepting:
  "accepting (Suc n) ss \<Longrightarrow> \<exists>e' ss'. submit_loop ss e = Inr (True, e', ss') \<and> accepting n ss'"
  by (induction "Suc n" ss arbitrary: e rule: accepting.induct) auto

lemma reap_calm:
  assumes "calm rs" and "in_transfers rs = bs # ts" and "\<not> uh_dead h" and "length bs \<le> len"
  shows "\<exists>h'. reap_loop len rs h = Inr (int (length bs), bs, h') \<and> \<not> uh_dead h' \<and> calm (uh_reaps h') \<and>
     in_transfers (uh_reaps h') = ts \<and> uh_submits h' = uh_submits h"
  using assms
  by (induction len rs h rule: reap_loop.induct) (auto simp: Let_def split: reap_res.splits)

lemma usb_bulk_read_working:
  assumes "usb_working h" and "in_transfers (uh_reaps h) = bs # ts" and "length bs \<le> len"
  shows "\<exists>h'. usb_bulk_read len h = Inr (int (length bs), bs, h') \<and> usb_working h' \<and>
     in_transfers (uh_reaps h') = ts"
proof -
  obtain e ss where ss: "submit_loop (uh_submits h) (uh_errno h) = Inr (True, e, ss)" "accepting (length ts) ss"
    using submit_accepting [of "length ts" "uh_submits h"] assms(1,2) unfolding usb_working_def by force
  let ?h = "h\<lparr>uh_submits := ss, uh_errno := e, uh_urb_in_busy := True\<rparr>"
  obtain h' where "reap_loop len (uh_reaps h) ?h = Inr (int (length bs), bs, h')" "\<not> uh_dead h'"
    "calm (uh_reaps h')" "in_transfers (uh_reaps h') = ts" "uh_submits h' = ss"
    using reap_calm [of "uh_reaps h" bs ts ?h len] assms by (auto simp: usb_working_def)
  then show ?thesis using ss assms(1) by (simp add: usb_bulk_read_def submit_urb_def usb_working_def)
qed

lemma usb_read_transfer:
  assumes "usb_working h" and "in_transfers (uh_reaps h) = bs # ts" and "bs \<noteq> []" and "length bs \<le> BULK_MAX"
  shows "\<exists>h'. usb_read (length bs) h = Inr (Some bs, h') \<and> usb_working h' \<and> in_transfers (uh_reaps h') = ts"
proof -
  obtain k where k: "length bs = Suc k" using assms(3) by (cases bs) auto
  obtain h' where "usb_bulk_read (length bs) h = Inr (int (length bs), bs, h')" "usb_working h'"
    "in_transfers (uh_reaps h') = ts"
    using usb_bulk_read_working [OF assms(1,2) order_refl] by blast
  then show ?thesis using assms(4) k by (simp add: usb_read_def Let_def)
qed

lemma usb_remote_read_packet:
  assumes "usb_good h" and "valid_packet p" and "usb_pending h = wire p @ rest"
  shows "\<exists>h'. usb_remote_read get_apacket h = Inr (Some (received p), h') \<and> usb_good h' \<and> usb_pending h' = rest"
proof -
  let ?n = "unat (m_data_length (p_msg p))" and ?d = "take (unat (m_data_length (p_msg p))) (p_data p)"
  have v: "?n \<le> MAX_PAYLOAD" "length ?d = ?n" "check_header (get_apacket\<lparr>p_msg := p_msg p\<rparr>) = 0"
    "payload_sum ?d = m_data_check (p_msg p)"
    using assms(2) by (auto simp: valid_packet_def check_header_def)
  obtain hdr ts where ts: "in_transfers (uh_reaps h) = hdr # ts"
    using assms(3) by (cases "in_transfers (uh_reaps h)") (auto simp: usb_pending_def wire_def enc_msg_def)
  have al: "aligned (hdr # ts)" and wk: "usb_working h" using assms(1) ts by (simp_all add: usb_good_def)
  have "hdr @ concat ts = enc_msg (p_msg p) @ ?d @ rest"
    using assms(3) ts by (simp add: usb_pending_def wire_def)
  then have hdr: "hdr = enc_msg (p_msg p)" and rest: "concat ts = ?d @ rest"
    using al by simp_all
  have "hdr \<noteq> []" "length hdr \<le> BULK_MAX"
    using al by (auto simp: sizeof_amessage_def BULK_MAX_def)
  then obtain h1 where h1: "usb_read sizeof_amessage h = Inr (Some (enc_msg (p_msg p)), h1)" "usb_working h1"
    "in_transfers (uh_reaps h1) = ts"
    using usb_read_transfer [OF wk ts] hdr by (metis length_enc_msg)
  show ?thesis
  proof (cases "m_data_length (p_msg p) = 0")
    case True
    then have "aligned ts" using al hdr by simp
    then show ?thesis using True h1 v rest
      by (simp add: usb_remote_read_def buf_write_def check_data_eq get_apacket_def received_def usb_good_def
          usb_pending_def MAX_PAYLOAD_def payload_sum_def)
  next
    case False
    then obtain d us where ts': "ts = d # us" "length d = ?n" "aligned us"
      using al hdr by (cases ts) auto
    then have d: "d = ?d" "concat us = rest" using rest v(2) by simp_all
    have "d \<noteq> []" using False ts'(2) by (auto simp: unat_eq_zero)
    moreover have "length d \<le> BULK_MAX" using ts'(2) v(1) by (simp add: BULK_MAX_def MAX_PAYLOAD_def)
    ultimately obtain h2 where "usb_read ?n h1 = Inr (Some d, h2)" "usb_working h2" "in_transfers (uh_reaps h2) = us"
      using usb_read_transfer [OF h1(2), of d us] h1(3) ts' by metis
    then show ?thesis using False h1 v d ts'(3)
      by (simp add: usb_remote_read_def buf_write_def check_data_eq get_apacket_def received_def usb_good_def
          usb_pending_def)
  qed
qed

interpretation usb_packets: packet_source "usb_remote_read get_apacket" usb_pending usb_good
  by unfold_locales (rule usb_remote_read_packet)

section \<open>Any device\<close>

text \<open>No call sets \<open>errno\<close> to \<open>ETIMEDOUT\<close>.\<close>

definition no_timeout :: "usb_handle \<Rightarrow> bool" where
  "no_timeout h \<longleftrightarrow> uh_errno h \<noteq> ETIMEDOUT \<and> Io_err ETIMEDOUT \<notin> set (uh_submits h) \<and>
     (\<forall>k. (k, Reap_err ETIMEDOUT) \<notin> set (uh_reaps h))"

lemma submit_loop_ok:
  "e \<noteq> ETIMEDOUT \<Longrightarrow> Io_err ETIMEDOUT \<notin> set ss \<Longrightarrow>
   ok (submit_loop ss e) (\<lambda>(_, e', ss'). e' \<noteq> ETIMEDOUT \<and> set ss' \<subseteq> set ss)"
  by (induction ss e rule: submit_loop.induct) (auto intro: ok_mono)

lemma reap_loop_ok:
  "uh_errno h \<noteq> ETIMEDOUT \<Longrightarrow> Io_err ETIMEDOUT \<notin> set (uh_submits h) \<Longrightarrow>
   \<forall>k. (k, Reap_err ETIMEDOUT) \<notin> set rs \<Longrightarrow>
   ok (reap_loop len rs h) (\<lambda>(n, bs, h'). no_timeout h' \<and> length bs \<le> len \<and> (n = int (length bs) \<or> n = -1))"
proof (induction len rs h rule: reap_loop.induct)
  case (1 len h)
  then show ?case by simp
next
  case (2 len killed r rs h)
  have "\<forall>k. (k, Reap_err ETIMEDOUT) \<notin> set rs" using 2(5) by auto
  then show ?case using 2
    by (cases r) (auto simp: Let_def no_timeout_def)
qed

lemma usb_bulk_read_ok:
  assumes "no_timeout h"
  shows "ok (usb_bulk_read len h) (\<lambda>(n, bs, h'). no_timeout h' \<and> length bs \<le> len \<and> (n = int (length bs) \<or> n = -1))"
proof -
  have "ok (submit_urb h) (\<lambda>(_, h'). no_timeout h' \<and> uh_reaps h' = uh_reaps h)"
    unfolding submit_urb_def using assms
    by (intro ok_ebind [OF submit_loop_ok]) (auto simp: no_timeout_def)
  moreover have "ok (reap_loop len (uh_reaps h) (h'\<lparr>uh_urb_in_busy := True\<rparr>))
      (\<lambda>(n, bs, h'). no_timeout h' \<and> length bs \<le> len \<and> (n = int (length bs) \<or> n = -1))" if "no_timeout h'" for h'
    using that assms by (intro reap_loop_ok) (auto simp: no_timeout_def)
  ultimately show ?thesis unfolding usb_bulk_read_def using assms
    by (auto intro!: ok_ebind [of "submit_urb h"])
qed

lemma usb_read_loop_ok:
  "no_timeout h \<Longrightarrow> len < k \<Longrightarrow>
   ok (usb_read_loop k len got h) (\<lambda>(r, h'). no_timeout h' \<and> (\<forall>bs. r = Some bs \<longrightarrow> length bs = length got + len))"
proof (induction k len got h rule: usb_read_loop.induct)
  case (1 len got h)
  then show ?case by simp
next
  case (2 k len got h)
  let ?x = "min BULK_MAX len"
  have step: "ok (if n \<noteq> int ?x then
            if uh_errno h' = ETIMEDOUT \<and> uh_desc h' \<noteq> -1 then
              if 0 < n then usb_read_loop k (len - nat n) (got @ bs) h' else usb_read_loop k len got h'
            else Inr (None, h')
          else usb_read_loop k (len - ?x) (got @ bs) h')
      (\<lambda>(r, h'). no_timeout h' \<and> (\<forall>bs. r = Some bs \<longrightarrow> length bs = length got + len))"
    if "len \<noteq> 0" "no_timeout h'" "length bs \<le> ?x" "n = int (length bs) \<or> n = -1" for n bs h'
  proof (cases "n = int ?x")
    case True
    then have len: "length bs = ?x" using that(4) by auto
    have "0 < ?x" using that(1) by (simp add: BULK_MAX_def)
    then have "len - ?x < k" using 2(5) by linarith
    from 2(3) [OF that(1) refl _ that(2) this, of n bs] True len
    have "ok (usb_read_loop k (len - ?x) (got @ bs) h')
      (\<lambda>(r, h'). no_timeout h' \<and> (\<forall>c. r = Some c \<longrightarrow> length c = length (got @ bs) + (len - ?x)))" by simp
    then show ?thesis using True len by (auto elim!: ok_mono)
  next
    case False
    then show ?thesis using that(2) by (simp add: no_timeout_def)
  qed
  show ?case
  proof (cases "len = 0")
    case True
    then show ?thesis using 2(4) by simp
  next
    case False
    have "ok (usb_read_loop (Suc k) len got h)
      (\<lambda>(r, h'). no_timeout h' \<and> (\<forall>bs. r = Some bs \<longrightarrow> length bs = length got + len))"
      unfolding usb_read_loop.simps Let_def
      by (simp only: False if_False, rule ok_ebind [OF usb_bulk_read_ok [OF 2(4)]])
         (clarify, rule step [OF False])
    then show ?thesis .
  qed
qed

lemma usb_read_ok:
  "no_timeout h \<Longrightarrow>
   ok (usb_read len h) (\<lambda>(r, h'). no_timeout h' \<and> (\<forall>bs. r = Some bs \<longrightarrow> length bs = len))"
  unfolding usb_read_def using usb_read_loop_ok [of h len "Suc (len + length (uh_submits h))" "[]"] by simp

section \<open>Descriptors that are well formed\<close>

definition db :: "bytes \<Rightarrow> nat \<Rightarrow> u8" where
  "db x i = of_char (x ! i)"

definition wf_desc :: "bytes \<Rightarrow> bool" where
  "wf_desc x \<longleftrightarrow> 2 \<le> length x \<and> unat (db x 0) = length x"

definition adb_interface :: "int list \<Rightarrow> nat \<Rightarrow> nat \<Rightarrow> bytes \<Rightarrow> bool" where
  "adb_interface vs vid pid i \<longleftrightarrow> length i = USB_DT_INTERFACE_SIZE \<and> db i 1 = USB_DT_INTERFACE \<and> db i 4 = 2 \<and>
     is_adb_interface vs (int vid) (int pid) (uint (db i 5)) (uint (db i 6)) (uint (db i 7))"

definition bulk_endpoint :: "bytes \<Rightarrow> bool" where
  "bulk_endpoint e \<longleftrightarrow> length e = USB_DT_ENDPOINT_SIZE \<and> db e 1 = USB_DT_ENDPOINT \<and> db e 3 = USB_ENDPOINT_XFER_BULK"

definition matches :: "bytes \<Rightarrow> bytes \<Rightarrow> bytes \<Rightarrow> usb_match \<Rightarrow> bool" where
  "matches i e1 e2 m \<longleftrightarrow> um_interface m = db i 2 \<and>
     (if db e1 2 AND USB_ENDPOINT_DIR_MASK \<noteq> 0 then um_ep_in m = db e1 2 \<and> um_ep_out m = db e2 2
      else um_ep_in m = db e2 2 \<and> um_ep_out m = db e1 2)"

definition matched :: "int list \<Rightarrow> nat \<Rightarrow> nat \<Rightarrow> bytes list \<Rightarrow> usb_match \<Rightarrow> bool" where
  "matched vs vid pid ds m \<longleftrightarrow> (\<exists>us i e1 e2 zs. ds = us @ i # e1 # e2 # zs \<and> adb_interface vs vid pid i \<and>
     bulk_endpoint e1 \<and> bulk_endpoint e2 \<and> matches i e1 e2 m)"

lemma matched_later: "matched vs vid pid ds m \<Longrightarrow> matched vs vid pid (xs @ ds) m"
  unfolding matched_def by (metis append.assoc)

lemma desc_byte_in: "i < length d \<Longrightarrow> length d \<le> DEVDESC_SIZE \<Longrightarrow> desc_byte d i = Inr (db d i)"
  by (simp add: desc_byte_def db_def)

lemma db_at: "k < length x \<Longrightarrow> db (pre @ x @ post) (length pre + k) = db x k"
  by (simp add: db_def nth_append)

lemma db_start: "0 < length x \<Longrightarrow> db (pre @ x @ post) (length pre) = db x 0"
  using db_at [of 0] by simp

lemma first_desc:
  assumes "d = pre @ concat ds" and "\<forall>x \<in> set ds. wf_desc x" and "length pre = p" and "p + 2 \<le> length d"
  obtains x xs where "ds = x # xs" and "length x = unat (db d p)"
    and "\<And>k. k < length x \<Longrightarrow> db x k = db d (p + k)" and "2 \<le> length x"
proof (cases ds)
  case Nil
  then show ?thesis using assms by simp
next
  case (Cons x xs)
  then have wf: "2 \<le> length x" "unat (db x 0) = length x" using assms by (simp_all add: wf_desc_def)
  have d: "d = pre @ x @ concat xs" using Cons assms(1) by simp
  have at: "db x k = db d (p + k)" if "k < length x" for k
    using that assms(3) db_at [of k x pre "concat xs"] by (simp add: d)
  have "0 < length x" using wf(1) by linarith
  then have "length x = unat (db d p)" using wf(2) at [of 0] by simp
  then show ?thesis using that [OF Cons] at wf(1) by blast
qed

lemma match_endpoints_ok:
  assumes d: "d = pre @ i @ concat ds" and len: "length d \<le> DEVDESC_SIZE" and pre: "27 \<le> length pre"
    and i: "length i = USB_DT_INTERFACE_SIZE" and wf: "\<forall>x \<in> set ds. wf_desc x"
  shows "ok (match_endpoints d (length pre) (length pre + length i)) (\<lambda>r. case r of
      None \<Rightarrow> True
    | Some None \<Rightarrow> \<exists>e1 e2 zs. ds = e1 # e2 # zs \<and> length (e1 @ e2) = 2 * USB_DT_ENDPOINT_SIZE
    | Some (Some m) \<Rightarrow> \<exists>e1 e2 zs. ds = e1 # e2 # zs \<and> bulk_endpoint e1 \<and> bulk_endpoint e2 \<and> matches i e1 e2 m)"
proof (cases "length d < length pre + length i + 14")
  case True
  then show ?thesis by (simp add: match_endpoints_def USB_DT_ENDPOINT_SIZE_def)
next
  case False
  define p where "p = length pre + length i"
  have long: "\<not> length d < p + 14" "length pre + 9 \<le> length d" "p = length pre + 9"
    using False i by (simp_all add: p_def USB_DT_INTERFACE_SIZE_def)
  have in_d: "desc_byte d k = Inr (db d k)" if "k < p + 14" for k
    using that long len by (intro desc_byte_in) auto
  have in_i: "db i k = db d (length pre + k)" if "k < 9" for k
    using that i db_at [of k i pre "concat ds"] by (simp add: d USB_DT_INTERFACE_SIZE_def)
  have 1: "d = (pre @ i) @ concat ds" "length (pre @ i) = p" "p + 2 \<le> length d"
    using d long(1) by (simp_all add: p_def)
  obtain e1 zs where e1: "ds = e1 # zs" "length e1 = unat (db d p)" "\<And>k. k < length e1 \<Longrightarrow> db e1 k = db d (p + k)"
    by (rule first_desc [OF 1(1) wf 1(2,3)]) blast
  show ?thesis
  proof (cases "unat (db d p) = 7")
    case False
    then show ?thesis using in_d long unfolding p_def [symmetric]
      by (simp add: match_endpoints_def Let_def usb_dt_defs)
  next
    case l1: True
    have "length e1 = 7" using e1(2) l1 by simp
    then have 2: "d = (pre @ i @ e1) @ concat zs" "\<forall>x \<in> set zs. wf_desc x" "length (pre @ i @ e1) = p + 7"
        "p + 7 + 2 \<le> length d"
      using d wf e1(1) long(1) by (simp_all add: p_def)
    obtain e2 zs2 where e2: "zs = e2 # zs2" "length e2 = unat (db d (p + 7))"
        "\<And>k. k < length e2 \<Longrightarrow> db e2 k = db d (p + 7 + k)"
      by (rule first_desc [OF 2]) blast
    show ?thesis
    proof (cases "unat (db d (p + 7)) = 7")
      case False
      then show ?thesis using in_d long l1 unfolding p_def [symmetric]
        by (simp add: match_endpoints_def Let_def usb_dt_defs)
    next
      case l2: True
      have b1: "db e1 k = db d (p + k)" if "k < 7" for k using e1(2,3) that l1 by simp
      have b2: "db e2 k = db d (p + 7 + k)" if "k < 7" for k using e2(2,3) that l2 by simp
      show ?thesis using in_d in_i long b1 b2 l1 l2 e1(1,2) e2(1,2) pre unfolding p_def [symmetric]
        by (simp add: match_endpoints_def desc_u16_def Let_def usb_dt_defs bulk_endpoint_def matches_def)
    qed
  qed
qed

lemma scan_loop_ok:
  assumes "d = pre @ concat ds" and "length d \<le> DEVDESC_SIZE" and "27 \<le> length pre"
    and "\<forall>x \<in> set ds. wf_desc x" and "length ds < k"
  shows "ok (scan_loop k vs d vid pid (length pre)) (\<lambda>r. \<forall>m. r = Some m \<longrightarrow> matched vs vid pid ds m)"
  using assms
proof (induction k arbitrary: pre ds)
  case 0
  then show ?case by simp
next
  case (Suc k)
  note prems = Suc.prems
  show ?case
  proof (cases ds)
    case Nil
    then show ?thesis using prems by simp
  next
    case (Cons x xs)
    then have x: "wf_desc x" "\<forall>x \<in> set xs. wf_desc x" and d: "d = pre @ x @ concat xs" "d = (pre @ x) @ concat xs"
      using prems by simp_all
    have lx: "2 \<le> length x" "unat (db x 0) = length x" using x(1) by (simp_all add: wf_desc_def)
    have bytes: "desc_byte d (length pre + n) = Inr (db x n)" if "n < length x" for n
      using that prems(2) db_at [OF that, of pre "concat xs"] by (subst desc_byte_in) (simp_all add: d)
    have b0: "desc_byte d (length pre) = Inr (db x 0)" using bytes [of 0] lx(1) by (cases "length x") auto
    have b1: "desc_byte d (Suc (length pre)) = Inr (db x 1)" using bytes [of 1] lx(1) by simp
    have lt: "length pre < length d" using lx(1) by (auto simp: d)
    have rest: "ok (scan_loop k vs d vid pid (length pre + length x)) (\<lambda>r. \<forall>m. r = Some m \<longrightarrow> matched vs vid pid ds m)"
      using Suc.IH [of "pre @ x" xs] d(2) prems x(2) Cons matched_later [of vs vid pid xs _ "[x]"]
      by (auto elim!: ok_mono)
    show ?thesis
    proof (cases "db x 1 = USB_DT_INTERFACE \<and> length x = 9 \<and> db x 4 = 2 \<and>
        is_adb_interface vs (int vid) (int pid) (uint (db x 5)) (uint (db x 6)) (uint (db x 7))")
      case False
      then show ?thesis using lt b0 b1 lx rest bytes
        by (cases "length x = 9") (simp_all add: Let_def USB_DT_INTERFACE_SIZE_def)
    next
      case True
      then have lx9: "length x = USB_DT_INTERFACE_SIZE" "adb_interface vs vid pid x"
        by (simp_all add: adb_interface_def USB_DT_INTERFACE_SIZE_def)
      have nine: "length x = 9" using True by blast
      note me = match_endpoints_ok [OF d(1) prems(2,3) lx9(1) x(2), unfolded nine]
      have again: "ok (scan_loop k vs d vid pid (length pre + 9 + 2 * USB_DT_ENDPOINT_SIZE))
          (\<lambda>r. \<forall>m. r = Some m \<longrightarrow> matched vs vid pid ds m)"
        if "xs = e1 # e2 # zs" "length (e1 @ e2) = 2 * USB_DT_ENDPOINT_SIZE" for e1 e2 zs
        using Suc.IH [of "pre @ x @ e1 @ e2" zs] nine d(2) prems x(2) Cons that matched_later [of vs vid pid zs _ "[x, e1, e2]"]
        by (auto elim!: ok_mono simp: add.assoc)
      have found: "matched vs vid pid ds m"
        if "xs = e1 # e2 # zs" "bulk_endpoint e1" "bulk_endpoint e2" "matches x e1 e2 m" for e1 e2 zs m
        unfolding matched_def Cons that(1)
        by (rule exI [of _ "[]"], intro exI conjI) (use that lx9(2) in simp_all)
      have "ok (ebind (match_endpoints d (length pre) (length pre + 9)) (\<lambda>r.
                  case r of
                    None \<Rightarrow> Inr None
                  | Some None \<Rightarrow> scan_loop k vs d vid pid (length pre + 9 + 2 * USB_DT_ENDPOINT_SIZE)
                  | Some (Some m) \<Rightarrow> Inr (Some m))) (\<lambda>r. \<forall>m. r = Some m \<longrightarrow> matched vs vid pid ds m)"
        by (rule ok_ebind [OF me]) (use again found in \<open>auto split: option.splits\<close>)
      then show ?thesis using True lt b0 b1 lx rest bytes
        by (simp add: Let_def USB_DT_INTERFACE_SIZE_def)
    qed
  qed
qed

section \<open>Properties\<close>

text \<open>C33: A packet that arrives on a USB device, header and payload each in a transfer of its own,
  is read exactly: \<open>remote_read\<close> of the USB transport gives the same header and payload as the
  packet that was sent, and takes nothing of what follows.\<close>

theorem usb_read_delivers:
  assumes "usb_good h" and "valid_packet p"
    and "usb_pending h = enc_msg (p_msg p) @ take (unat (m_data_length (p_msg p))) (p_data p) @ rest"
  shows "\<exists>h'. usb_remote_read get_apacket h =
           Inr (Some (get_apacket\<lparr>p_msg := p_msg p,
                        p_data := take (unat (m_data_length (p_msg p))) (p_data p)\<rparr>), h') \<and>
         usb_good h' \<and> usb_pending h' = rest"
  using usb_packets.rp_packet [OF assms(1,2)] assms(3) by (simp add: wire_def received_def)

definition sample_usb :: usb_handle where
  "sample_usb = \<lparr>uh_fname = ''/dev/bus/usb/001/002'', uh_desc = 9, uh_ep_in = 0x81, uh_ep_out = 0x02,
     uh_zero_mask = 0x3f, uh_writeable = True, uh_urb_in_busy = False, uh_urb_out_busy = False, uh_dead = False,
     uh_mark = True, uh_errno = EOther, uh_submits = [Io_err EINTR, Io_ok, Io_ok],
     uh_reaps = [(False, Reap_out), (False, Reap_in 0 (enc_msg (p_msg sample_packet))), (False, Reap_err EINTR),
                 (False, Reap_in 0 ''hi'')],
     uh_wakes = [], uh_out = []\<rparr>"

theorem usb_read_delivers_witness:
  "usb_good sample_usb \<and> valid_packet sample_packet \<and>
   (\<exists>h'. usb_remote_read get_apacket sample_usb = Inr (Some sample_packet, h') \<and> usb_pending h' = [])"
proof -
  have g: "usb_good sample_usb"
    by (simp add: usb_good_def usb_working_def sample_usb_def sample_packet_def)
  have "usb_pending sample_usb = enc_msg (p_msg sample_packet) @
      take (unat (m_data_length (p_msg sample_packet))) (p_data sample_packet) @ []"
    by (simp add: usb_pending_def sample_usb_def sample_packet_def)
  from usb_read_delivers [OF g sample_packet_valid this] g show ?thesis
    using sample_packet_valid by (auto simp: sample_packet_def get_apacket_def)
qed


text \<open>C35: When the handle of a USB device is dead and \<open>errno\<close> is still \<open>ETIMEDOUT\<close> from an earlier
  call, \<open>usb_read\<close> of at least one byte never returns: every round fails at once without
  touching \<open>errno\<close>, and goes on.\<close>

theorem usb_read_spins:
  assumes "uh_dead h" and "uh_errno h = ETIMEDOUT" and "uh_desc h \<noteq> -1" and "0 < len"
  shows "usb_read_loop k len got h = Inl OutOfFuel"
  using assms
  by (induction k arbitrary: got) (simp_all add: Let_def usb_bulk_read_def)

theorem usb_read_spins_witness:
  "usb_read_loop 1000 24 [] (sample_usb\<lparr>uh_dead := True, uh_errno := ETIMEDOUT\<rparr>) = Inl OutOfFuel"
  by (rule usb_read_spins) (simp_all add: sample_usb_def)



text \<open>The descriptors of a PAX terminal with one ADB interface.\<close>

definition pax_device :: bytes where
  "pax_device = map char_of [18, 1, 0, 2, 0, 0, 0, 64, 0xB8, 0x2F, 0x01, 0x22, 0, 1, 1, 2, 3, 1 :: nat]"

definition pax_config :: bytes where
  "pax_config = map char_of [9, 2, 32, 0, 1, 1, 0, 0x80, 0xfa :: nat]"

definition pax_interface :: "bytes list" where
  "pax_interface = [map char_of [9, 4, 0, 0, 2, 0xff, 0x42, 1, 5 :: nat], map char_of [7, 5, 0x81, 2, 0, 2, 0 :: nat],
     map char_of [7, 5, 0x01, 2, 0, 2, 0 :: nat]]"


text \<open>A device that follows its configuration descriptor with a descriptor of length zero stops
  the search for ever: \<open>find_usb_device\<close> never gets past it, whatever the fuel.\<close>

theorem scan_zero_length_spins:
  assumes "unat (db dev 0) = USB_DT_DEVICE_SIZE" and "db dev 1 = USB_DT_DEVICE" and "length dev = USB_DT_DEVICE_SIZE"
    and "unat (db cfg 0) = USB_DT_CONFIG_SIZE" and "db cfg 1 = USB_DT_CONFIG" and "length cfg = USB_DT_CONFIG_SIZE"
    and "of_char type \<noteq> USB_DT_INTERFACE" and "length rest < 4000"
  shows "scan_device fuel vendorIds (Some (dev @ cfg @ [NUL, type] @ rest)) = Inl OutOfFuel"
proof -
  let ?d = "dev @ cfg @ [NUL, type] @ rest"
  have len: "length ?d \<le> DEVDESC_SIZE" "29 \<le> length ?d"
    using assms(3,6,8) by (simp_all add: usb_dt_defs DEVDESC_SIZE_def)
  have b: "desc_byte ?d n = Inr (db ?d n)" if "n < 29" for n
    using that len by (intro desc_byte_in) auto
  have v: "db ?d 0 = db dev 0" "db ?d 1 = db dev 1" "db ?d 18 = db cfg 0" "db ?d 19 = db cfg 1"
    "db ?d 27 = 0" "db ?d 28 = of_char type"
    using assms(3,6) by (simp_all add: db_def nth_append usb_dt_defs)
  have "scan_loop fuel vendorIds ?d vid pid 27 = Inl OutOfFuel" for vid pid
    using b [of 27] b [of 28] v len assms(7) by (induction fuel) (simp_all add: Let_def del: append.simps)
  then show ?thesis using b v assms(1,2,4,5) len
    by (simp add: scan_device_def desc_u16_def Let_def USB_DT_DEVICE_SIZE_def USB_DT_CONFIG_SIZE_def
        USB_DT_DEVICE_def USB_DT_CONFIG_def del: append.simps)
qed

theorem scan_zero_length_spins_witness:
  "scan_device 1000 [0x2FB8] (Some (pax_device @ pax_config @ [NUL, CHR 0x0B] @ [])) = Inl OutOfFuel"
  by (rule scan_zero_length_spins)
    (code_simp, code_simp, code_simp, code_simp, code_simp, code_simp, code_simp, simp)

section \<open>Writing\<close>

text \<open>Every wait returns 0 and every OUT transfer that completes has status 0.\<close>

definition clean_wakes :: "usb_handle \<Rightarrow> bool" where
  "clean_wakes h \<longleftrightarrow> (\<forall>k r fin. (k, Wake r fin) \<in> set (uh_wakes h) \<longrightarrow> r = 0 \<and> (\<forall>st n. fin = Some (st, n) \<longrightarrow> st = 0))"

lemma wait_loop_clean:
  assumes "wait_loop data ws h = Inr (r, h')" and "\<forall>k r fin. (k, Wake r fin) \<in> set ws \<longrightarrow> r = 0 \<and> (\<forall>st n. fin = Some (st, n) \<longrightarrow> st = 0)"
    and "r = int (length data)" and "data \<noteq> [] \<or> \<not> uh_dead h'"
  shows "uh_out h' = uh_out h @ [data] \<and> clean_wakes h'"
  using assms
proof (induction data ws h rule: wait_loop.induct)
  case (1 data h)
  then show ?case by simp
next
  case (2 data killed res fin ws h)
  have res: "res = 0" "\<forall>st n. fin = Some (st, n) \<longrightarrow> st = 0"
    and ws: "\<forall>k r fin. (k, Wake r fin) \<in> set ws \<longrightarrow> r = 0 \<and> (\<forall>st n. fin = Some (st, n) \<longrightarrow> st = 0)"
    using 2(3) by auto
  show ?case
  proof (cases "uh_dead h \<or> killed")
    case True
    then have "r = 0" "uh_dead h'" using 2(2) res(1) by (auto simp: Let_def)
    then show ?thesis using 2(4,5) by simp
  next
    case alive: False
    show ?thesis
    proof (cases fin)
      case None
      let ?h = "h\<lparr>uh_wakes := ws, uh_dead := uh_dead h \<or> killed, uh_urb_out_busy := (fin = None \<and> uh_urb_out_busy h),
          uh_out := uh_out h @ (case fin of Some (st, n) \<Rightarrow> if st = 0 then [take n data] else [] | None \<Rightarrow> [])\<rparr>"
      have "\<not> (res < 0 \<or> uh_dead ?h)" using alive res(1) by simp
      moreover from this have "wait_loop data ws ?h = Inr (r, h')" using 2(2) None by (simp add: Let_def)
      ultimately show ?thesis using 2(1) [OF refl _ None _ ws 2(4,5)] None by simp
    next
      case (Some sn)
      then obtain n where sn: "fin = Some (0, n)" using res(2) by (cases sn) auto
      then have h': "h' = h\<lparr>uh_wakes := ws, uh_dead := uh_dead h \<or> killed, uh_urb_out_busy := False,
          uh_out := uh_out h @ [take n data]\<rparr>" and "r = int (min (length data) n)"
        using 2(2) alive res(1) by (auto simp: Let_def)
      then have "length data \<le> n" using 2(4) by linarith
      then show ?thesis unfolding h' clean_wakes_def using ws by simp
    qed
  qed
qed

lemma usb_bulk_write_clean:
  assumes "usb_bulk_write data h = Inr (int (length data), h')" and "clean_wakes h" and "data \<noteq> [] \<or> \<not> uh_dead h'"
  shows "uh_out h' = uh_out h @ [data] \<and> clean_wakes h'"
proof -
  obtain e ss where "wait_loop data (uh_wakes h) (h\<lparr>uh_submits := ss, uh_errno := e, uh_urb_out_busy := True\<rparr>) =
      Inr (int (length data), h')"
    using assms(1) by (auto simp: usb_bulk_write_def submit_urb_def ebind_eq_Inr split: if_splits)
  from wait_loop_clean [OF this assms(2) [unfolded clean_wakes_def] refl assms(3)] show ?thesis by simp
qed

lemma usb_write_loop_clean:
  assumes "usb_write_loop k data h = Inr (True, h')" and "clean_wakes h"
  shows "clean_wakes h' \<and> (\<exists>ts. uh_out h' = uh_out h @ ts \<and> concat ts = data \<and> (\<forall>t \<in> set ts. length t \<le> BULK_MAX))"
  using assms
proof (induction k data h rule: usb_write_loop.induct)
  case (1 data h)
  then show ?case by simp
next
  case (2 k data h)
  show ?case
  proof (cases "data = []")
    case True
    then show ?thesis using 2 by (auto intro: exI [of _ "[]"])
  next
    case False
    let ?x = "min BULK_MAX (length data)"
    obtain h1 where h1: "usb_bulk_write (take ?x data) h = Inr (int ?x, h1)" "usb_write_loop k (drop ?x data) h1 = Inr (True, h')"
      using 2(2) False by (auto simp: Let_def ebind_eq_Inr split: if_splits)
    have "take ?x data \<noteq> []" using False by (simp add: BULK_MAX_def)
    then have c: "uh_out h1 = uh_out h @ [take ?x data]" "clean_wakes h1"
      using usb_bulk_write_clean [of "take ?x data" h h1] h1(1) 2(3) by simp_all
    obtain ts where "clean_wakes h'" "uh_out h' = uh_out h1 @ ts" "concat ts = drop ?x data" "\<forall>t \<in> set ts. length t \<le> BULK_MAX"
      using 2(1) [OF False refl _ h1(2) c(2), of "int ?x"] by auto
    then show ?thesis using c
      by (intro conjI exI [of _ "take ?x data # ts"]) simp_all
  qed
qed

lemma usb_write_single:
  assumes "usb_bulk_write data h = Inr (int (length data), h')" and "data \<noteq> []" and "length data \<le> BULK_MAX"
  shows "usb_write_loop (Suc (length data)) data h = Inr (True, h')"
proof -
  obtain n where "length data = Suc n" using assms(2) by (cases data) auto
  then show ?thesis using assms by (simp add: Let_def)
qed

text \<open>When \<open>usb_write\<close> returns 0, no wait and no transfer reported an error and the device is
  still there, the device was sent exactly the bytes of the buffer, in order, in transfers of at
  most 4096 bytes; and where the endpoint needs it and the length is a multiple of the packet size,
  an empty transfer follows them.\<close>

theorem usb_write_sends:
  assumes "usb_write data h = Inr (0, h')" and "clean_wakes h" and "\<not> uh_dead h'"
  shows "\<exists>ts. uh_out h' = uh_out h @ ts \<and> concat ts = data \<and> (\<forall>t \<in> set ts. length t \<le> BULK_MAX) \<and>
     (uh_zero_mask h \<noteq> 0 \<and> of_nat (length data) AND uh_zero_mask h = 0 \<longrightarrow> ts \<noteq> [] \<and> last ts = [])"
proof -
  obtain h1 where h1: "usb_write_loop (Suc (length data)) data h = Inr (True, h1)"
      "(if uh_zero_mask h \<noteq> 0 \<and> of_nat (length data) AND uh_zero_mask h = 0 then usb_bulk_write [] h1 else Inr (0, h1)) = Inr (0, h')"
    using assms(1) by (auto simp: usb_write_def Let_def ebind_eq_Inr split: if_splits)
  obtain ts where ts: "clean_wakes h1" "uh_out h1 = uh_out h @ ts" "concat ts = data" "\<forall>t \<in> set ts. length t \<le> BULK_MAX"
    using usb_write_loop_clean [OF h1(1) assms(2)] by auto
  show ?thesis
  proof (cases "uh_zero_mask h \<noteq> 0 \<and> of_nat (length data) AND uh_zero_mask h = 0")
    case True
    then have "uh_out h' = uh_out h1 @ [[]]"
      using usb_bulk_write_clean [of "[]" h1 h'] h1(2) ts(1) assms(3) by simp
    then show ?thesis using ts by (intro exI [of _ "ts @ [[]]"]) simp
  next
    case False
    then show ?thesis using ts h1(2) by (intro exI [of _ ts]) auto
  qed
qed

text \<open>\<open>usb_bulk_write\<close> returns what \<open>pthread_cond_timedwait\<close> returned when the device goes away
  during the wait, and a timeout is the positive number 110: a write of 110 bytes to a device that
  has been unplugged is reported as complete although nothing was transferred.\<close>

theorem usb_write_false_success:
  assumes "length data = 110" and "\<not> uh_dead h" and "uh_zero_mask h = 0"
    and "uh_submits h = Io_ok # ss" and "uh_wakes h = (True, Wake 110 None) # ws"
  shows "\<exists>h'. usb_write data h = Inr (0, h') \<and> uh_dead h' \<and> uh_out h' = uh_out h"
proof -
  have "data \<noteq> []" "length data \<le> BULK_MAX" using assms(1) by (auto simp: BULK_MAX_def)
  moreover obtain h' where h': "usb_bulk_write data h = Inr (int (length data), h')" "uh_dead h'" "uh_out h' = uh_out h"
    using assms by (simp add: usb_bulk_write_def submit_urb_def Let_def)
  ultimately have "usb_write_loop (Suc (length data)) data h = Inr (True, h')" by (intro usb_write_single)
  then show ?thesis using h'(2,3) assms(3) by (simp add: usb_write_def del: usb_write_loop.simps)
qed

theorem usb_write_sends_witness:
  "\<exists>h'. usb_write (replicate 128 NUL) (sample_usb\<lparr>uh_wakes := [(False, Wake 0 None), (False, Wake 0 (Some (0, 128))),
       (False, Wake 0 (Some (0, 0)))]\<rparr>) = Inr (0, h') \<and> \<not> uh_dead h' \<and>
     (\<exists>ts. uh_out h' = ts \<and> concat ts = replicate 128 NUL \<and> last ts = [])"
proof -
  define h where "h = sample_usb\<lparr>uh_wakes := [(False, Wake 0 None), (False, Wake 0 (Some (0, 128))),
       (False, Wake 0 (Some (0, 0)))]\<rparr>"
  have c: "clean_wakes h" by (simp add: clean_wakes_def h_def)
  define data where "data = replicate 128 NUL"
  have d: "data \<noteq> []" "length data = 128" "length data \<le> BULK_MAX" by (auto simp: BULK_MAX_def data_def)
  obtain h1 where h1: "usb_bulk_write data h = Inr (int (length data), h1)" "uh_wakes h1 = [(False, Wake 0 (Some (0, 0)))]"
      "uh_submits h1 = [Io_ok]" "\<not> uh_dead h1"
    using d(2) by (simp add: usb_bulk_write_def submit_urb_def Let_def h_def sample_usb_def)
  then obtain h' where h': "usb_bulk_write [] h1 = Inr (0, h')" "\<not> uh_dead h'"
    by (simp add: usb_bulk_write_def submit_urb_def Let_def)
  have z: "uh_zero_mask h = 63" "uh_out h = []" by (simp_all add: h_def sample_usb_def)
  have w: "usb_write data h = Inr (0, h')"
    using usb_write_single [OF h1(1) d(1,3)] h'(1) d(2) by (simp add: usb_write_def z del: usb_write_loop.simps)
  show ?thesis
    using usb_write_sends [OF w c h'(2)] w h'(2) z d(2) unfolding h_def [symmetric] data_def [symmetric] by auto
qed

theorem usb_write_false_success_witness:
  "\<exists>h'. usb_write (replicate 110 NUL)
     (sample_usb\<lparr>uh_zero_mask := 0, uh_submits := [Io_ok], uh_wakes := [(True, Wake 110 None)]\<rparr>) = Inr (0, h') \<and>
     uh_dead h' \<and> uh_out h' = []"
  using usb_write_false_success [of "replicate 110 NUL"
      "sample_usb\<lparr>uh_zero_mask := 0, uh_submits := [Io_ok], uh_wakes := [(True, Wake 110 None)]\<rparr>" "[]" "[]"]
  by (simp add: sample_usb_def)

end
