(* ===== verification/Adb_Fdevent.thy ===== *)
theory Adb_Fdevent
  imports Adb_IO
begin

text \<open>
  The event loop (fdevent.c, its \<open>select\<close> branch, and fdevent.h). An \<open>fdevent\<close> lives inside
  the object it belongs to (a socket, a transport, a listener), so it is named by its owner;
  \<open>fdes\<close> holds the ones whose memory is allocated. \<open>fd_table\<close> is the table of pointers by
  descriptor, the three \<open>fd_set\<close>s are sets of descriptors, and \<open>list_pending\<close> is the
  intrusive list of events to deliver.

  What \<open>select\<close> and \<open>fcntl\<close> answer are arguments. Memory allocation does not fail.
\<close>

section \<open>Data\<close>

definition FDE_READ :: u16 where "FDE_READ = 0x0001"
definition FDE_WRITE :: u16 where "FDE_WRITE = 0x0002"
definition FDE_ERROR :: u16 where "FDE_ERROR = 0x0004"
definition FDE_DONT_CLOSE :: u16 where "FDE_DONT_CLOSE = 0x0080"
definition FDE_EVENTMASK :: u16 where "FDE_EVENTMASK = 0x00ff"
definition FDE_STATEMASK :: u16 where "FDE_STATEMASK = 0xff00"
definition FDE_ACTIVE :: u16 where "FDE_ACTIVE = 0x0100"
definition FDE_PENDING :: u16 where "FDE_PENDING = 0x0200"
definition FDE_CREATED :: u16 where "FDE_CREATED = 0x0400"

definition FD_SETSIZE :: int where "FD_SETSIZE = 1024"

text \<open>The owner of an \<open>fdevent\<close>, which is also the \<open>arg\<close> of its callback.\<close>

datatype fde_id = FSock nat | FTransport nat | FListener nat | FRegistration | FSubproc

text \<open>The callbacks of type \<open>fd_func\<close>.\<close>

datatype fd_func = Local_socket_event_func | Transport_socket_events | Listener_event_func
  | Ss_listener_event_func | Transport_registration_func | Fdevent_subproc_event_func

record fdevent =
  fde_fd :: int
  fde_force_eof :: bool
  fde_state :: u16
  fde_events :: u16
  fde_func :: fd_func

text \<open>A slot of \<open>fd_table\<close>: zero, the address of an \<open>fdevent\<close>, or memory that was never
  written.\<close>

datatype slot = Null | Fde fde_id | Garbage

record fdev =
  fdes :: "fde_id \<rightharpoonup> fdevent"
  fd_table :: "slot list"
  read_fds :: "int set"
  write_fds :: "int set"
  error_fds :: "int set"
  select_n :: int
  list_pending :: "fde_id list"
  closed_fds :: "int list"

definition fdev_init :: fdev where
  "fdev_init = \<lparr>fdes = Map.empty, fd_table = [], read_fds = {}, write_fds = {}, error_fds = {},
                select_n = 0, list_pending = [], closed_fds = []\<rparr>"

definition get_fde :: "fde_id \<Rightarrow> fdev \<Rightarrow> err + fdevent" where
  "get_fde x f = (case fdes f x of None \<Rightarrow> Inl UseAfterFree | Some e \<Rightarrow> Inr e)"

definition put_fde :: "fde_id \<Rightarrow> fdevent \<Rightarrow> fdev \<Rightarrow> fdev" where
  "put_fde x e f = f\<lparr>fdes := (fdes f)(x \<mapsto> e)\<rparr>"

text \<open>The owner's memory is freed.\<close>

definition fde_free :: "fde_id \<Rightarrow> fdev \<Rightarrow> fdev" where
  "fde_free x f = f\<lparr>fdes := (fdes f)(x := None)\<rparr>"

section \<open>The select back end\<close>

definition fdevent_connect :: "fde_id \<Rightarrow> fdev \<Rightarrow> err + fdev" where
  "fdevent_connect x f = ebind (get_fde x f) (\<lambda>e.
     Inr (if select_n f \<le> fde_fd e then f\<lparr>select_n := fde_fd e + 1\<rparr> else f))"

text \<open>\<open>FD_SET\<close>/\<open>FD_CLR\<close>: the macros do not check that the descriptor fits.\<close>

definition fd_bit :: "bool \<Rightarrow> int \<Rightarrow> int set \<Rightarrow> err + int set" where
  "fd_bit b fd s = (if fd < 0 \<or> FD_SETSIZE \<le> fd then Inl OutOfBounds
                    else Inr (if b then insert fd s else s - {fd}))"

text \<open>The loop of \<open>fdevent_disconnect\<close>: the last slot below \<open>select_n\<close> in use.\<close>

fun disconnect_scan :: "nat \<Rightarrow> nat \<Rightarrow> slot list \<Rightarrow> nat \<Rightarrow> err + nat" where
  "disconnect_scan 0 i tbl n = Inr n"
| "disconnect_scan (Suc k) i tbl n =
     (if length tbl \<le> i then Inl OutOfBounds
      else case tbl ! i of
             Null \<Rightarrow> disconnect_scan k (Suc i) tbl n
           | Fde _ \<Rightarrow> disconnect_scan k (Suc i) tbl i
           | Garbage \<Rightarrow> Inl Uninitialised)"

definition fdevent_disconnect :: "fde_id \<Rightarrow> fdev \<Rightarrow> err + fdev" where
  "fdevent_disconnect x f =
     ebind (get_fde x f) (\<lambda>e.
     ebind (fd_bit False (fde_fd e) (read_fds f)) (\<lambda>r.
     ebind (fd_bit False (fde_fd e) (write_fds f)) (\<lambda>w.
     ebind (fd_bit False (fde_fd e) (error_fds f)) (\<lambda>er.
     ebind (disconnect_scan (nat (select_n f)) 0 (fd_table f) 0) (\<lambda>n.
       Inr (f\<lparr>read_fds := r, write_fds := w, error_fds := er, select_n := int n + 1\<rparr>))))))"

definition fdevent_update :: "fde_id \<Rightarrow> u16 \<Rightarrow> fdev \<Rightarrow> err + fdev" where
  "fdevent_update x events f =
     ebind (get_fde x f) (\<lambda>e.
     ebind (fd_bit (events AND FDE_READ \<noteq> 0) (fde_fd e) (read_fds f)) (\<lambda>r.
     ebind (fd_bit (events AND FDE_WRITE \<noteq> 0) (fde_fd e) (write_fds f)) (\<lambda>w.
     ebind (fd_bit (events AND FDE_ERROR \<noteq> 0) (fde_fd e) (error_fds f)) (\<lambda>er.
       Inr (put_fde x (e\<lparr>fde_state := (fde_state e AND FDE_STATEMASK) OR events\<rparr>)
              (f\<lparr>read_fds := r, write_fds := w, error_fds := er\<rparr>))))))"

section \<open>The descriptor table and the pending list\<close>

text \<open>\<open>while(fd_table_max <= fde->fd) fd_table_max *= 2\<close>, entered with a positive size.\<close>

function grow_table_max :: "nat \<Rightarrow> nat \<Rightarrow> nat" where
  "grow_table_max m fd = (if 0 < m \<and> m \<le> fd then grow_table_max (m * 2) fd else m)"
  by auto
termination by (relation "measure (\<lambda>(m, fd). Suc fd - m)") auto

declare grow_table_max.simps [simp del]

text \<open>The new slots of the table: \<open>memset\<close> clears \<open>sizeof(int)\<close> bytes for each of them, and
  a slot is a pointer of eight bytes.\<close>

definition new_slots :: "nat \<Rightarrow> slot list" where
  "new_slots d = replicate (4 * d div ptr_size) Null @ replicate (d - 4 * d div ptr_size) Garbage"

definition fdevent_register :: "fde_id \<Rightarrow> fdev \<Rightarrow> err + fdev" where
  "fdevent_register x f =
     ebind (get_fde x f) (\<lambda>e.
       if fde_fd e < 0 then Inl (Abort ''bogus negative fd'')
       else if int (length (fd_table f)) \<le> fde_fd e \<and> 32000 < fde_fd e
         then Inl (Abort ''bogus huuuuge fd'')
       else
         let oldmax = length (fd_table f);
             newmax = (if int oldmax \<le> fde_fd e
                       then grow_table_max (if oldmax = 0 then 256 else oldmax) (nat (fde_fd e))
                       else oldmax);
             f = (if int oldmax \<le> fde_fd e \<and> oldmax = 0
                  then f\<lparr>read_fds := {}, write_fds := {}, error_fds := {}\<rparr> else f);
             tbl = fd_table f @ new_slots (newmax - oldmax)
         in Inr (f\<lparr>fd_table := tbl[nat (fde_fd e) := Fde x]\<rparr>))"

definition fdevent_unregister :: "fde_id \<Rightarrow> fdev \<Rightarrow> err + fdev" where
  "fdevent_unregister x f =
     ebind (get_fde x f) (\<lambda>e.
       if fde_fd e < 0 \<or> int (length (fd_table f)) \<le> fde_fd e then Inl (Abort ''fd out of range'')
       else case fd_table f ! nat (fde_fd e) of
              Garbage \<Rightarrow> Inl Uninitialised
            | Null \<Rightarrow> Inl (Abort ''fd_table out of sync'')
            | Fde y \<Rightarrow>
                if y \<noteq> x then Inl (Abort ''fd_table out of sync'')
                else let f = f\<lparr>fd_table := (fd_table f)[nat (fde_fd e) := Null]\<rparr>
                     in Inr (if fde_state e AND FDE_DONT_CLOSE = 0
                             then f\<lparr>closed_fds := fde_fd e # closed_fds f\<rparr> else f))"

definition fdevent_plist_enqueue :: "fde_id \<Rightarrow> fdev \<Rightarrow> fdev" where
  "fdevent_plist_enqueue x f = f\<lparr>list_pending := list_pending f @ [x]\<rparr>"

text \<open>A node that is in no list has null links.\<close>

definition fdevent_plist_remove :: "fde_id \<Rightarrow> fdev \<Rightarrow> err + fdev" where
  "fdevent_plist_remove x f =
     (if x \<in> set (list_pending f) then Inr (f\<lparr>list_pending := remove1 x (list_pending f)\<rparr>)
      else Inl NullDeref)"

definition fdevent_plist_dequeue :: "fdev \<Rightarrow> fde_id option \<times> fdev" where
  "fdevent_plist_dequeue f =
     (case list_pending f of [] \<Rightarrow> (None, f) | x # xs \<Rightarrow> (Some x, f\<lparr>list_pending := xs\<rparr>))"

section \<open>The interface of the owners\<close>

definition fdevent_install :: "fde_id \<Rightarrow> int \<Rightarrow> fd_func \<Rightarrow> fdev \<Rightarrow> err + fdev" where
  "fdevent_install x fd func f =
     (let e = \<lparr>fde_fd = fd, fde_force_eof = False, fde_state = FDE_ACTIVE, fde_events = 0,
               fde_func = func\<rparr>
      in ebind (fdevent_register x (put_fde x e f)) (\<lambda>f.
         ebind (fdevent_connect x f) (\<lambda>f.
         ebind (get_fde x f) (\<lambda>e.
           Inr (put_fde x (e\<lparr>fde_state := fde_state e OR FDE_ACTIVE\<rparr>) f)))))"

definition fdevent_create :: "fde_id \<Rightarrow> int \<Rightarrow> fd_func \<Rightarrow> fdev \<Rightarrow> err + fdev" where
  "fdevent_create x fd func f =
     ebind (fdevent_install x fd func f) (\<lambda>f.
     ebind (get_fde x f) (\<lambda>e.
       Inr (put_fde x (e\<lparr>fde_state := fde_state e OR FDE_CREATED\<rparr>) f)))"

definition fdevent_remove :: "fde_id \<Rightarrow> fdev \<Rightarrow> err + fdev" where
  "fdevent_remove x f =
     ebind (get_fde x f) (\<lambda>e.
     ebind (if fde_state e AND FDE_PENDING \<noteq> 0 then fdevent_plist_remove x f else Inr f) (\<lambda>f.
     ebind (if fde_state e AND FDE_ACTIVE \<noteq> 0
            then ebind (fdevent_disconnect x f) (fdevent_unregister x) else Inr f) (\<lambda>f.
       Inr (put_fde x (e\<lparr>fde_state := 0, fde_events := 0\<rparr>) f))))"

definition fdevent_destroy :: "fde_id \<Rightarrow> fdev \<Rightarrow> err + fdev" where
  "fdevent_destroy x f =
     ebind (get_fde x f) (\<lambda>e.
       if fde_state e AND FDE_CREATED = 0 then Inl (Abort ''fde not created by fdevent_create()'')
       else fdevent_remove x f)"

definition fdevent_set :: "fde_id \<Rightarrow> u16 \<Rightarrow> fdev \<Rightarrow> err + fdev" where
  "fdevent_set x events f =
     (let events = events AND FDE_EVENTMASK in
      ebind (get_fde x f) (\<lambda>e.
        if fde_state e AND FDE_EVENTMASK = events then Inr f
        else ebind (if fde_state e AND FDE_ACTIVE \<noteq> 0 then fdevent_update x events f else Inr f) (\<lambda>f.
             ebind (get_fde x f) (\<lambda>e.
               let e = e\<lparr>fde_state := (fde_state e AND FDE_STATEMASK) OR events\<rparr>;
                   f = put_fde x e f
               in if fde_state e AND FDE_PENDING \<noteq> 0 then
                    let e = e\<lparr>fde_events := fde_events e AND NOT events\<rparr>; f = put_fde x e f
                    in if fde_events e = 0 then
                         ebind (fdevent_plist_remove x f) (\<lambda>f.
                           Inr (put_fde x (e\<lparr>fde_state := fde_state e AND NOT FDE_PENDING\<rparr>) f))
                       else Inr f
                  else Inr f))))"

definition fdevent_add :: "fde_id \<Rightarrow> u16 \<Rightarrow> fdev \<Rightarrow> err + fdev" where
  "fdevent_add x events f =
     ebind (get_fde x f) (\<lambda>e.
       fdevent_set x ((fde_state e AND FDE_EVENTMASK) OR (events AND FDE_EVENTMASK)) f)"

definition fdevent_del :: "fde_id \<Rightarrow> u16 \<Rightarrow> fdev \<Rightarrow> err + fdev" where
  "fdevent_del x events f =
     ebind (get_fde x f) (\<lambda>e.
       fdevent_set x ((fde_state e AND FDE_EVENTMASK) AND NOT (events AND FDE_EVENTMASK)) f)"

text \<open>\<open>fdevent_call_fdfunc\<close> up to the call: the events to pass to the callback, or
  \<open>None\<close> where it returns at once.\<close>

definition fdevent_call_fdfunc :: "fde_id \<Rightarrow> fdev \<Rightarrow> err + ((fd_func \<times> int \<times> u16) option \<times> fdev)" where
  "fdevent_call_fdfunc x f =
     ebind (get_fde x f) (\<lambda>e.
       if fde_state e AND FDE_PENDING = 0 then Inr (None, put_fde x (e\<lparr>fde_events := 0\<rparr>) f)
       else Inr (Some (fde_func e, fde_fd e, fde_events e),
                 put_fde x (e\<lparr>fde_events := 0, fde_state := fde_state e AND NOT FDE_PENDING\<rparr>) f))"

section \<open>One turn of the loop\<close>

text \<open>What \<open>select\<close> reports: the three sets it leaves, or its error.\<close>

datatype select_res = Sel_ready "int set" "int set" "int set" | Sel_EINTR | Sel_EBADF | Sel_error

fun count_bits :: "nat \<Rightarrow> int set \<Rightarrow> nat" where
  "count_bits 0 s = 0"
| "count_bits (Suc k) s = count_bits k s + (if int k \<in> s then 1 else 0)"

definition table_slot :: "fdev \<Rightarrow> nat \<Rightarrow> err + fde_id option" where
  "table_slot f i =
     (if length (fd_table f) \<le> i then Inl OutOfBounds
      else case fd_table f ! i of Null \<Rightarrow> Inr None | Fde x \<Rightarrow> Inr (Some x) | Garbage \<Rightarrow> Inl Uninitialised)"

text \<open>\<open>fdevent_fd_check\<close>: \<open>bad i\<close> is that \<open>fcntl(i, F_GETFL)\<close> fails; \<open>k\<close> counts the
  iterations that are left.\<close>

fun fdevent_fd_check :: "nat \<Rightarrow> nat \<Rightarrow> (int \<Rightarrow> bool) \<Rightarrow> fdev \<Rightarrow> int set \<Rightarrow> nat \<Rightarrow> err + (nat \<times> int set)" where
  "fdevent_fd_check 0 i bad f fds n = Inr (n, fds)"
| "fdevent_fd_check (Suc k) i bad f fds n =
     ebind (table_slot f i) (\<lambda>sl.
       case sl of
         None \<Rightarrow> fdevent_fd_check k (Suc i) bad f fds n
       | Some _ \<Rightarrow>
           if bad (int i) then
             ebind (fd_bit True (int i) fds) (\<lambda>fds. fdevent_fd_check k (Suc i) bad f fds (Suc n))
           else fdevent_fd_check k (Suc i) bad f fds n)"

definition fd_isset :: "int \<Rightarrow> int set \<Rightarrow> err + bool" where
  "fd_isset i s = (if i < 0 \<or> FD_SETSIZE \<le> i then Inl OutOfBounds else Inr (i \<in> s))"

text \<open>The dispatch loop of \<open>fdevent_process\<close>.\<close>

fun process_loop :: "nat \<Rightarrow> nat \<Rightarrow> int \<Rightarrow> int set \<Rightarrow> int set \<Rightarrow> int set \<Rightarrow> fdev \<Rightarrow> err + fdev" where
  "process_loop 0 i n r w e f = Inr f"
| "process_loop (Suc k) i n r w e f =
     (if n \<le> 0 then Inr f
      else
        ebind (fd_isset (int i) r) (\<lambda>br.
        ebind (fd_isset (int i) w) (\<lambda>bw.
        ebind (fd_isset (int i) e) (\<lambda>be.
          let events = (if br then FDE_READ else 0) OR (if bw then FDE_WRITE else 0) OR
                       (if be then FDE_ERROR else 0);
              n = n - of_bool br - of_bool bw - of_bool be
          in if events \<noteq> 0 then
               ebind (table_slot f i) (\<lambda>sl.
                 case sl of
                   None \<Rightarrow> Inl (Abort ''missing fde for fd'')
                 | Some x \<Rightarrow>
                     ebind (get_fde x f) (\<lambda>fde.
                       let fde = fde\<lparr>fde_events := fde_events fde OR events\<rparr>; f = put_fde x fde f
                       in if fde_state fde AND FDE_PENDING \<noteq> 0
                          then process_loop k (Suc i) n r w e f
                          else process_loop k (Suc i) n r w e
                                 (fdevent_plist_enqueue x
                                    (put_fde x (fde\<lparr>fde_state := fde_state fde OR FDE_PENDING\<rparr>) f))))
             else process_loop k (Suc i) n r w e f))))"

definition fdevent_process :: "select_res \<Rightarrow> (int \<Rightarrow> bool) \<Rightarrow> fdev \<Rightarrow> err + fdev" where
  "fdevent_process sel bad f =
     (let m = nat (select_n f);
          go = (\<lambda>r w e. let n = count_bits m r + count_bits m w + count_bits m e in
                 if n = 0 then
                   ebind (fdevent_fd_check m 0 bad f r 0) (\<lambda>(n, r). process_loop m 0 (int n) r w e f)
                 else process_loop m 0 (int n) r w e f)
      in case sel of
           Sel_EINTR \<Rightarrow> Inr f
         | Sel_error \<Rightarrow> Inr f
         | Sel_EBADF \<Rightarrow> go {} {} {}
         | Sel_ready r w e \<Rightarrow> go r w e)"

text \<open>\<open>fdevent_subproc_event_func\<close>: \<open>rs\<close> is the reading side of the notification socket and
  \<open>rcount\<close> what \<open>FIONREAD\<close> answers; the result names the callback it makes, if any.\<close>

definition fdevent_subproc_event_func ::
  "int \<Rightarrow> u16 \<Rightarrow> rres list \<Rightarrow> int \<Rightarrow> fdev \<Rightarrow> err + ((fd_func \<times> int \<times> u16) option \<times> fdev)" where
  "fdevent_subproc_event_func fd ev rs rcount f =
     (if fd < 0 \<or> int (length (fd_table f)) \<le> fd then Inl (Abort ''fd out of range for fd_table'')
      else
        ebind (table_slot f (nat fd)) (\<lambda>sl.
          case sl of
            None \<Rightarrow> Inl NullDeref
          | Some x \<Rightarrow>
              ebind (fdevent_add x FDE_READ f) (\<lambda>f.
                if ev AND FDE_READ = 0 then Inr (None, f)
                else ebind (readx 4 rs) (\<lambda>(r, _).
                  case r of
                    None \<Rightarrow> Inl (Abort ''Failed to read the subproc's fd'')
                  | Some bs \<Rightarrow>
                      let subproc_fd = sint (get32 bs) in
                      if subproc_fd < 0 \<or> int (length (fd_table f)) \<le> subproc_fd then Inr (None, f)
                      else ebind (table_slot f (nat subproc_fd)) (\<lambda>sl.
                        case sl of
                          None \<Rightarrow> Inr (None, f)
                        | Some y \<Rightarrow>
                            ebind (get_fde y f) (\<lambda>e.
                              if fde_fd e \<noteq> subproc_fd then Inr (None, f)
                              else
                                let e = e\<lparr>fde_force_eof := True\<rparr> in
                                if rcount \<noteq> 0 then Inr (None, put_fde y e f)
                                else
                                  let e = e\<lparr>fde_events := fde_events e OR FDE_READ\<rparr> in
                                  if fde_state e AND FDE_PENDING \<noteq> 0 then Inr (None, put_fde y e f)
                                  else fdevent_call_fdfunc y
                                         (put_fde y (e\<lparr>fde_state := fde_state e OR FDE_PENDING\<rparr>) f)))))))"

section \<open>Flags\<close>

lemmas fde_flag_defs =
  FDE_READ_def FDE_WRITE_def FDE_ERROR_def FDE_DONT_CLOSE_def FDE_ACTIVE_def FDE_PENDING_def
  FDE_CREATED_def

lemma flag_bit:
  "(x AND FDE_READ = 0) = (\<not> bit x 0)" "(x AND FDE_WRITE = 0) = (\<not> bit x 1)"
  "(x AND FDE_ERROR = 0) = (\<not> bit x 2)" "(x AND FDE_DONT_CLOSE = 0) = (\<not> bit x 7)"
  "(x AND FDE_ACTIVE = 0) = (\<not> bit x 8)" "(x AND FDE_PENDING = 0) = (\<not> bit x 9)"
  "(x AND FDE_CREATED = 0) = (\<not> bit x 10)"
  using and_exp_eq_0_iff_not_bit [of x 0] and_exp_eq_0_iff_not_bit [of x 1]
    and_exp_eq_0_iff_not_bit [of x 2] and_exp_eq_0_iff_not_bit [of x 7]
    and_exp_eq_0_iff_not_bit [of x 8] and_exp_eq_0_iff_not_bit [of x 9]
    and_exp_eq_0_iff_not_bit [of x 10]
  by (simp_all add: fde_flag_defs)

lemma bit_EVENTMASK: "bit FDE_EVENTMASK n = (n < 8)"
proof -
  have m: "FDE_EVENTMASK = mask 8" by (simp add: FDE_EVENTMASK_def mask_eq_exp_minus_1)
  show ?thesis unfolding m bit_mask_iff by auto
qed

lemma bit_STATEMASK: "bit FDE_STATEMASK n = (8 \<le> n \<and> n < 16)"
proof -
  have m: "FDE_STATEMASK = push_bit 8 (mask 8)"
    by (simp add: FDE_STATEMASK_def mask_eq_exp_minus_1 push_bit_eq_mult)
  show ?thesis unfolding m bit_push_bit_iff bit_mask_iff by auto
qed

lemma bit_flags:
  "bit FDE_READ n = (n = 0)" "bit FDE_WRITE n = (n = 1)" "bit FDE_ERROR n = (n = 2)"
  "bit FDE_ACTIVE n = (n = 8)" "bit FDE_PENDING n = (n = 9)" "bit FDE_CREATED n = (n = 10)"
proof -
  have *: "bit (2 ^ k :: u16) n = (n = k)" if "k < 16" for k
    using that by (auto simp: bit_exp_iff)
  show "bit FDE_READ n = (n = 0)" "bit FDE_WRITE n = (n = 1)" "bit FDE_ERROR n = (n = 2)"
    "bit FDE_ACTIVE n = (n = 8)" "bit FDE_PENDING n = (n = 9)" "bit FDE_CREATED n = (n = 10)"
    using * [of 0] * [of 1] * [of 2] * [of 8] * [of 9] * [of 10] by (simp_all add: fde_flag_defs)
qed

lemmas bit_fde = flag_bit bit_EVENTMASK bit_STATEMASK bit_flags bit_and_iff bit_or_iff bit_not_iff

section \<open>The invariant of the event loop\<close>

text \<open>Descriptors below \<open>FD_LIMIT\<close> index slots that the first allocation of the table has
  cleared.\<close>

definition FD_LIMIT :: nat where
  "FD_LIMIT = 128"

definition active :: "fdev \<Rightarrow> fde_id \<Rightarrow> fdevent \<Rightarrow> bool" where
  "active f x e \<longleftrightarrow> fdes f x = Some e \<and> bit (fde_state e) 8"

definition watched :: "fdev \<Rightarrow> nat \<Rightarrow> int set" where
  "watched f k = {fd. \<exists>x e. active f x e \<and> fde_fd e = fd \<and> bit (fde_state e) k}"

definition table_inv :: "fdev \<Rightarrow> bool" where
  "table_inv f \<longleftrightarrow>
     (\<forall>i x. i < length (fd_table f) \<and> fd_table f ! i = Fde x \<longrightarrow> (\<exists>e. active f x e \<and> fde_fd e = int i)) \<and>
     (\<forall>x e. active f x e \<longrightarrow> 0 \<le> fde_fd e \<and> fde_fd e < int FD_LIMIT \<and>
        nat (fde_fd e) < length (fd_table f) \<and> fd_table f ! nat (fde_fd e) = Fde x \<and>
        fde_fd e < select_n f) \<and>
     (\<forall>i < length (fd_table f). i < FD_LIMIT \<longrightarrow> fd_table f ! i \<noteq> Garbage) \<and>
     (fd_table f = [] \<or> 256 \<le> length (fd_table f)) \<and>
     0 \<le> select_n f \<and> select_n f \<le> int FD_LIMIT \<and> select_n f \<le> int (length (fd_table f))"

definition pending_inv :: "fdev \<Rightarrow> bool" where
  "pending_inv f \<longleftrightarrow> distinct (list_pending f) \<and>
     (\<forall>x. x \<in> set (list_pending f) \<longleftrightarrow> (\<exists>e. fdes f x = Some e \<and> bit (fde_state e) 9))"

definition sets_inv :: "fdev \<Rightarrow> bool" where
  "sets_inv f \<longleftrightarrow> read_fds f = watched f 0 \<and> write_fds f = watched f 1 \<and> error_fds f = watched f 2"

definition fdev_inv :: "fdev \<Rightarrow> bool" where
  "fdev_inv f \<longleftrightarrow> table_inv f \<and> pending_inv f \<and> sets_inv f"

lemma fdev_init_inv: "fdev_inv fdev_init"
  by (simp add: fdev_inv_def table_inv_def pending_inv_def sets_inv_def watched_def active_def
      fdev_init_def)

lemma active_fun: "active f x e \<Longrightarrow> active f x e' \<Longrightarrow> e = e'"
  by (simp add: active_def)

lemma active_same_fd:
  "table_inv f \<Longrightarrow> active f x e \<Longrightarrow> active f y e' \<Longrightarrow> fde_fd e = fde_fd e' \<Longrightarrow> x = y"
  by (metis slot.inject table_inv_def)

lemma table_invD:
  assumes "table_inv f" and "active f x e"
  shows "0 \<le> fde_fd e" "fde_fd e < int FD_LIMIT" "nat (fde_fd e) < length (fd_table f)"
    "fd_table f ! nat (fde_fd e) = Fde x" "fde_fd e < select_n f"
  using assms unfolding table_inv_def by blast+

text \<open>One event record changes, its descriptor and whether it is active stay, and the sets and
  the pending list follow: all operations but registration are instances.\<close>

definition follow :: "bool \<Rightarrow> bool \<Rightarrow> int \<Rightarrow> int set \<Rightarrow> int set" where
  "follow act b fd s = (if act then if b then insert fd s else s - {fd} else s)"

definition follow_list :: "bool \<Rightarrow> bool \<Rightarrow> 'a \<Rightarrow> 'a list \<Rightarrow> 'a list" where
  "follow_list was b x xs = (if b then if was then xs else xs @ [x] else remove1 x xs)"

lemma watched_follow:
  assumes "table_inv f" and "fdes f x = Some e" and "fde_fd e' = fde_fd e"
    and "bit (fde_state e') 8 = bit (fde_state e) 8" and "fdes f' = (fdes f)(x \<mapsto> e')"
  shows "watched f' k = follow (bit (fde_state e) 8) (bit (fde_state e') k) (fde_fd e) (watched f k)"
proof (cases "bit (fde_state e) 8")
  case True
  then have act: "active f x e" using assms(2) by (simp add: active_def)
  have other: "fde_fd ey \<noteq> fde_fd e" if "active f y ey" "y \<noteq> x" for y ey
    using active_same_fd [OF assms(1) that(1) act] that(2) by auto
  show ?thesis
  proof (cases "bit (fde_state e') k")
    case b: True
    show ?thesis using True b assms(2-5) other
      unfolding watched_def follow_def active_def by (auto split: if_splits; metis option.inject)
  next
    case b: False
    show ?thesis using True b assms(2-5) other
      unfolding watched_def follow_def active_def by (auto split: if_splits; metis option.inject)
  qed
next
  case False
  then show ?thesis using assms(2-5) unfolding watched_def follow_def active_def
    by (auto split: if_splits) (metis option.inject)+
qed

lemma table_follow:
  assumes "table_inv f" and "fdes f x = Some e" and "fde_fd e' = fde_fd e"
    and "bit (fde_state e') 8 = bit (fde_state e) 8" and "fdes f' = (fdes f)(x \<mapsto> e')"
    and "fd_table f' = fd_table f" and "select_n f' = select_n f"
  shows "table_inv f'"
proof -
  have act: "active f' y ey \<longleftrightarrow> (if y = x then ey = e' \<and> active f x e else active f y ey)" for y ey
    using assms(2,4,5) by (auto simp: active_def)
  have "\<exists>e0. active f' y e0 \<and> fde_fd e0 = int i"
    if iy: "i < length (fd_table f)" "fd_table f ! i = Fde y" for i y
  proof -
    obtain ey where ey: "active f y ey" "fde_fd ey = int i"
      using assms(1) iy unfolding table_inv_def by blast
    show ?thesis
    proof (cases "y = x")
      case True
      then have "ey = e" using ey(1) assms(2) by (simp add: active_def)
      then show ?thesis using ey True act assms(3) by auto
    next
      case False
      then show ?thesis using ey act by auto
    qed
  qed
  moreover have "0 \<le> fde_fd ey \<and> fde_fd ey < int FD_LIMIT \<and> nat (fde_fd ey) < length (fd_table f) \<and>
        fd_table f ! nat (fde_fd ey) = Fde y \<and> fde_fd ey < select_n f" if ay: "active f' y ey" for y ey
  proof -
    obtain e0 where "active f y e0" "fde_fd e0 = fde_fd ey"
      using ay act [of y ey] assms(3) by (auto split: if_splits)
    then show ?thesis using assms(1) unfolding table_inv_def by metis
  qed
  ultimately show ?thesis
    using assms(1) unfolding table_inv_def assms(6,7) by blast
qed

lemma pending_follow:
  assumes "pending_inv f" and "fdes f x = Some e" and "fdes f' = (fdes f)(x \<mapsto> e')"
    and "list_pending f' = follow_list (bit (fde_state e) 9) (bit (fde_state e') 9) x (list_pending f)"
  shows "pending_inv f'"
  using assms unfolding pending_inv_def follow_list_def by auto

lemma fdev_inv_follow:
  assumes inv: "fdev_inv f" and x: "fdes f x = Some e" and fd: "fde_fd e' = fde_fd e"
    and act: "bit (fde_state e') 8 = bit (fde_state e) 8"
    and f': "fdes f' = (fdes f)(x \<mapsto> e')" "fd_table f' = fd_table f" "select_n f' = select_n f"
    and pend: "list_pending f' =
      follow_list (bit (fde_state e) 9) (bit (fde_state e') 9) x (list_pending f)"
    and sets: "read_fds f' = follow (bit (fde_state e) 8) (bit (fde_state e') 0) (fde_fd e) (read_fds f)"
      "write_fds f' = follow (bit (fde_state e) 8) (bit (fde_state e') 1) (fde_fd e) (write_fds f)"
      "error_fds f' = follow (bit (fde_state e) 8) (bit (fde_state e') 2) (fde_fd e) (error_fds f)"
  shows "fdev_inv f'"
proof -
  have t: "table_inv f" using inv by (simp add: fdev_inv_def)
  note w = watched_follow [OF t x fd act f'(1)]
  show ?thesis
    using inv table_follow [OF t x fd act f'] pending_follow [OF _ x f'(1) pend] sets w
    by (simp add: fdev_inv_def sets_inv_def)
qed

text \<open>Where no watched bit changes, the sets follow by staying.\<close>

lemma follow_same:
  assumes "fdev_inv f" and "fdes f x = Some e" and "b = bit (fde_state e) k"
    and "k = 0 \<and> s = read_fds f \<or> k = 1 \<and> s = write_fds f \<or> k = 2 \<and> s = error_fds f"
  shows "follow (bit (fde_state e) 8) b (fde_fd e) s = s"
proof -
  have s: "s = watched f k" using assms(1,4) by (auto simp: fdev_inv_def sets_inv_def)
  have "fde_fd e \<in> watched f k" if "bit (fde_state e) 8" "bit (fde_state e) k"
    using that assms(2) unfolding watched_def active_def by blast
  moreover have "fde_fd e \<notin> watched f k" if act: "bit (fde_state e) 8" "\<not> bit (fde_state e) k"
  proof
    assume "fde_fd e \<in> watched f k"
    then obtain y ey where y: "active f y ey" "fde_fd ey = fde_fd e" "bit (fde_state ey) k"
      unfolding watched_def by auto
    moreover have "active f x e" using act assms(2) by (simp add: active_def)
    ultimately have "y = x" using active_same_fd assms(1) by (auto simp: fdev_inv_def)
    then show False using y act assms(2) by (simp add: active_def)
  qed
  ultimately show ?thesis unfolding s assms(3) follow_def by auto
qed

lemma active_fd_range:
  "fdev_inv f \<Longrightarrow> fdes f x = Some e \<Longrightarrow> bit (fde_state e) 8 \<Longrightarrow> 0 \<le> fde_fd e \<and> fde_fd e < FD_SETSIZE"
  by (fastforce simp: fdev_inv_def table_inv_def active_def FD_LIMIT_def FD_SETSIZE_def)

lemma fd_bit_follow:
  "0 \<le> fd \<Longrightarrow> fd < FD_SETSIZE \<Longrightarrow> fd_bit b fd s = Inr (follow True b fd s)"
  by (simp add: fd_bit_def follow_def)

definition new_state :: "u16 \<Rightarrow> u16 \<Rightarrow> u16" where
  "new_state st ev = (st AND FDE_STATEMASK) OR (ev AND FDE_EVENTMASK)"

lemma new_state_twice: "new_state (new_state st ev) ev = new_state st ev"
  unfolding new_state_def by (rule bit_word_eqI) (auto simp: bit_fde)

lemma bit_new_state: "k < 16 \<Longrightarrow> bit (new_state st ev) k = (if k < 8 then bit ev k else bit st k)"
  by (auto simp: new_state_def bit_fde)

lemma new_state_events: "new_state st ev AND FDE_EVENTMASK = ev AND FDE_EVENTMASK"
  unfolding new_state_def by (rule bit_word_eqI) (auto simp: bit_fde)

text \<open>What \<open>fdevent_set\<close> leaves in the record, with the pending flag as it ends up.\<close>

definition set_event :: "u16 \<Rightarrow> fdevent \<Rightarrow> fdevent" where
  "set_event ev e =
     (let e = e\<lparr>fde_state := new_state (fde_state e) ev\<rparr> in
      if bit (fde_state e) 9 then
        let e = e\<lparr>fde_events := fde_events e AND NOT (ev AND FDE_EVENTMASK)\<rparr> in
        if fde_events e = 0 then e\<lparr>fde_state := fde_state e AND NOT FDE_PENDING\<rparr> else e
      else e)"

lemma fdevent_set_eq:
  assumes inv: "fdev_inv f" and x: "fdes f x = Some e"
    and new: "fde_state e AND FDE_EVENTMASK \<noteq> ev AND FDE_EVENTMASK"
  shows "fdevent_set x ev f = Inr (f\<lparr>fdes := (fdes f)(x \<mapsto> set_event ev e),
     read_fds := follow (bit (fde_state e) 8) (bit ev 0) (fde_fd e) (read_fds f),
     write_fds := follow (bit (fde_state e) 8) (bit ev 1) (fde_fd e) (write_fds f),
     error_fds := follow (bit (fde_state e) 8) (bit ev 2) (fde_fd e) (error_fds f),
     list_pending := follow_list (bit (fde_state e) 9) (bit (fde_state (set_event ev e)) 9) x
       (list_pending f)\<rparr>)"
proof -
  let ?ev = "ev AND FDE_EVENTMASK"
  let ?g = "f\<lparr>fdes := (fdes f)(x \<mapsto> e\<lparr>fde_state := new_state (fde_state e) ev\<rparr>),
     read_fds := follow (bit (fde_state e) 8) (bit ev 0) (fde_fd e) (read_fds f),
     write_fds := follow (bit (fde_state e) 8) (bit ev 1) (fde_fd e) (write_fds f),
     error_fds := follow (bit (fde_state e) 8) (bit ev 2) (fde_fd e) (error_fds f)\<rparr>"
  have upd: "fdevent_update x ?ev f = Inr ?g" if "bit (fde_state e) 8"
    using active_fd_range [OF inv x that] x that
    by (simp add: fdevent_update_def get_fde_def fd_bit_follow put_fde_def new_state_def bit_fde)
  have pend: "x \<in> set (list_pending f) \<longleftrightarrow> bit (fde_state e) 9"
    using inv x by (auto simp: fdev_inv_def pending_inv_def)
  have idle: "x \<notin> set (list_pending f) \<Longrightarrow> remove1 x (list_pending f) = list_pending f"
    by (simp add: remove1_idem)
  have st: "(fde_state e AND FDE_STATEMASK) OR ?ev = new_state (fde_state e) ev"
    and st2: "(new_state (fde_state e) ev AND FDE_STATEMASK) OR ?ev = new_state (fde_state e) ev"
    using new_state_twice by (simp_all add: new_state_def)
  have p9: "bit (new_state (fde_state e) ev) 9 = bit (fde_state e) 9"
    and np: "bit (new_state (fde_state e) ev AND NOT FDE_PENDING) 9 = False"
    by (simp_all add: bit_new_state bit_fde)
  show ?thesis
    using new x upd pend idle
    by (cases "bit (fde_state e) 8"; cases "bit (fde_state e) 9")
      (simp_all add: fdevent_set_def get_fde_def Let_def flag_bit st st2 put_fde_def set_event_def
        fdevent_plist_remove_def follow_list_def p9 np follow_def del: bit_and_iff)
qed

lemma set_event_frame:
  "fde_fd (set_event ev e) = fde_fd e" "fde_func (set_event ev e) = fde_func e"
  "fde_force_eof (set_event ev e) = fde_force_eof e"
  "bit (fde_state (set_event ev e)) 8 = bit (fde_state e) 8"
  "k < 8 \<Longrightarrow> bit (fde_state (set_event ev e)) k = bit ev k"
  by (simp_all add: set_event_def Let_def bit_new_state bit_fde)

lemma fdevent_set_inv:
  assumes inv: "fdev_inv f" and x: "fdes f x = Some e"
  shows "\<exists>f' e'. fdevent_set x ev f = Inr f' \<and> fdev_inv f' \<and> fdes f' = (fdes f)(x \<mapsto> e') \<and>
    fd_table f' = fd_table f \<and> closed_fds f' = closed_fds f \<and> fde_fd e' = fde_fd e \<and>
    fde_func e' = fde_func e \<and> fde_force_eof e' = fde_force_eof e \<and>
    bit (fde_state e') 8 = bit (fde_state e) 8 \<and>
    (\<forall>k < 8. bit (fde_state e') k = bit ev k)"
proof (cases "fde_state e AND FDE_EVENTMASK = ev AND FDE_EVENTMASK")
  case True
  then have bits: "\<forall>k < 8. bit (fde_state e) k = bit ev k"
    by (metis bit_EVENTMASK bit_and_iff)
  have "fdevent_set x ev f = Inr f"
    using True x by (simp add: fdevent_set_def get_fde_def Let_def)
  moreover have "fdes f = (fdes f)(x \<mapsto> e)" using x by auto
  ultimately show ?thesis using inv bits by blast
next
  case False
  note eq = fdevent_set_eq [OF inv x False]
  obtain f' where f': "fdevent_set x ev f = Inr f'" using eq by blast
  have "fdev_inv f'"
    by (rule fdev_inv_follow [OF inv x, of "set_event ev e"])
      (use f' eq in \<open>auto simp: set_event_frame\<close>)
  then show ?thesis using f' eq set_event_frame
    by (intro exI [of _ f'] exI [of _ "set_event ev e"]) auto
qed

lemma fdevent_add_eq:
  "fdes f x = Some e \<Longrightarrow> fdevent_add x ev f =
     fdevent_set x ((fde_state e AND FDE_EVENTMASK) OR (ev AND FDE_EVENTMASK)) f"
  by (simp add: fdevent_add_def get_fde_def)

lemma fdevent_del_eq:
  "fdes f x = Some e \<Longrightarrow> fdevent_del x ev f =
     fdevent_set x ((fde_state e AND FDE_EVENTMASK) AND NOT (ev AND FDE_EVENTMASK)) f"
  by (simp add: fdevent_del_def get_fde_def)

lemma disconnect_scan_total:
  assumes "\<forall>j. i \<le> j \<and> j < i + k \<longrightarrow> j < length tbl \<and> tbl ! j \<noteq> Garbage"
  shows "\<exists>m. disconnect_scan k i tbl n = Inr m \<and> (m = n \<or> i \<le> m \<and> m < i + k) \<and>
             (\<forall>j x. i \<le> j \<and> j < i + k \<and> tbl ! j = Fde x \<longrightarrow> j \<le> m)"
  using assms
proof (induction k arbitrary: i n)
  case 0
  then show ?case by simp
next
  case (Suc k)
  have ran: "\<forall>j. Suc i \<le> j \<and> j < Suc i + k \<longrightarrow> j < length tbl \<and> tbl ! j \<noteq> Garbage"
    using Suc.prems by simp
  have i: "i < length tbl" "tbl ! i \<noteq> Garbage" using Suc.prems by simp_all
  show ?case
  proof (cases "tbl ! i")
    case Null
    obtain m where m: "disconnect_scan k (Suc i) tbl n = Inr m" "m = n \<or> Suc i \<le> m \<and> m < Suc i + k"
      and le: "\<forall>j x. Suc i \<le> j \<and> j < Suc i + k \<and> tbl ! j = Fde x \<longrightarrow> j \<le> m"
      using Suc.IH [OF ran, of n] by auto
    have "j \<le> m" if "i \<le> j" "j < i + Suc k" "tbl ! j = Fde x" for j x
      using that le Null by (cases "j = i") auto
    then show ?thesis using Null i m by (intro exI [of _ m]) auto
  next
    case (Fde y)
    obtain m where m: "disconnect_scan k (Suc i) tbl i = Inr m" "m = i \<or> Suc i \<le> m \<and> m < Suc i + k"
      and le: "\<forall>j x. Suc i \<le> j \<and> j < Suc i + k \<and> tbl ! j = Fde x \<longrightarrow> j \<le> m"
      using Suc.IH [OF ran, of i] by auto
    have "j \<le> m" if "i \<le> j" "j < i + Suc k" "tbl ! j = Fde x" for j x
      using that le m by (cases "j = i") auto
    then show ?thesis using Fde i m by (intro exI [of _ m]) auto
  next
    case Garbage
    then show ?thesis using i by simp
  qed
qed

text \<open>\<open>fdevent_remove\<close> takes the record out of the table, the sets and the pending list, and
  closes its descriptor.\<close>

lemma fdevent_disconnect_eq:
  assumes inv: "fdev_inv f" and act: "active f x e"
  shows "\<exists>n. fdevent_disconnect x (f\<lparr>list_pending := l\<rparr>) =
    Inr (f\<lparr>list_pending := l, read_fds := read_fds f - {fde_fd e},
      write_fds := write_fds f - {fde_fd e}, error_fds := error_fds f - {fde_fd e},
      select_n := int n + 1\<rparr>) \<and> n < FD_LIMIT \<and> n < length (fd_table f) \<and>
    (\<forall>y ey. active f y ey \<longrightarrow> fde_fd ey \<le> int n)"
proof -
  have t: "table_inv f" using inv by (simp add: fdev_inv_def)
  have x: "fdes f x = Some e" "bit (fde_state e) 8" using act by (simp_all add: active_def)
  note fd = active_fd_range [OF inv x]
  have sel: "nat (select_n f) \<le> length (fd_table f)" "nat (select_n f) \<le> FD_LIMIT"
    "0 < select_n f" "0 < length (fd_table f)"
    using t table_invD [OF t act] by (auto simp: table_inv_def)
  have "\<forall>j. 0 \<le> j \<and> j < 0 + nat (select_n f) \<longrightarrow> j < length (fd_table f) \<and> fd_table f ! j \<noteq> Garbage"
    using t sel by (auto simp: table_inv_def)
  from disconnect_scan_total [OF this, of 0]
  obtain m where m: "disconnect_scan (nat (select_n f)) 0 (fd_table f) 0 = Inr m"
    "m = 0 \<or> m < nat (select_n f)"
    and le: "\<And>j y. j < nat (select_n f) \<Longrightarrow> fd_table f ! j = Fde y \<Longrightarrow> j \<le> m"
    by auto
  have "fde_fd ey \<le> int m" if "active f y ey" for y ey
  proof -
    have "fde_fd ey < select_n f" "fd_table f ! nat (fde_fd ey) = Fde y" "0 \<le> fde_fd ey"
      using table_invD [OF t that] by blast+
    then show ?thesis using le [of "nat (fde_fd ey)" y] by auto
  qed
  then show ?thesis
    using m sel fd x by (intro exI [of _ m])
      (auto simp: fdevent_disconnect_def get_fde_def fd_bit_follow follow_def FD_LIMIT_def)
qed

lemma fdevent_unregister_eq:
  assumes "table_inv g" and "fdes f = fdes g" and "fd_table f = fd_table g" and "active g x e"
  shows "fdevent_unregister x f = Inr (f\<lparr>fd_table := (fd_table f)[nat (fde_fd e) := Null],
    closed_fds := (if bit (fde_state e) 7 then closed_fds f else fde_fd e # closed_fds f)\<rparr>)"
proof -
  have "0 \<le> fde_fd e" "fde_fd e < int (length (fd_table g))" "fd_table g ! nat (fde_fd e) = Fde x"
    using table_invD [OF assms(1,4)] by auto
  then show ?thesis using assms(2-4)
    by (simp add: fdevent_unregister_def get_fde_def active_def flag_bit Let_def)
qed

lemma fdevent_remove_inactive:
  assumes inv: "fdev_inv f" and x: "fdes f x = Some e" and off: "\<not> bit (fde_state e) 8"
  shows "\<exists>f'. fdevent_remove x f = Inr f' \<and> fdev_inv f' \<and>
    fdes f' = (fdes f)(x \<mapsto> e\<lparr>fde_state := 0, fde_events := 0\<rparr>) \<and> fd_table f' = fd_table f"
proof -
  have pend: "x \<in> set (list_pending f) \<longleftrightarrow> bit (fde_state e) 9"
    using inv x by (auto simp: fdev_inv_def pending_inv_def)
  define f' where "f' = f\<lparr>fdes := (fdes f)(x \<mapsto> e\<lparr>fde_state := 0, fde_events := 0\<rparr>),
    list_pending := remove1 x (list_pending f)\<rparr>"
  have "fdevent_remove x f = Inr f'"
    using x off pend
    by (simp add: fdevent_remove_def get_fde_def flag_bit fdevent_plist_remove_def put_fde_def f'_def
        remove1_idem)
  moreover have "fdev_inv f'"
    by (rule fdev_inv_follow [OF inv x]) (use off in \<open>auto simp: f'_def follow_def follow_list_def\<close>)
  ultimately show ?thesis by (auto simp: f'_def)
qed

lemma nth_update_below: "j < length xs \<Longrightarrow> xs[i := v] ! j = (if i = j then v else xs ! j)"
  by (cases "i = j") simp_all

lemma table_remove:
  assumes t: "table_inv f" and act: "active f x e"
    and act': "\<And>y ey. active f' y ey \<longleftrightarrow> y \<noteq> x \<and> active f y ey"
    and tbl: "fd_table f' = (fd_table f)[nat (fde_fd e) := Null]" and sel: "select_n f' = int n + 1"
    and n: "n < FD_LIMIT" "n < length (fd_table f)"
    and top: "\<And>y ey. active f y ey \<Longrightarrow> fde_fd ey \<le> int n"
  shows "table_inv f'"
proof -
  have fd: "nat (fde_fd ey) \<noteq> nat (fde_fd e)" if "active f y ey" "y \<noteq> x" for y ey
    using active_same_fd [OF t that(1) act] that(2) table_invD [OF t that(1)] table_invD [OF t act]
    by auto
  have "\<exists>e0. active f' y e0 \<and> fde_fd e0 = int i"
    if i: "i < length (fd_table f')" "fd_table f' ! i = Fde y" for i y
  proof -
    have "i \<noteq> nat (fde_fd e)" "i < length (fd_table f)" "fd_table f ! i = Fde y"
      using i by (cases "i = nat (fde_fd e)"; simp add: tbl)+
    moreover from this obtain ey where "active f y ey" "fde_fd ey = int i"
      using t unfolding table_inv_def by blast
    moreover have "y \<noteq> x" using calculation act active_fun [of f x ey e] by auto
    ultimately show ?thesis using act' by blast
  qed
  moreover have "0 \<le> fde_fd ey \<and> fde_fd ey < int FD_LIMIT \<and> nat (fde_fd ey) < length (fd_table f') \<and>
      fd_table f' ! nat (fde_fd ey) = Fde y \<and> fde_fd ey < select_n f'" if "active f' y ey" for y ey
  proof -
    have "active f y ey" "y \<noteq> x" using that act' by auto
    then show ?thesis using table_invD [OF t, of y ey] fd [of y ey] top [of y ey]
      by (simp add: tbl sel)
  qed
  moreover have "fd_table f' ! i \<noteq> Garbage" if "i < length (fd_table f')" "i < FD_LIMIT" for i
    using that t by (auto simp: tbl table_inv_def nth_update_below)
  moreover have "fd_table f' = [] \<or> 256 \<le> length (fd_table f')"
    using t by (auto simp: tbl table_inv_def)
  ultimately show ?thesis using n unfolding table_inv_def by (simp add: sel tbl)
qed

lemma fdevent_remove_active:
  assumes inv: "fdev_inv f" and act: "active f x e"
  shows "\<exists>f'. fdevent_remove x f = Inr f' \<and> fdev_inv f' \<and>
    fdes f' = (fdes f)(x \<mapsto> e\<lparr>fde_state := 0, fde_events := 0\<rparr>) \<and>
    fd_table f' = (fd_table f)[nat (fde_fd e) := Null]"
proof -
  have x: "fdes f x = Some e" "bit (fde_state e) 8" using act by (simp_all add: active_def)
  have t: "table_inv f" using inv by (simp add: fdev_inv_def)
  define g where "g = f\<lparr>list_pending := remove1 x (list_pending f)\<rparr>"
  have g: "(if fde_state e AND FDE_PENDING \<noteq> 0 then fdevent_plist_remove x f else Inr f) = Inr g"
    using inv x(1) by (auto simp: fdev_inv_def pending_inv_def flag_bit g_def
        fdevent_plist_remove_def remove1_idem)
  obtain n where n: "n < FD_LIMIT" "n < length (fd_table f)"
    and dis: "fdevent_disconnect x g = Inr (g\<lparr>read_fds := read_fds f - {fde_fd e},
      write_fds := write_fds f - {fde_fd e}, error_fds := error_fds f - {fde_fd e},
      select_n := int n + 1\<rparr>)"
    and top: "\<And>y ey. active f y ey \<Longrightarrow> fde_fd ey \<le> int n"
    using fdevent_disconnect_eq [OF inv act, of "remove1 x (list_pending f)"] unfolding g_def by auto
  define h where "h = g\<lparr>read_fds := read_fds f - {fde_fd e},
      write_fds := write_fds f - {fde_fd e}, error_fds := error_fds f - {fde_fd e},
      select_n := int n + 1\<rparr>"
  have d: "fdevent_disconnect x g = Inr h" using dis by (simp add: h_def)
  have u: "fdevent_unregister x h = Inr (h\<lparr>fd_table := (fd_table f)[nat (fde_fd e) := Null],
      closed_fds := (if bit (fde_state e) 7 then closed_fds f else fde_fd e # closed_fds f)\<rparr>)"
    using fdevent_unregister_eq [OF t, of h x e] act by (simp add: h_def g_def)
  define f' where "f' = put_fde x (e\<lparr>fde_state := 0, fde_events := 0\<rparr>)
     (h\<lparr>fd_table := (fd_table f)[nat (fde_fd e) := Null],
      closed_fds := (if bit (fde_state e) 7 then closed_fds f else fde_fd e # closed_fds f)\<rparr>)"
  have eq: "fdevent_remove x f = Inr f'"
    using x g d u by (simp add: fdevent_remove_def get_fde_def flag_bit f'_def)
  have act': "active f' y ey \<longleftrightarrow> y \<noteq> x \<and> active f y ey" for y ey
    by (auto simp: f'_def active_def put_fde_def h_def g_def)
  have fd: "fde_fd ey \<noteq> fde_fd e" if "active f y ey" "y \<noteq> x" for y ey
    using active_same_fd [OF t that(1) act] that(2) by auto
  have w: "watched f' k = watched f k - {fde_fd e}" for k
    using fd act unfolding watched_def act' by (auto; metis active_fun)
  have "table_inv f'"
    using table_remove [OF t act act' _ _ n top] by (simp add: f'_def put_fde_def h_def)
  moreover have "pending_inv f'"
    using inv x by (auto simp: fdev_inv_def pending_inv_def f'_def put_fde_def h_def g_def)
  moreover have "sets_inv f'"
    using inv w by (simp add: fdev_inv_def sets_inv_def f'_def put_fde_def h_def)
  ultimately have "fdev_inv f'" by (simp add: fdev_inv_def)
  then show ?thesis using eq by (auto simp: f'_def put_fde_def h_def g_def)
qed

lemma fdevent_remove_inv:
  assumes inv: "fdev_inv f" and x: "fdes f x = Some e"
  shows "\<exists>f'. fdevent_remove x f = Inr f' \<and> fdev_inv f' \<and>
    fdes f' = (fdes f)(x \<mapsto> e\<lparr>fde_state := 0, fde_events := 0\<rparr>) \<and>
    (\<forall>i. i < length (fd_table f) \<longrightarrow> fd_table f ! i = Null \<longrightarrow> fd_table f' ! i = Null)"
proof (cases "bit (fde_state e) 8")
  case True
  then show ?thesis using fdevent_remove_active [OF inv, of x e] x
    by (auto simp: active_def nth_update_below)
next
  case False
  then show ?thesis using fdevent_remove_inactive [OF inv x] by auto
qed

lemma fde_free_inv:
  assumes inv: "fdev_inv f" and x: "fdes f x = Some e" and st: "fde_state e = 0"
  shows "fdev_inv (fde_free x f)"
proof -
  have act: "active (fde_free x f) = active f"
    using x st by (auto simp: active_def fde_free_def fun_eq_iff)
  then have "watched (fde_free x f) = watched f" by (simp add: watched_def fun_eq_iff)
  then have "sets_inv (fde_free x f)" using inv by (simp add: fdev_inv_def sets_inv_def fde_free_def)
  moreover have "table_inv (fde_free x f)"
    using inv unfolding fdev_inv_def table_inv_def act by (simp add: fde_free_def)
  moreover have "pending_inv (fde_free x f)"
    using inv x st by (auto simp: fdev_inv_def pending_inv_def fde_free_def)
  ultimately show ?thesis by (simp add: fdev_inv_def)
qed

section \<open>Registration\<close>

lemma grow_table_max_props:
  assumes "0 < m"
  shows "fd < grow_table_max m fd" and "m \<le> grow_table_max m fd"
proof -
  have "fd < grow_table_max m fd \<and> m \<le> grow_table_max m fd"
    using assms by (induction m fd rule: grow_table_max.induct) (subst (1 2) grow_table_max.simps, auto)
  then show "fd < grow_table_max m fd" and "m \<le> grow_table_max m fd" by simp_all
qed

text \<open>A descriptor that the table does not hold: the kernel never returns one that is open.\<close>

definition free_fd :: "fdev \<Rightarrow> int \<Rightarrow> bool" where
  "free_fd f fd \<longleftrightarrow> 0 \<le> fd \<and> fd < int FD_LIMIT \<and> (\<forall>x e. active f x e \<longrightarrow> fde_fd e \<noteq> fd)"

definition fresh_event :: "int \<Rightarrow> fd_func \<Rightarrow> fdevent" where
  "fresh_event fd func = \<lparr>fde_fd = fd, fde_force_eof = False, fde_state = FDE_ACTIVE,
     fde_events = 0, fde_func = func\<rparr>"

definition first_table :: "slot list \<Rightarrow> slot list" where
  "first_table tbl = (if tbl = [] then replicate 128 Null @ replicate 128 Garbage else tbl)"

lemma no_table_no_active: "table_inv f \<Longrightarrow> fd_table f = [] \<Longrightarrow> \<not> active f x e"
  using table_invD(3) [of f x e] by auto

lemma fdevent_install_eq:
  assumes inv: "fdev_inv f" and fd: "free_fd f fd"
  shows "fdevent_install x fd func f = Inr (f\<lparr>fdes := (fdes f)(x \<mapsto> fresh_event fd func),
    fd_table := (first_table (fd_table f))[nat fd := Fde x], select_n := max (select_n f) (fd + 1)\<rparr>)"
proof -
  let ?f0 = "put_fde x (fresh_event fd func) f"
  have t: "table_inv f" and sets: "sets_inv f" using inv by (simp_all add: fdev_inv_def)
  have fd': "0 \<le> fd" "fd < 128" using fd by (simp_all add: free_fd_def FD_LIMIT_def)
  have tbl: "fd_table f = [] \<or> 256 \<le> length (fd_table f)" using t by (simp add: table_inv_def)
  have "nat fd < 256" using fd' by linarith
  then have g: "grow_table_max 256 (nat fd) = 256"
    by (subst grow_table_max.simps) simp
  have empty: "read_fds f = {}" "write_fds f = {}" "error_fds f = {}" if "fd_table f = []"
    using sets no_table_no_active [OF t that] by (simp_all add: sets_inv_def watched_def)
  have reg: "fdevent_register x ?f0 =
      Inr (?f0\<lparr>fd_table := (first_table (fd_table f))[nat fd := Fde x]\<rparr>)"
  proof (cases "fd_table f = []")
    case True
    then show ?thesis using fd' g empty
      by (simp add: fdevent_register_def get_fde_def put_fde_def fresh_event_def Let_def new_slots_def
          ptr_size_def first_table_def)
  next
    case False
    then show ?thesis using fd' tbl
      by (simp add: fdevent_register_def get_fde_def put_fde_def fresh_event_def Let_def new_slots_def
          first_table_def)
  qed
  have st: "FDE_ACTIVE OR FDE_ACTIVE = FDE_ACTIVE" by simp
  show ?thesis
    using reg unfolding fdevent_install_def fresh_event_def [symmetric] Let_def
    by (simp add: fdevent_connect_def get_fde_def put_fde_def) (simp add: fresh_event_def max_def)
qed

lemma fdevent_install_inv:
  assumes inv: "fdev_inv f" and fd: "free_fd f fd" and x: "fdes f x = None"
  shows "\<exists>f'. fdevent_install x fd func f = Inr f' \<and> fdev_inv f' \<and>
    fdes f' = (fdes f)(x \<mapsto> fresh_event fd func)"
proof -
  define f' where "f' = f\<lparr>fdes := (fdes f)(x \<mapsto> fresh_event fd func),
    fd_table := (first_table (fd_table f))[nat fd := Fde x], select_n := max (select_n f) (fd + 1)\<rparr>"
  have t: "table_inv f" using inv by (simp add: fdev_inv_def)
  have fd': "0 \<le> fd" "fd < int FD_LIMIT" using fd by (simp_all add: free_fd_def)
  have len: "256 \<le> length (first_table (fd_table f))"
    "length (fd_table f) \<le> length (first_table (fd_table f))"
    using t by (auto simp: first_table_def table_inv_def)
  have old: "first_table (fd_table f) ! i = fd_table f ! i" if "i < length (fd_table f)" for i
    using that by (auto simp: first_table_def)
  have act': "active f' y ey \<longleftrightarrow> y = x \<and> ey = fresh_event fd func \<or> y \<noteq> x \<and> active f y ey" for y ey
    by (auto simp: active_def f'_def fresh_event_def bit_fde)
  have other: "nat (fde_fd ey) \<noteq> nat fd" if "active f y ey" for y ey
    using fd fd'(1) that table_invD(1) [OF t that] unfolding free_fd_def by (metis eq_nat_nat_iff)
  have "\<exists>e0. active f' y e0 \<and> fde_fd e0 = int i"
    if i: "i < length (fd_table f')" "fd_table f' ! i = Fde y" for i y
  proof (cases "i = nat fd")
    case True
    then have "y = x" using i by (simp add: f'_def)
    then show ?thesis using True fd' act' by (auto simp: fresh_event_def)
  next
    case False
    then have "first_table (fd_table f) ! i = Fde y" using i by (simp add: f'_def)
    then have "i < length (fd_table f)" "fd_table f ! i = Fde y"
      using i by (auto simp: first_table_def f'_def nth_append split: if_splits)
    then obtain ey where "active f y ey" "fde_fd ey = int i"
      using t unfolding table_inv_def by blast
    then show ?thesis using act' x by (metis active_def option.distinct(1))
  qed
  moreover have "0 \<le> fde_fd ey \<and> fde_fd ey < int FD_LIMIT \<and> nat (fde_fd ey) < length (fd_table f') \<and>
      fd_table f' ! nat (fde_fd ey) = Fde y \<and> fde_fd ey < select_n f'" if "active f' y ey" for y ey
  proof (cases "y = x")
    case True
    then show ?thesis using that act' fd' len by (auto simp: fresh_event_def f'_def FD_LIMIT_def)
  next
    case False
    then have "active f y ey" using that act' by simp
    then show ?thesis using table_invD [OF t, of y ey] other [of y ey] old len
      by (auto simp: f'_def)
  qed
  moreover have "fd_table f' ! i \<noteq> Garbage" if "i < length (fd_table f')" "i < FD_LIMIT" for i
    using that t fd' by (auto simp: f'_def table_inv_def nth_update_below first_table_def FD_LIMIT_def
        nth_append split: if_splits)
  ultimately have "table_inv f'"
    using t fd' len unfolding table_inv_def by (simp add: f'_def FD_LIMIT_def)
  moreover have "pending_inv f'"
    using inv x by (auto simp: fdev_inv_def pending_inv_def f'_def fresh_event_def bit_fde)
  moreover have "watched f' k = watched f k" if "k < 8" for k
    using that x unfolding watched_def act'
    by (auto simp: fresh_event_def bit_fde) (metis active_def option.distinct(1))
  then have "sets_inv f'" using inv by (simp add: fdev_inv_def sets_inv_def f'_def)
  ultimately show ?thesis
    using fdevent_install_eq [OF inv fd, of x func] by (auto simp: fdev_inv_def f'_def)
qed

section \<open>One turn of the loop keeps the invariant\<close>

lemma fdevent_call_fdfunc_inv:
  assumes inv: "fdev_inv f" and x: "fdes f x = Some e"
    and deq: "f' = f\<lparr>list_pending := remove1 x (list_pending f)\<rparr>" and p: "x \<in> set (list_pending f)"
  shows "\<exists>g. fdevent_call_fdfunc x f' = Inr (Some (fde_func e, fde_fd e, fde_events e), g) \<and> fdev_inv g \<and>
    fdes g = (fdes f)(x \<mapsto> e\<lparr>fde_events := 0, fde_state := fde_state e AND NOT FDE_PENDING\<rparr>)"
proof -
  define g where "g = f\<lparr>fdes := (fdes f)(x \<mapsto> e\<lparr>fde_events := 0,
      fde_state := fde_state e AND NOT FDE_PENDING\<rparr>), list_pending := remove1 x (list_pending f)\<rparr>"
  have p9: "bit (fde_state e) 9" using inv x p by (auto simp: fdev_inv_def pending_inv_def)
  have "fdev_inv g"
    by (rule fdev_inv_follow [OF inv x])
      (use follow_same [OF inv x] in \<open>auto simp: g_def bit_fde follow_list_def\<close>)
  moreover have "fdevent_call_fdfunc x f' = Inr (Some (fde_func e, fde_fd e, fde_events e), g)"
    using x p9 by (simp add: fdevent_call_fdfunc_def get_fde_def put_fde_def flag_bit deq g_def)
  ultimately show ?thesis by (auto simp: g_def)
qed

text \<open>What \<open>process_loop\<close> does to the record of a descriptor that is ready.\<close>

definition signal :: "fde_id \<Rightarrow> fdevent \<Rightarrow> u16 \<Rightarrow> fdev \<Rightarrow> fdev" where
  "signal x e ev f = f\<lparr>fdes := (fdes f)(x \<mapsto> e\<lparr>fde_events := fde_events e OR ev,
       fde_state := (if bit (fde_state e) 9 then fde_state e else fde_state e OR FDE_PENDING)\<rparr>),
     list_pending := (if bit (fde_state e) 9 then list_pending f else list_pending f @ [x])\<rparr>"

lemma signal_inv:
  assumes inv: "fdev_inv f" and x: "fdes f x = Some e"
  shows "fdev_inv (signal x e ev f)"
  by (cases "bit (fde_state e) 9"; rule fdev_inv_follow [OF inv x])
    (use follow_same [OF inv x] in \<open>auto simp: signal_def bit_fde follow_list_def\<close>)

lemma process_loop_signal:
  assumes "0 < n" and "i < length (fd_table f)" and "int i < FD_SETSIZE"
    and "fd_table f ! i = Fde x" and "fdes f x = Some fe" and "int i \<in> r \<union> w \<union> e"
  shows "\<exists>ev. process_loop (Suc k) i n r w e f =
    process_loop k (Suc i) (n - of_bool (int i \<in> r) - of_bool (int i \<in> w) - of_bool (int i \<in> e))
      r w e (signal x fe ev f)"
proof -
  let ?ev = "(if int i \<in> r then FDE_READ else 0) OR (if int i \<in> w then FDE_WRITE else 0) OR
    (if int i \<in> e then FDE_ERROR else 0)"
  have ev: "?ev \<noteq> 0" using assms(6) by (auto simp: fde_flag_defs)
  have "(let fde = fe\<lparr>fde_events := fde_events fe OR ?ev\<rparr>; f = put_fde x fde f
       in if fde_state fde AND FDE_PENDING \<noteq> 0 then f
          else fdevent_plist_enqueue x
                 (put_fde x (fde\<lparr>fde_state := fde_state fde OR FDE_PENDING\<rparr>) f)) = signal x fe ?ev f"
    by (simp add: Let_def put_fde_def flag_bit fdevent_plist_enqueue_def signal_def)
  then show ?thesis using assms(1-5) ev
    by (intro exI [of _ ?ev])
      (simp add: fd_isset_def table_slot_def get_fde_def Let_def split: if_splits)
qed

lemma process_loop_skip:
  assumes "0 < n" and "int i < FD_SETSIZE" and "int i \<notin> r \<union> w \<union> e"
  shows "process_loop (Suc k) i n r w e f = process_loop k (Suc i) n r w e f"
  using assms by (simp add: fd_isset_def)

lemma count_bits_le: "count_bits i s \<le> count_bits (i + k) s"
  by (induction k) auto

lemma count_bits_none:
  "count_bits (i + k) s = count_bits i s \<Longrightarrow> i \<le> j \<Longrightarrow> j < i + k \<Longrightarrow> int j \<notin> s"
proof (induction k)
  case (Suc k)
  then have "count_bits (i + k) s = count_bits i s" "int (i + k) \<notin> s"
    using count_bits_le [of i s k] by (auto split: if_splits)
  then show ?case using Suc by (cases "j = i + k") auto
qed simp

definition bits_left :: "nat \<Rightarrow> nat \<Rightarrow> int set \<Rightarrow> int" where
  "bits_left i k s = int (count_bits (i + k) s) - int (count_bits i s)"

lemma bits_left_Suc: "bits_left i (Suc k) s = of_bool (int i \<in> s) + bits_left (Suc i) k s"
  by (simp add: bits_left_def)

lemma bits_left_nonneg: "0 \<le> bits_left i k s"
  using count_bits_le [of i s k] by (simp add: bits_left_def)

lemma bits_left_none: "bits_left i k s = 0 \<Longrightarrow> i \<le> j \<Longrightarrow> j < i + k \<Longrightarrow> int j \<notin> s"
  using count_bits_none by (simp add: bits_left_def)

lemma bits_left_cong:
  "(\<And>j. i \<le> j \<Longrightarrow> j < i + k \<Longrightarrow> (int j \<in> s) = (int j \<in> s')) \<Longrightarrow> bits_left i k s = bits_left i k s'"
proof (induction k)
  case (Suc k)
  have "(int (i + k) \<in> s) = (int (i + k) \<in> s')" by (rule Suc.prems) simp_all
  then show ?case using Suc by (auto simp: bits_left_def split: if_splits)
qed (simp add: bits_left_def)

text \<open>How a record may change while events are collected: it keeps its descriptor, callback and
  flags, and a descriptor of \<open>s\<close> becomes pending.\<close>

definition collected :: "int set \<Rightarrow> fdev \<Rightarrow> fdev \<Rightarrow> bool" where
  "collected s f g \<longleftrightarrow> fd_table g = fd_table f \<and> select_n g = select_n f \<and> dom (fdes g) = dom (fdes f) \<and>
     (\<forall>x e. fdes f x = Some e \<longrightarrow> (\<exists>e'. fdes g x = Some e' \<and> fde_fd e' = fde_fd e \<and>
        fde_func e' = fde_func e \<and> bit (fde_state e') 8 = bit (fde_state e) 8 \<and>
        (bit (fde_state e) 9 \<longrightarrow> bit (fde_state e') 9) \<and>
        (bit (fde_state e) 8 \<and> fde_fd e \<in> s \<longrightarrow> bit (fde_state e') 9)))"

lemma collected_refl: "s \<inter> {fde_fd e | x e. active f x e} = {} \<Longrightarrow> collected s f f"
  unfolding collected_def active_def by auto

lemma collected_trans:
  assumes "collected s f g" and "collected s' g h"
  shows "collected (s \<union> s') f h"
  unfolding collected_def
proof (intro conjI allI impI)
  fix x e
  assume "fdes f x = Some e"
  then obtain e1 where e1: "fdes g x = Some e1" "fde_fd e1 = fde_fd e" "fde_func e1 = fde_func e"
    "bit (fde_state e1) 8 = bit (fde_state e) 8" "bit (fde_state e) 9 \<longrightarrow> bit (fde_state e1) 9"
    "bit (fde_state e) 8 \<and> fde_fd e \<in> s \<longrightarrow> bit (fde_state e1) 9"
    using assms(1) unfolding collected_def by blast
  then obtain e2 where "fdes h x = Some e2" "fde_fd e2 = fde_fd e1" "fde_func e2 = fde_func e1"
    "bit (fde_state e2) 8 = bit (fde_state e1) 8" "bit (fde_state e1) 9 \<longrightarrow> bit (fde_state e2) 9"
    "bit (fde_state e1) 8 \<and> fde_fd e1 \<in> s' \<longrightarrow> bit (fde_state e2) 9"
    using assms(2) unfolding collected_def by blast
  then show "\<exists>e'. fdes h x = Some e' \<and> fde_fd e' = fde_fd e \<and> fde_func e' = fde_func e \<and>
      bit (fde_state e') 8 = bit (fde_state e) 8 \<and> (bit (fde_state e) 9 \<longrightarrow> bit (fde_state e') 9) \<and>
      (bit (fde_state e) 8 \<and> fde_fd e \<in> s \<union> s' \<longrightarrow> bit (fde_state e') 9)"
    using e1 by auto
qed (use assms in \<open>simp_all add: collected_def\<close>)

lemma collected_mono: "collected s f g \<Longrightarrow> s' \<inter> {fde_fd e | x e. active f x e} \<subseteq> s \<Longrightarrow> collected s' f g"
  unfolding collected_def active_def by fastforce

lemma signal_collected:
  assumes inv: "fdev_inv f" and act: "active f x e"
  shows "collected {fde_fd e} f (signal x e ev f)"
proof -
  have x: "fdes f x = Some e" using act by (simp add: active_def)
  have other: "y = x" if "fdes f y = Some ey" "bit (fde_state ey) 8" "fde_fd ey = fde_fd e" for y ey
    using that inv act active_same_fd [of f y ey x e] by (simp add: fdev_inv_def active_def)
  show ?thesis
    unfolding collected_def signal_def using x
    by (auto simp: bit_fde dest: other)
qed

lemma process_loop_done:
  assumes inv: "fdev_inv f" and ik: "i + k = nat (select_n f)"
    and z: "bits_left i k r = 0" "bits_left i k w = 0" "bits_left i k e = 0"
  shows "collected ((r \<union> w \<union> e) \<inter> {int i..}) f f"
proof (rule collected_refl)
  have "fde_fd fe \<notin> (r \<union> w \<union> e) \<inter> {int i..}" if act: "active f x fe" for x fe
  proof
    assume a: "fde_fd fe \<in> (r \<union> w \<union> e) \<inter> {int i..}"
    have t: "table_inv f" using inv by (simp add: fdev_inv_def)
    have "i \<le> nat (fde_fd fe)" "nat (fde_fd fe) < i + k" and fd: "int (nat (fde_fd fe)) = fde_fd fe"
      using a table_invD(1,5) [OF t act] ik by auto
    then have "fde_fd fe \<notin> r" "fde_fd fe \<notin> w" "fde_fd fe \<notin> e"
      using bits_left_none [OF z(1)] bits_left_none [OF z(2)] bits_left_none [OF z(3)] by fastforce+
    then show False using a by simp
  qed
  then show "(r \<union> w \<union> e) \<inter> {int i..} \<inter> {fde_fd e |x e. active f x e} = {}" by blast
qed

lemma process_loop_inv:
  assumes "fdev_inv f" and "i + k = nat (select_n f)"
    and "\<forall>j. i \<le> j \<and> j < i + k \<and> int j \<in> r \<union> w \<union> e \<longrightarrow> (\<exists>x. fd_table f ! j = Fde x)"
    and "n = bits_left i k r + bits_left i k w + bits_left i k e"
  shows "\<exists>g. process_loop k i n r w e f = Inr g \<and> fdev_inv g \<and> collected ((r \<union> w \<union> e) \<inter> {int i..}) f g"
  using assms
proof (induction k arbitrary: i n f)
  case 0
  then show ?case using process_loop_done [of f i 0 r w e] by (simp add: bits_left_def)
next
  case (Suc k)
  note inv = Suc.prems(1)
  have t: "table_inv f" using inv by (simp add: fdev_inv_def)
  have i: "i < length (fd_table f)" "int i < FD_SETSIZE"
    using t Suc.prems(2) by (auto simp: table_inv_def FD_LIMIT_def FD_SETSIZE_def)
  have rest: "Suc i + k = nat (select_n f)"
    "\<forall>j. Suc i \<le> j \<and> j < Suc i + k \<and> int j \<in> r \<union> w \<union> e \<longrightarrow> (\<exists>x. fd_table f ! j = Fde x)"
    using Suc.prems(2,3) by auto
  let ?n = "bits_left (Suc i) k r + bits_left (Suc i) k w + bits_left (Suc i) k e"
  have n': "n - of_bool (int i \<in> r) - of_bool (int i \<in> w) - of_bool (int i \<in> e) = ?n"
    using Suc.prems(4) by (simp add: bits_left_Suc)
  consider "n \<le> 0" | "0 < n" "int i \<notin> r \<union> w \<union> e" | "0 < n" "int i \<in> r \<union> w \<union> e" by linarith
  then show ?case
  proof cases
    case 1
    then have "bits_left i (Suc k) r = 0" "bits_left i (Suc k) w = 0" "bits_left i (Suc k) e = 0"
      using Suc.prems(4) bits_left_nonneg [of i "Suc k" r] bits_left_nonneg [of i "Suc k" w]
        bits_left_nonneg [of i "Suc k" e] by linarith+
    then show ?thesis using 1 inv process_loop_done [OF inv Suc.prems(2)] by simp
  next
    case 2
    have "n = ?n" using n' 2(2) by simp
    then have "process_loop (Suc k) i n r w e f = process_loop k (Suc i) ?n r w e f"
      using process_loop_skip [OF 2(1) i(2) 2(2)] by metis
    moreover have "(r \<union> w \<union> e) \<inter> {int i..} = (r \<union> w \<union> e) \<inter> {int (Suc i)..}"
      using 2(2) by (auto simp: le_less)
    ultimately show ?thesis using Suc.IH [OF inv rest refl] by metis
  next
    case 3
    obtain x where x: "fd_table f ! i = Fde x" using Suc.prems(3) 3(2) by auto
    obtain fe where fe: "active f x fe" "fde_fd fe = int i"
      using t i x unfolding table_inv_def by blast
    then have fx: "fdes f x = Some fe" by (simp add: active_def)
    obtain ev where eq: "process_loop (Suc k) i n r w e f = process_loop k (Suc i) ?n r w e (signal x fe ev f)"
      using process_loop_signal [OF 3(1) i x fx 3(2)] n' by metis
    have step: "collected {int i} f (signal x fe ev f)" using signal_collected [OF inv fe(1)] fe(2) by simp
    obtain h where h: "process_loop k (Suc i) ?n r w e (signal x fe ev f) = Inr h" "fdev_inv h"
      "collected ((r \<union> w \<union> e) \<inter> {int (Suc i)..}) (signal x fe ev f) h"
      using Suc.IH [of "signal x fe ev f" "Suc i" ?n] signal_inv [OF inv fx] rest
      by (auto simp: signal_def)
    have "collected ((r \<union> w \<union> e) \<inter> {int i..}) f h"
      by (rule collected_mono [OF collected_trans [OF step h(3)]]) auto
    then show ?thesis using eq h by metis
  qed
qed

lemma fd_check_inv:
  assumes "table_inv f" and "i + k = nat (select_n f)"
  shows "\<exists>r'. fdevent_fd_check k i bad f r n = Inr (nat (int n + bits_left i k r') , r \<union> r') \<and>
    r' \<subseteq> {int j | j x. i \<le> j \<and> j < i + k \<and> fd_table f ! j = Fde x}"
  using assms(2)
proof (induction k arbitrary: i r n)
  case 0
  then show ?case by (auto simp: bits_left_def)
next
  case (Suc k)
  have i: "i < length (fd_table f)" "i < FD_LIMIT" "int i < FD_SETSIZE"
    using assms(1) Suc.prems by (auto simp: table_inv_def FD_LIMIT_def FD_SETSIZE_def)
  then have ng: "fd_table f ! i \<noteq> Garbage" using assms(1) by (simp add: table_inv_def)
  have sub: "{int j | j x. Suc i \<le> j \<and> j < Suc i + k \<and> fd_table f ! j = Fde x}
      \<subseteq> {int j | j x. i \<le> j \<and> j < i + Suc k \<and> fd_table f ! j = Fde x}" (is "?S' \<subseteq> ?S")
    by force
  have IH: "\<exists>r'. fdevent_fd_check k (Suc i) bad f r n = Inr (nat (int n + bits_left (Suc i) k r'), r \<union> r') \<and>
      r' \<subseteq> ?S'" for r n
    using Suc.IH [of "Suc i" r n] Suc.prems by simp
  have low: "int i \<notin> r'" if "r' \<subseteq> ?S'" for r' using that by auto
  show ?case
  proof (cases "(\<exists>x. fd_table f ! i = Fde x) \<and> bad (int i)")
    case False
    then have "fdevent_fd_check (Suc k) i bad f r n = fdevent_fd_check k (Suc i) bad f r n"
      using i ng by (auto simp: table_slot_def split: slot.splits)
    moreover obtain r' where "fdevent_fd_check k (Suc i) bad f r n =
        Inr (nat (int n + bits_left (Suc i) k r'), r \<union> r')" "r' \<subseteq> ?S'" using IH by blast
    ultimately show ?thesis using low sub by (intro exI [of _ r']) (auto simp: bits_left_Suc)
  next
    case True
    then obtain x where x: "fd_table f ! i = Fde x" "bad (int i)" by blast
    then have "fdevent_fd_check (Suc k) i bad f r n = fdevent_fd_check k (Suc i) bad f (insert (int i) r) (Suc n)"
      using i by (simp add: table_slot_def fd_bit_def)
    moreover obtain r' where r': "fdevent_fd_check k (Suc i) bad f (insert (int i) r) (Suc n) =
        Inr (nat (int (Suc n) + bits_left (Suc i) k r'), insert (int i) r \<union> r')" "r' \<subseteq> ?S'" using IH by blast
    moreover have "bits_left (Suc i) k (insert (int i) r') = bits_left (Suc i) k r'"
      by (rule bits_left_cong) auto
    ultimately show ?thesis using x sub
      by (intro exI [of _ "insert (int i) r'"]) (auto simp: bits_left_Suc add.assoc)
  qed
qed

lemma bits_left_all: "bits_left 0 k s = int (count_bits k s)"
  by (simp add: bits_left_def)

lemma set_fd_in_table:
  assumes "fdev_inv f" and "fd \<in> read_fds f \<union> write_fds f \<union> error_fds f"
  shows "\<exists>x. fd_table f ! nat fd = Fde x"
  using assms table_invD(4) [of f] by (auto simp: fdev_inv_def sets_inv_def watched_def)

text \<open>What \<open>select\<close> promises: the sets it leaves are subsets of the ones it was given.\<close>

definition select_ok :: "select_res \<Rightarrow> fdev \<Rightarrow> bool" where
  "select_ok sel f \<longleftrightarrow> (case sel of
      Sel_ready r w e \<Rightarrow> r \<subseteq> read_fds f \<and> w \<subseteq> write_fds f \<and> e \<subseteq> error_fds f | _ \<Rightarrow> True)"

definition ready_fds :: "select_res \<Rightarrow> int set" where
  "ready_fds sel = (case sel of Sel_ready r w e \<Rightarrow> r \<union> w \<union> e | _ \<Rightarrow> {})"

lemma process_go:
  assumes inv: "fdev_inv f" and sub: "r \<union> w \<union> e \<subseteq> read_fds f \<union> write_fds f \<union> error_fds f"
    and m: "m = nat (select_n f)"
  shows "\<exists>g. (let n = count_bits m r + count_bits m w + count_bits m e in
        if n = 0 then
          ebind (fdevent_fd_check m 0 bad f r 0) (\<lambda>(n, r). process_loop m 0 (int n) r w e f)
        else process_loop m 0 (int n) r w e f) = Inr g \<and> fdev_inv g \<and> collected (r \<union> w \<union> e) f g"
proof -
  have t: "table_inv f" using inv by (simp add: fdev_inv_def)
  have loop: "\<exists>g. process_loop m 0 n r' w e f = Inr g \<and> fdev_inv g \<and> collected (r \<union> w \<union> e) f g"
    if r': "r \<subseteq> r'" "\<And>j. int j \<in> r' \<Longrightarrow> \<exists>x. fd_table f ! j = Fde x"
      and n: "n = bits_left 0 m r' + bits_left 0 m w + bits_left 0 m e" for r' n
  proof -
    have "\<exists>x. fd_table f ! j = Fde x" if "int j \<in> r' \<union> w \<union> e" for j
      using that r'(2) set_fd_in_table [OF inv, of "int j"] sub by auto
    then obtain g where g: "process_loop m 0 n r' w e f = Inr g" "fdev_inv g"
      "collected ((r' \<union> w \<union> e) \<inter> {int 0..}) f g"
      using process_loop_inv [OF inv _ _ n] m by auto
    have "collected (r \<union> w \<union> e) f g"
      by (rule collected_mono [OF g(3)]) (use r'(1) table_invD(1) [OF t] in auto)
    then show ?thesis using g by blast
  qed
  have old: "\<exists>x. fd_table f ! j = Fde x" if "int j \<in> r" for j
    using that sub set_fd_in_table [OF inv, of "int j"] by auto
  show ?thesis
  proof (cases "count_bits m r + count_bits m w + count_bits m e = 0")
    case False
    show ?thesis unfolding Let_def if_not_P [OF False] by (rule loop) (simp_all add: old bits_left_all)
  next
    case True
    obtain r' where r': "fdevent_fd_check m 0 bad f r 0 = Inr (nat (int 0 + bits_left 0 m r'), r \<union> r')"
      "r' \<subseteq> {int j | j x. 0 \<le> j \<and> j < 0 + m \<and> fd_table f ! j = Fde x}"
      using fd_check_inv [OF t, of 0 m bad r 0] m by auto
    have none: "int j \<notin> r" if "j < m" for j
      using True that count_bits_none [of 0 m r j] by simp
    have "bits_left 0 m (r \<union> r') = bits_left 0 m r'"
      by (rule bits_left_cong) (use none in auto)
    moreover have new: "\<exists>x. fd_table f ! j = Fde x" if "int j \<in> r \<union> r'" for j
      using that old r'(2) by auto
    moreover have "bits_left 0 m w = 0" "bits_left 0 m e = 0" using True by (simp_all add: bits_left_all)
    ultimately have "\<exists>g. process_loop m 0 (bits_left 0 m r') (r \<union> r') w e f = Inr g \<and> fdev_inv g \<and>
        collected (r \<union> w \<union> e) f g"
      using new by (intro loop) auto
    then show ?thesis using True r'(1) bits_left_nonneg [of 0 m r'] by simp
  qed
qed

text \<open>C28: A turn of \<open>fdevent_process\<close> never stops on a missing table entry and never reads an
  unset one, whatever \<open>select\<close> answers within its contract and whichever descriptors have
  gone bad; it keeps the invariant, and every descriptor that was reported ready has its event
  on the pending list.\<close>

theorem fdevent_process_delivers:
  assumes "fdev_inv f" and "select_ok sel f"
  shows "\<exists>g. fdevent_process sel bad f = Inr g \<and> fdev_inv g \<and>
    (\<forall>x e. fdes f x = Some e \<and> fde_state e AND FDE_ACTIVE \<noteq> 0 \<and> fde_fd e \<in> ready_fds sel \<longrightarrow>
       x \<in> set (list_pending g))"
proof -
  have finish: ?thesis
    if g: "fdevent_process sel bad f = Inr g" "fdev_inv g" "collected (ready_fds sel) f g" for g
  proof -
    have "x \<in> set (list_pending g)"
      if x: "fdes f x = Some e" "bit (fde_state e) 8 \<and> fde_fd e \<in> ready_fds sel" for x e
    proof -
      obtain e' where "fdes g x = Some e'" "bit (fde_state e') 9"
        using g(3) x unfolding collected_def by (metis (no_types, lifting))
      moreover have "pending_inv g" using g(2) by (simp add: fdev_inv_def)
      ultimately show ?thesis unfolding pending_inv_def by simp
    qed
    then show ?thesis using g(1,2) by (intro exI [of _ g]) (simp add: flag_bit)
  qed
  show ?thesis
  proof (cases sel)
    case (Sel_ready r w e)
    have "r \<union> w \<union> e \<subseteq> read_fds f \<union> write_fds f \<union> error_fds f"
      using assms(2) Sel_ready by (auto simp: select_ok_def)
    from process_go [OF assms(1) this refl, of bad]
    obtain g where "fdevent_process sel bad f = Inr g" "fdev_inv g" "collected (r \<union> w \<union> e) f g"
      unfolding fdevent_process_def Sel_ready select_res.case Let_def by blast
    then show ?thesis using finish by (simp add: ready_fds_def Sel_ready)
  next
    case Sel_EBADF
    have "{} \<union> {} \<union> {} \<subseteq> read_fds f \<union> write_fds f \<union> error_fds f" by simp
    from process_go [OF assms(1) this refl, of bad]
    obtain g where "fdevent_process sel bad f = Inr g" "fdev_inv g" "collected ({} \<union> {} \<union> {}) f g"
      unfolding fdevent_process_def Sel_EBADF select_res.case Let_def by blast
    then show ?thesis using finish by (simp add: ready_fds_def Sel_EBADF)
  qed (use assms(1) in \<open>simp_all add: fdevent_process_def ready_fds_def exI [of _ f]\<close>)
qed

text \<open>An event loop with one readable socket, for the witnesses.\<close>

definition sample_fdev :: fdev where
  "sample_fdev = fdev_init\<lparr>fdes := [FSock 0 \<mapsto> (fresh_event 5 Local_socket_event_func)\<lparr>fde_state := 0x0101\<rparr>],
     fd_table := (first_table [])[5 := Fde (FSock 0)], read_fds := {5}, select_n := 6\<rparr>"

lemma sample_state_bits: "bit (0x0101 :: u16) k \<longleftrightarrow> k = 0 \<or> k = 8"
proof -
  have eq: "(0x0101 :: u16) = FDE_READ OR FDE_ACTIVE" by (simp add: fde_flag_defs)
  show ?thesis unfolding eq by (simp add: bit_fde)
qed

lemma sample_fdev_inv: "fdev_inv sample_fdev"
proof -
  have act: "active sample_fdev x e \<longleftrightarrow>
      x = FSock 0 \<and> e = (fresh_event 5 Local_socket_event_func)\<lparr>fde_state := 0x0101\<rparr>" for x e
    by (auto simp: active_def sample_fdev_def sample_state_bits)
  have len: "length (first_table []) = 256" by (simp add: first_table_def)
  have "fd_table sample_fdev ! i = (if i = 5 then Fde (FSock 0) else if i < 128 then Null else Garbage)"
    if "i < 256" for i
    using that by (auto simp: sample_fdev_def first_table_def nth_update_below nth_append)
  moreover have "length (fd_table sample_fdev) = 256" by (simp add: sample_fdev_def len)
  ultimately have "table_inv sample_fdev"
    by (auto simp: table_inv_def act fresh_event_def FD_LIMIT_def split: if_splits)
      (simp_all add: sample_fdev_def)
  moreover have "pending_inv sample_fdev"
    by (auto simp: pending_inv_def sample_fdev_def fdev_init_def sample_state_bits)
  moreover have "sets_inv sample_fdev"
    by (auto simp: sets_inv_def watched_def act fresh_event_def sample_state_bits)
      (simp_all add: sample_fdev_def fdev_init_def)
  ultimately show ?thesis by (simp add: fdev_inv_def)
qed

theorem fdevent_process_delivers_witness:
  "\<exists>g. fdevent_process (Sel_ready {5} {} {}) (\<lambda>_. False) sample_fdev = Inr g \<and> fdev_inv g \<and>
     FSock 0 \<in> set (list_pending g)"
proof -
  have "select_ok (Sel_ready {5} {} {}) sample_fdev"
    by (simp add: select_ok_def sample_fdev_def)
  moreover have "fdes sample_fdev (FSock 0) = Some ((fresh_event 5 Local_socket_event_func)\<lparr>fde_state := 0x0101\<rparr>)"
    by (simp add: sample_fdev_def)
  ultimately show ?thesis
    using fdevent_process_delivers [OF sample_fdev_inv, of "Sel_ready {5} {} {}" "\<lambda>_. False"]
    by (fastforce simp: ready_fds_def flag_bit sample_state_bits fresh_event_def)
qed

section \<open>The interface of the owners\<close>

text \<open>What the owners of event records rely on: the operations succeed on a record that is
  allocated, and change nothing but it.\<close>

locale event_registry =
  fixes install :: "'id \<Rightarrow> int \<Rightarrow> 'fn \<Rightarrow> 'f \<Rightarrow> err + 'f"
    and add del :: "'id \<Rightarrow> u16 \<Rightarrow> 'f \<Rightarrow> err + 'f"
    and remove :: "'id \<Rightarrow> 'f \<Rightarrow> err + 'f"
    and release :: "'id \<Rightarrow> 'f \<Rightarrow> 'f"
    and inv :: "'f \<Rightarrow> bool"
    and owned idle :: "'f \<Rightarrow> 'id \<Rightarrow> bool"
    and unused :: "'f \<Rightarrow> int \<Rightarrow> bool"
  assumes install_law: "inv f \<Longrightarrow> unused f fd \<Longrightarrow> \<not> owned f x \<Longrightarrow>
      \<exists>f'. install x fd fn f = Inr f' \<and> inv f' \<and> owned f' = (owned f)(x := True)"
    and add_law: "inv f \<Longrightarrow> owned f x \<Longrightarrow> \<exists>f'. add x ev f = Inr f' \<and> inv f' \<and> owned f' = owned f"
    and del_law: "inv f \<Longrightarrow> owned f x \<Longrightarrow> \<exists>f'. del x ev f = Inr f' \<and> inv f' \<and> owned f' = owned f"
    and remove_law: "inv f \<Longrightarrow> owned f x \<Longrightarrow>
      \<exists>f'. remove x f = Inr f' \<and> inv f' \<and> owned f' = owned f \<and> idle f' x"
    and release_law: "inv f \<Longrightarrow> owned f x \<Longrightarrow> idle f x \<Longrightarrow>
      inv (release x f) \<and> owned (release x f) = (owned f)(x := False)"
begin

lemma destroy:
  assumes "inv f" and "owned f x"
  shows "\<exists>f'. remove x f = Inr f' \<and> inv (release x f') \<and> owned (release x f') = (owned f)(x := False)"
  using remove_law [OF assms] release_law assms(2) by metis

end

definition owned :: "fdev \<Rightarrow> fde_id \<Rightarrow> bool" where
  "owned f x \<longleftrightarrow> fdes f x \<noteq> None"

definition idle :: "fdev \<Rightarrow> fde_id \<Rightarrow> bool" where
  "idle f x \<longleftrightarrow> (\<exists>e. fdes f x = Some e \<and> fde_state e = 0)"

interpretation ev: event_registry fdevent_install fdevent_add fdevent_del fdevent_remove fde_free
  fdev_inv owned idle free_fd
proof
  fix f x fd fn and ev :: u16
  show "fdev_inv f \<Longrightarrow> free_fd f fd \<Longrightarrow> \<not> owned f x \<Longrightarrow>
      \<exists>f'. fdevent_install x fd fn f = Inr f' \<and> fdev_inv f' \<and> owned f' = (owned f)(x := True)"
    using fdevent_install_inv [of f fd x fn] by (auto simp: owned_def fun_eq_iff)
  have set: "\<exists>f'. fdevent_set x ev f = Inr f' \<and> fdev_inv f' \<and> owned f' = owned f"
    if "fdev_inv f" "fdes f x = Some e" for e ev
    using fdevent_set_inv [OF that, of ev] that(2) by (auto simp: owned_def fun_eq_iff)
  show "fdev_inv f \<Longrightarrow> owned f x \<Longrightarrow> \<exists>f'. fdevent_add x ev f = Inr f' \<and> fdev_inv f' \<and> owned f' = owned f"
    using set by (auto simp: owned_def fdevent_add_eq)
  show "fdev_inv f \<Longrightarrow> owned f x \<Longrightarrow> \<exists>f'. fdevent_del x ev f = Inr f' \<and> fdev_inv f' \<and> owned f' = owned f"
    using set by (auto simp: owned_def fdevent_del_eq)
  show "fdev_inv f \<Longrightarrow> owned f x \<Longrightarrow>
      \<exists>f'. fdevent_remove x f = Inr f' \<and> fdev_inv f' \<and> owned f' = owned f \<and> idle f' x"
    using fdevent_remove_inv [of f x] by (fastforce simp: owned_def idle_def fun_eq_iff)
  show "fdev_inv f \<Longrightarrow> owned f x \<Longrightarrow> idle f x \<Longrightarrow>
      fdev_inv (fde_free x f) \<and> owned (fde_free x f) = (owned f)(x := False)"
    using fde_free_inv [of f x] by (auto simp: owned_def idle_def fde_free_def fun_eq_iff)
qed

section \<open>Properties of the interface\<close>

text \<open>\<open>fdevent_set\<close> on an active record succeeds, keeps the invariant, and makes the three
  sets handed to \<open>select\<close> mirror the requested events: the descriptor is in the read, write
  or error set exactly if the event was asked for.\<close>

theorem fdevent_set_mirrors:
  assumes "fdev_inv f" and "fdes f x = Some e" and "fde_state e AND FDE_ACTIVE \<noteq> 0"
  shows "\<exists>g. fdevent_set x ev f = Inr g \<and> fdev_inv g \<and>
    (fde_fd e \<in> read_fds g \<longleftrightarrow> ev AND FDE_READ \<noteq> 0) \<and>
    (fde_fd e \<in> write_fds g \<longleftrightarrow> ev AND FDE_WRITE \<noteq> 0) \<and>
    (fde_fd e \<in> error_fds g \<longleftrightarrow> ev AND FDE_ERROR \<noteq> 0)"
proof -
  obtain g e' where g: "fdevent_set x ev f = Inr g" "fdev_inv g" "fdes g = (fdes f)(x \<mapsto> e')"
    "fde_fd e' = fde_fd e" "bit (fde_state e') 8" "\<forall>k < 8. bit (fde_state e') k = bit ev k"
    using fdevent_set_inv [OF assms(1,2), of ev] assms(3) by (auto simp: flag_bit)
  have t: "table_inv g" and act: "active g x e'" using g by (simp_all add: fdev_inv_def active_def)
  have "fde_fd e \<in> watched g k \<longleftrightarrow> bit ev k" if k: "k < 8" for k
  proof
    assume "fde_fd e \<in> watched g k"
    then obtain y ey where y: "active g y ey" "fde_fd ey = fde_fd e'" "bit (fde_state ey) k"
      using g(4) by (auto simp: watched_def)
    then have "y = x" using active_same_fd [OF t y(1) act] by simp
    then have "ey = e'" using y(1) act by (simp add: active_def)
    then show "bit ev k" using y(3) g(6) k by simp
  next
    assume "bit ev k"
    then have "bit (fde_state e') k" using g(6) k by simp
    then show "fde_fd e \<in> watched g k" using act g(4) unfolding watched_def by auto
  qed
  then show ?thesis using g(1,2) by (auto simp: fdev_inv_def sets_inv_def flag_bit)
qed

theorem fdevent_set_mirrors_witness:
  "\<exists>g. fdevent_set (FSock 0) FDE_WRITE sample_fdev = Inr g \<and> fdev_inv g \<and> 5 \<notin> read_fds g \<and> 5 \<in> write_fds g"
proof -
  let ?e = "(fresh_event 5 Local_socket_event_func)\<lparr>fde_state := 0x0101\<rparr>"
  have "fdes sample_fdev (FSock 0) = Some ?e" by (simp add: sample_fdev_def)
  moreover have "fde_state ?e AND FDE_ACTIVE \<noteq> 0" by (simp add: flag_bit sample_state_bits)
  ultimately obtain g where "fdevent_set (FSock 0) FDE_WRITE sample_fdev = Inr g" "fdev_inv g"
    "fde_fd ?e \<in> read_fds g \<longleftrightarrow> FDE_WRITE AND FDE_READ \<noteq> 0"
    "fde_fd ?e \<in> write_fds g \<longleftrightarrow> FDE_WRITE AND FDE_WRITE \<noteq> 0"
    using fdevent_set_mirrors [OF sample_fdev_inv] by metis
  then show ?thesis by (intro exI [of _ g]) (simp add: fresh_event_def fde_flag_defs)
qed

text \<open>On a record whose event is already pending, \<open>fdevent_set\<close> clears from the events to
  deliver exactly the ones that are asked for, and keeps the ones that no longer are: the
  comment in the code announces the opposite.\<close>

theorem fdevent_set_keeps_unwanted:
  assumes "fdev_inv f" and "fdes f x = Some e" and "fde_state e AND FDE_PENDING \<noteq> 0"
    and "fde_state e AND FDE_EVENTMASK \<noteq> ev AND FDE_EVENTMASK"
  shows "\<exists>g e'. fdevent_set x ev f = Inr g \<and> fdes g x = Some e' \<and>
    fde_events e' = fde_events e AND NOT (ev AND FDE_EVENTMASK)"
proof -
  have "fde_events (set_event ev e) = fde_events e AND NOT (ev AND FDE_EVENTMASK)"
    using assms(3) by (simp add: set_event_def Let_def bit_new_state flag_bit)
  then show ?thesis using fdevent_set_eq [OF assms(1,2,4)] by simp
qed

text \<open>A socket whose readable event is pending stops watching for input: the input event stays
  to be delivered.\<close>

theorem fdevent_set_keeps_unwanted_witness:
  "\<exists>g e'. fdevent_set (FSock 0) 0 (signal (FSock 0) ((fresh_event 5 Local_socket_event_func)\<lparr>fde_state := 0x0101\<rparr>)
     FDE_READ sample_fdev) = Inr g \<and> fdes g (FSock 0) = Some e' \<and> fde_events e' = FDE_READ"
proof -
  let ?e = "(fresh_event 5 Local_socket_event_func)\<lparr>fde_state := 0x0101\<rparr>"
  let ?f = "signal (FSock 0) ?e FDE_READ sample_fdev"
  have "fdes sample_fdev (FSock 0) = Some ?e" by (simp add: sample_fdev_def)
  from signal_inv [OF sample_fdev_inv this, of FDE_READ] have "fdev_inv ?f" .
  moreover have "fdes ?f (FSock 0) = Some (?e\<lparr>fde_events := FDE_READ, fde_state := 0x0101 OR FDE_PENDING\<rparr>)"
    by (simp add: signal_def sample_state_bits) (simp add: fresh_event_def)
  moreover have "(0x0101 OR FDE_PENDING) AND FDE_PENDING \<noteq> 0" by (simp add: fde_flag_defs)
  moreover have "(0x0101 OR FDE_PENDING) AND FDE_EVENTMASK \<noteq> 0 AND FDE_EVENTMASK"
    by (simp add: fde_flag_defs FDE_EVENTMASK_def)
  ultimately show ?thesis
    using fdevent_set_keeps_unwanted [of ?f "FSock 0" _ 0] by auto
qed

lemma disconnect_scan_garbage:
  assumes "\<forall>j. i \<le> j \<and> j \<le> g \<longrightarrow> j < length tbl" and "i \<le> g" and "g < i + k"
    and "\<forall>j. i \<le> j \<and> j < g \<longrightarrow> tbl ! j \<noteq> Garbage" and "tbl ! g = Garbage"
  shows "disconnect_scan k i tbl n = Inl Uninitialised"
  using assms
proof (induction k arbitrary: i n)
  case (Suc k)
  then have i: "i < length tbl" by simp
  show ?case
  proof (cases "i = g")
    case True
    then show ?thesis using i Suc.prems(5) by simp
  next
    case False
    then have "disconnect_scan k (Suc i) tbl n = Inl Uninitialised" for n
      using Suc.prems by (intro Suc.IH) auto
    moreover have "tbl ! i \<noteq> Garbage" using Suc.prems False by simp
    ultimately show ?thesis using i by (simp split: slot.split)
  qed
qed simp

text \<open>\<open>fdevent_register\<close> clears only half of the slots it adds to the table (it counts
  \<open>sizeof(int)\<close> bytes for each pointer): registering a descriptor between 129 and 255 as the
  first one and removing it again makes \<open>fdevent_disconnect\<close> read a slot that was never
  written.\<close>

theorem fd_table_half_cleared:
  assumes "128 < fd" and "fd < 256"
  shows "ebind (fdevent_install x fd func fdev_init) (fdevent_remove x) = Inl Uninitialised"
proof -
  let ?tbl = "(replicate 128 Null @ replicate 128 Garbage)[nat fd := Fde x]"
  have "nat fd < 256" using assms by linarith
  then have g: "grow_table_max 256 (nat fd) = 256" by (subst grow_table_max.simps) simp
  have "disconnect_scan (nat (fd + 1)) 0 ?tbl 0 = Inl Uninitialised"
  proof (rule disconnect_scan_garbage [where g = 128])
    show "(128::nat) < 0 + nat (fd + 1)" using assms by linarith
    show "\<forall>j. 0 \<le> j \<and> j < 128 \<longrightarrow> ?tbl ! j \<noteq> Garbage"
      using assms by (simp add: nth_update_below nth_append)
    show "?tbl ! 128 = Garbage" using assms by (simp add: nth_update_below nth_append)
  qed simp_all
  then show ?thesis using assms g
    by (simp add: fdevent_install_def fdevent_register_def get_fde_def put_fde_def fdev_init_def Let_def
        new_slots_def ptr_size_def fdevent_connect_def fdevent_remove_def flag_bit bit_fde
        fdevent_disconnect_def fd_bit_def FD_SETSIZE_def)
qed

theorem fd_table_half_cleared_witness:
  "ebind (fdevent_install FSubproc 200 Fdevent_subproc_event_func fdev_init) (fdevent_remove FSubproc) =
   Inl Uninitialised"
  using fd_table_half_cleared [of 200] by simp

end
