(* ===== verification/Adb_World.thy ===== *)
theory Adb_World
  imports Adb_Usb Adb_Fdevent
begin

text \<open>
  The state of the server process (adb.h, and the file-level variables of adb.c, sockets.c,
  transport.c). Sockets, transports and listeners are objects in heaps, named by the address
  that allocation gave them; an address is never given out twice, so a use after \<open>free\<close> is
  a lookup that fails. The intrusive lists are lists of addresses. A function pointer is a
  constructor of the datatype of the functions it may point to.

  The kernel side of every descriptor is a script, as in the exact-length transfers:
  \<open>w_ws\<close> and \<open>w_rs\<close> hold what the next writes and reads on it will give, \<open>w_out\<close> collects
  what it accepted, \<open>w_newfds\<close> holds what the next calls that open a descriptor return,
  \<open>w_newthreads\<close> whether the next calls of \<open>adb_thread_create\<close> succeed, and \<open>w_log\<close> records the
  descriptors that were shut down and closed and the service threads that were started.
\<close>

section \<open>Data\<close>

type_synonym addr = nat

datatype enqueue_fn = Local_enqueue | Remote_enqueue | Smart_enqueue | Tracker_enqueue
datatype ready_fn = Local_ready | Local_ready_notify | Remote_ready | Smart_ready | Tracker_ready
datatype shutdown_fn = Remote_shutdown
datatype close_fn = Local_close | Local_close_notify | Remote_close | Smart_close | Tracker_close

text \<open>\<open>s_pkts\<close> is the queue from \<open>pkt_first\<close> to \<open>pkt_last\<close>; \<open>s_update_needed\<close> is the field of
  a \<open>device_tracker\<close>. The \<open>fdevent\<close> of socket \<open>a\<close> is \<open>FSock a\<close>.\<close>

record asocket =
  s_id :: u32
  s_closing :: bool
  s_exit_on_close :: bool
  s_peer :: "addr option"
  s_fd :: int
  s_pkts :: "apacket list"
  s_enqueue :: enqueue_fn
  s_ready :: ready_fn
  s_shutdown :: "shutdown_fn option"
  s_close :: close_fn
  s_transport :: "addr option"
  s_update_needed :: bool

text \<open>A registered \<open>adisconnect\<close>, with the function it calls and the object it calls it on.\<close>

datatype disconnect = Dis_remote addr | Dis_listener addr

datatype transport_type = kTransportUsb | kTransportLocal | kTransportAny | kTransportHost

definition CS_ANY :: int where "CS_ANY = -1"
definition CS_OFFLINE :: int where "CS_OFFLINE = 0"
definition CS_BOOTLOADER :: int where "CS_BOOTLOADER = 1"
definition CS_DEVICE :: int where "CS_DEVICE = 2"
definition CS_HOST :: int where "CS_HOST = 3"
definition CS_RECOVERY :: int where "CS_RECOVERY = 4"
definition CS_NOPERM :: int where "CS_NOPERM = 5"
definition CS_SIDELOAD :: int where "CS_SIDELOAD = 6"
definition CS_UNAUTHORIZED :: int where "CS_UNAUTHORIZED = 7"

lemmas cs_defs = CS_ANY_def CS_OFFLINE_def CS_BOOTLOADER_def CS_DEVICE_def CS_HOST_def
  CS_RECOVERY_def CS_NOPERM_def CS_SIDELOAD_def CS_UNAUTHORIZED_def

text \<open>\<open>t_to_remote\<close> and \<open>t_from_remote\<close> are the packets inside the socket pair: sent by the
  main thread and not yet read by the input thread, and posted by the output thread and not
  yet read by the main thread.\<close>

record atransport =
  t_fd :: int
  t_transport_socket :: int
  t_ref_count :: int
  t_sync_token :: u32
  t_connection_state :: int
  t_online :: bool
  t_type :: transport_type
  t_usb :: "addr option"
  t_sfd :: int
  t_serial :: "string option"
  t_product :: "string option"
  t_model :: "string option"
  t_device :: "string option"
  t_devpath :: "string option"
  t_adb_port :: int
  t_kicked :: bool
  t_disconnects :: "disconnect list"
  t_key :: "nat option"
  t_token :: bytes
  t_failed_auth_attempts :: u32
  t_to_remote :: "apacket list"
  t_from_remote :: "apacket list"

record alistener =
  l_fd :: int
  l_local_name :: string
  l_connect_to :: string
  l_transport :: "addr option"

text \<open>Calls whose only effect is outside the process.\<close>

text \<open>A thread that serves a request of a client, with its function and its cookie.\<close>

datatype service = Wait_for_state transport_type "string option" int | Connect_service string

datatype io_event = Close_fd int | Shutdown_fd int | Start_service service int

text \<open>\<open>w_tmsgs\<close> is the content of the registration socket: a transport and the \<open>action\<close>
  field, 1 to register it and 0 to remove it.\<close>

record world =
  w_HOST :: bool
  w_auth_enabled :: bool
  w_socks :: "addr \<rightharpoonup> asocket"
  w_trans :: "addr \<rightharpoonup> atransport"
  w_listeners :: "addr \<rightharpoonup> alistener"
  w_next :: addr
  w_local :: "addr list"
  w_closing :: "addr list"
  w_next_id :: u32
  w_socket_list_lock :: bool
  w_transport_list :: "addr list"
  w_pending_list :: "addr list"
  w_transport_lock :: bool
  w_trackers :: "addr list"
  w_listener_list :: "addr list"
  w_local_transports :: "addr option list"
  w_local_transports_lock :: bool
  w_registration_send :: int
  w_tmsgs :: "(addr \<times> nat) list"
  w_usbs :: "addr \<rightharpoonup> usb_handle"
  w_handle_list :: "addr list"
  w_usb_lock :: bool
  w_key_list :: "nat list"
  w_fdev :: fdev
  w_ws :: "int \<Rightarrow> wres list"
  w_rs :: "int \<Rightarrow> rres list"
  w_out :: "int \<Rightarrow> bytes"
  w_newfds :: "int list"
  w_newthreads :: "bool list"
  w_log :: "io_event list"

section \<open>Access to the heaps\<close>

definition get_sock :: "addr \<Rightarrow> world \<Rightarrow> err + asocket" where
  "get_sock a w = (case w_socks w a of None \<Rightarrow> Inl UseAfterFree | Some s \<Rightarrow> Inr s)"

definition mod_sock :: "addr \<Rightarrow> (asocket \<Rightarrow> asocket) \<Rightarrow> world \<Rightarrow> err + world" where
  "mod_sock a g w = ebind (get_sock a w) (\<lambda>s. Inr (w\<lparr>w_socks := (w_socks w)(a \<mapsto> g s)\<rparr>))"

text \<open>\<open>s->peer\<close>, about to be dereferenced.\<close>

definition the_peer :: "asocket \<Rightarrow> err + addr" where
  "the_peer s = (case s_peer s of None \<Rightarrow> Inl NullDeref | Some b \<Rightarrow> Inr b)"

definition get_trans :: "addr \<Rightarrow> world \<Rightarrow> err + atransport" where
  "get_trans t w = (case w_trans w t of None \<Rightarrow> Inl UseAfterFree | Some x \<Rightarrow> Inr x)"

definition mod_trans :: "addr \<Rightarrow> (atransport \<Rightarrow> atransport) \<Rightarrow> world \<Rightarrow> err + world" where
  "mod_trans t g w = ebind (get_trans t w) (\<lambda>x. Inr (w\<lparr>w_trans := (w_trans w)(t \<mapsto> g x)\<rparr>))"

definition get_listener :: "addr \<Rightarrow> world \<Rightarrow> err + alistener" where
  "get_listener l w = (case w_listeners w l of None \<Rightarrow> Inl UseAfterFree | Some x \<Rightarrow> Inr x)"

text \<open>\<open>free\<close> of a socket, with the event record inside it.\<close>

definition free_sock :: "addr \<Rightarrow> world \<Rightarrow> world" where
  "free_sock a w = w\<lparr>w_socks := (w_socks w)(a := None), w_fdev := fde_free (FSock a) (w_fdev w)\<rparr>"

text \<open>\<open>calloc\<close>: the object at a fresh address.\<close>

definition new_sock :: "asocket \<Rightarrow> world \<Rightarrow> addr \<times> world" where
  "new_sock s w = (w_next w, w\<lparr>w_socks := (w_socks w)(w_next w \<mapsto> s), w_next := Suc (w_next w)\<rparr>)"

section \<open>Locks, events and descriptors\<close>

text \<open>The mutexes are not recursive: a thread that locks one it holds stops for ever.\<close>

definition lock_sockets :: "world \<Rightarrow> err + world" where
  "lock_sockets w = (if w_socket_list_lock w then Inl Deadlock else Inr (w\<lparr>w_socket_list_lock := True\<rparr>))"

definition unlock_sockets :: "world \<Rightarrow> world" where
  "unlock_sockets w = w\<lparr>w_socket_list_lock := False\<rparr>"

definition lock_transports :: "world \<Rightarrow> err + world" where
  "lock_transports w = (if w_transport_lock w then Inl Deadlock else Inr (w\<lparr>w_transport_lock := True\<rparr>))"

definition unlock_transports :: "world \<Rightarrow> world" where
  "unlock_transports w = w\<lparr>w_transport_lock := False\<rparr>"

definition on_fdev :: "(fdev \<Rightarrow> err + fdev) \<Rightarrow> world \<Rightarrow> err + world" where
  "on_fdev g w = ebind (g (w_fdev w)) (\<lambda>f. Inr (w\<lparr>w_fdev := f\<rparr>))"

text \<open>\<open>writex\<close> on a descriptor of the process.\<close>

definition w_writex :: "int \<Rightarrow> bytes \<Rightarrow> world \<Rightarrow> err + (bool \<times> world)" where
  "w_writex fd bs w = ebind (writex bs (w_ws w fd)) (\<lambda>(r, acc, ws).
     Inr (r, w\<lparr>w_ws := (w_ws w)(fd := ws), w_out := (w_out w)(fd := w_out w fd @ acc)\<rparr>))"

text \<open>One \<open>adb_write\<close> call, whose result is not looked at; the wrapper retries on \<open>EINTR\<close>.\<close>

fun write_once :: "bytes \<Rightarrow> wres list \<Rightarrow> err + (bytes \<times> wres list)" where
  "write_once bs [] = Inl Blocked"
| "write_once bs (WOk n # ws) = Inr (take n bs, ws)"
| "write_once bs (WErr e # ws) = (if e = EINTR then write_once bs ws else Inr ([], ws))"

definition w_write_once :: "int \<Rightarrow> bytes \<Rightarrow> world \<Rightarrow> err + world" where
  "w_write_once fd bs w = ebind (write_once bs (w_ws w fd)) (\<lambda>(acc, ws).
     Inr (w\<lparr>w_ws := (w_ws w)(fd := ws), w_out := (w_out w)(fd := w_out w fd @ acc)\<rparr>))"

text \<open>A call that opens a descriptor: \<open>None\<close> where it fails. The kernel does not return a
  descriptor that is open, so a script that says so describes no run.\<close>

definition fd_in_use :: "fdev \<Rightarrow> int \<Rightarrow> bool" where
  "fd_in_use f fd \<longleftrightarrow> nat fd < length (fd_table f) \<and>
     (case fd_table f ! nat fd of Fde _ \<Rightarrow> True | _ \<Rightarrow> False)"

definition open_fd :: "world \<Rightarrow> err + (int option \<times> world)" where
  "open_fd w = (case w_newfds w of
      [] \<Rightarrow> Inl Blocked
    | fd # fds \<Rightarrow>
        if fd < 0 then Inr (None, w\<lparr>w_newfds := fds\<rparr>)
        else if fd_in_use (w_fdev w) fd then Inl Blocked
        else Inr (Some fd, w\<lparr>w_newfds := fds\<rparr>))"

definition log_io :: "io_event \<Rightarrow> world \<Rightarrow> world" where
  "log_io e w = w\<lparr>w_log := w_log w @ [e]\<rparr>"

section \<open>Sending\<close>

text \<open>\<open>send_packet\<close>: the header is completed and the packet handed to the input thread
  through the socket pair.\<close>

definition send_packet :: "apacket \<Rightarrow> addr option \<Rightarrow> world \<Rightarrow> err + world" where
  "send_packet p t w =
     ebind (seal_packet p) (\<lambda>p.
       case t of
         None \<Rightarrow> Inl (Fatal ''Transport is null'')
       | Some ta \<Rightarrow>
           ebind (get_trans ta w) (\<lambda>x.
           ebind (write_packet (w_ws w (t_transport_socket x))) (\<lambda>(r, ws).
             if r then
               Inr (w\<lparr>w_ws := (w_ws w)(t_transport_socket x := ws),
                      w_trans := (w_trans w)(ta \<mapsto> x\<lparr>t_to_remote := t_to_remote x @ [p]\<rparr>)\<rparr>)
             else Inl (Fatal ''cannot enqueue packet on transport socket''))))"

definition sendfailmsg :: "int \<Rightarrow> string \<Rightarrow> world \<Rightarrow> err + (bool \<times> world)" where
  "sendfailmsg fd reason w =
     (let len = (if 0xffff < length reason then 0xffff else length reason) in
      ebind (w_writex fd (''FAIL'' @ fmt_04x len) w) (\<lambda>(r, w).
        if \<not> r then Inr (False, w) else w_writex fd (take len reason) w))"

end
