(* ===== verification/Adb_Devices.thy ===== *)
theory Adb_Devices
  imports Adb_World
begin

text \<open>
  How transports are named, listed and chosen (transport.c): the qualifiers of a device, the
  list that \<open>adb devices\<close> and the device trackers show, and the choice of the one transport
  a request goes to. A buffer is the string written so far and its capacity; a write past its
  end is \<open>OutOfBounds\<close>.
\<close>

section \<open>Names\<close>

definition statename :: "atransport \<Rightarrow> string" where
  "statename t =
     (let cs = t_connection_state t in
      if cs = CS_OFFLINE then ''offline''
      else if cs = CS_BOOTLOADER then ''bootloader''
      else if cs = CS_DEVICE then ''device''
      else if cs = CS_HOST then ''host''
      else if cs = CS_RECOVERY then ''recovery''
      else if cs = CS_SIDELOAD then ''sideload''
      else if cs = CS_NOPERM then ''no permissions''
      else if cs = CS_UNAUTHORIZED then ''unauthorized''
      else ''unknown'')"

definition connection_state_name :: "atransport option \<Rightarrow> string" where
  "connection_state_name t =
     (case t of None \<Rightarrow> ''unknown''
      | Some t \<Rightarrow>
          let cs = t_connection_state t in
          if cs = CS_BOOTLOADER then ''bootloader''
          else if cs = CS_DEVICE then ''device''
          else if cs = CS_RECOVERY then ''recovery''
          else if cs = CS_SIDELOAD then ''sideload''
          else if cs = CS_OFFLINE then ''offline''
          else if cs = CS_UNAUTHORIZED then ''unauthorized''
          else ''unknown'')"

definition qual_char_is_invalid :: "char \<Rightarrow> bool" where
  "qual_char_is_invalid ch \<longleftrightarrow>
     (let c = (of_char ch :: nat) in
      \<not> (65 \<le> c \<and> c \<le> 90) \<and> \<not> (97 \<le> c \<and> c \<le> 122) \<and> \<not> (48 \<le> c \<and> c \<le> 57))"

text \<open>The two loops of \<open>qual_match\<close>; a C string ends where the list ends.\<close>

fun match_prefix :: "string \<Rightarrow> string \<Rightarrow> string option" where
  "match_prefix [] to_test = Some to_test"
| "match_prefix (p # ps) [] = None"
| "match_prefix (p # ps) (c # cs) = (if p \<noteq> c then None else match_prefix ps cs)"

fun match_qual :: "string \<Rightarrow> bool \<Rightarrow> string \<Rightarrow> string option" where
  "match_qual [] sanitize to_test = Some to_test"
| "match_qual (q # qs) sanitize [] = None"
| "match_qual (q # qs) sanitize (c # cs) =
     (let ch = (if sanitize \<and> qual_char_is_invalid q then CHR ''_'' else q)
      in if ch \<noteq> c then None else match_qual qs sanitize cs)"

definition qual_match :: "string option \<Rightarrow> string option \<Rightarrow> string option \<Rightarrow> bool \<Rightarrow> bool" where
  "qual_match to_test pre qual sanitize =
     (case to_test of
        None \<Rightarrow> qual = None \<or> qual = Some []
      | Some [] \<Rightarrow> qual = None \<or> qual = Some []
      | Some tt \<Rightarrow>
          (case qual of
             None \<Rightarrow> False
           | Some q \<Rightarrow>
               (case match_prefix (case pre of None \<Rightarrow> [] | Some p \<Rightarrow> p) tt of
                  None \<Rightarrow> False
                | Some rest \<Rightarrow> match_qual q sanitize rest = Some [])))"

section \<open>The device list\<close>

text \<open>A buffer of \<open>cap\<close> bytes in which the next write goes to position \<open>length buf\<close>.
  \<open>snprintf\<close> with size \<open>n\<close> writes at most \<open>n\<close> bytes, the final NUL included, and
  returns the full length.\<close>

definition bounded_print :: "nat \<Rightarrow> nat \<Rightarrow> nat \<Rightarrow> string \<Rightarrow> err + nat" where
  "bounded_print cap pos n s =
     (if n = 0 then Inr (length s)
      else if cap < pos + min n (length s + 1) then Inl OutOfBounds
      else Inr (length s))"

text \<open>Subtraction on \<open>size_t\<close>.\<close>

definition size_sub :: "nat \<Rightarrow> nat \<Rightarrow> nat" where
  "size_sub a b = (if b \<le> a then a - b else 2 ^ 64 + a - b)"

text \<open>\<open>add_qual\<close>: the text written so far, the position of the next write and the size that
  is left. The loop that replaces characters runs to the full length even where the text was
  cut.\<close>

definition add_qual :: "nat \<Rightarrow> string \<Rightarrow> string option \<Rightarrow> bool \<Rightarrow> string \<times> nat \<times> nat \<Rightarrow> err + (string \<times> nat \<times> nat)" where
  "add_qual cap pre qual sanitize st =
     (case st of (txt, pos, room) \<Rightarrow>
        (case qual of
           None \<Rightarrow> Inr st
         | Some q \<Rightarrow>
             if room = 0 \<or> q = [] then Inr st
             else ebind (bounded_print cap pos room (pre @ q)) (\<lambda>len.
               if sanitize \<and> cap < pos + len then Inl OutOfBounds
               else
                 let q' = (if sanitize then map (\<lambda>c. if qual_char_is_invalid c then CHR ''_'' else c) q else q)
                 in Inr (txt @ pre @ q', pos + len, size_sub room len))))"

definition pad_right :: "nat \<Rightarrow> string \<Rightarrow> string" where
  "pad_right n s = s @ replicate (n - length s) (CHR '' '')"

text \<open>\<open>format_transport\<close> into the \<open>bufsize\<close> bytes from \<open>pos\<close> of a buffer of \<open>cap\<close> bytes: the
  text of the line (complete, as if the buffer were long enough) and the length returned.\<close>

definition shown_serial :: "atransport \<Rightarrow> string" where
  "shown_serial t = (case t_serial t of None \<Rightarrow> ''????????????'' | Some [] \<Rightarrow> ''????????????'' | Some s \<Rightarrow> s)"

definition format_transport :: "nat \<Rightarrow> nat \<Rightarrow> nat \<Rightarrow> bool \<Rightarrow> atransport \<Rightarrow> err + (string \<times> nat)" where
  "format_transport cap pos bufsize long_listing t =
     (if \<not> long_listing then
        let s = shown_serial t @ [CHR 0x09] @ statename t @ [CHR 0x0A]
        in ebind (bounded_print cap pos bufsize s) (\<lambda>len. Inr (s, len))
      else
        let s = pad_right 22 (shown_serial t) @ '' '' @ statename t in
        ebind (bounded_print cap pos bufsize s) (\<lambda>len.
        ebind (add_qual cap '' '' (t_devpath t) False (s, pos + len, size_sub bufsize len)) (\<lambda>st.
        ebind (add_qual cap '' product:'' (t_product t) False st) (\<lambda>st.
        ebind (add_qual cap '' model:'' (t_model t) True st) (\<lambda>st.
        ebind (add_qual cap '' device:'' (t_device t) False st) (\<lambda>(txt, p, remaining).
        ebind (bounded_print cap p remaining [CHR 0x0A]) (\<lambda>len.
          Inr (txt @ [CHR 0x0A], size_sub bufsize (size_sub remaining len)))))))))"

fun list_loop :: "nat \<Rightarrow> bool \<Rightarrow> atransport list \<Rightarrow> string \<Rightarrow> err + string" where
  "list_loop cap long_listing [] acc = Inr acc"
| "list_loop cap long_listing (t # ts) acc =
     ebind (format_transport cap (length acc) (cap - length acc) long_listing t) (\<lambda>(line, len).
       if cap \<le> length acc + len then Inr acc
       else list_loop cap long_listing ts (acc @ line))"

definition list_transports_of :: "nat \<Rightarrow> bool \<Rightarrow> atransport list \<Rightarrow> err + string" where
  "list_transports_of bufsize long_listing ts =
     ebind (list_loop bufsize long_listing ts []) (\<lambda>s.
       if bufsize \<le> length s then Inl OutOfBounds else Inr s)"

section \<open>Choosing a transport\<close>

text \<open>The conditions under which the loop of \<open>acquire_one_transport\<close> takes a transport as its
  result, and the message where it is not the first.\<close>

definition serial_matches :: "string \<Rightarrow> atransport \<Rightarrow> bool" where
  "serial_matches serial t \<longleftrightarrow>
     t_serial t = Some serial \<or> t_devpath t = Some serial \<or>
     qual_match (Some serial) (Some ''product:'') (t_product t) False \<or>
     qual_match (Some serial) (Some ''model:'') (t_model t) True \<or>
     qual_match (Some serial) (Some ''device:'') (t_device t) False"

definition transport_wanted :: "transport_type \<Rightarrow> string option \<Rightarrow> atransport \<Rightarrow> string option" where
  "transport_wanted ttype serial t =
     (case serial of
        Some sn \<Rightarrow> if serial_matches sn t then Some ''more than one device'' else None
      | None \<Rightarrow>
          if ttype = kTransportUsb \<and> t_type t = kTransportUsb then Some ''more than one device''
          else if ttype = kTransportLocal \<and> t_type t = kTransportLocal then Some ''more than one emulator''
          else if ttype = kTransportAny then Some ''more than one device and emulator''
          else None)"

text \<open>The loop over the transport list: the result, the message and the flag \<open>ambiguous\<close>.\<close>

fun acquire_loop :: "transport_type \<Rightarrow> string option \<Rightarrow> (addr \<times> atransport) list \<Rightarrow>
    (addr \<times> atransport) option \<Rightarrow> string \<Rightarrow> (addr \<times> atransport) option \<times> string \<times> bool" where
  "acquire_loop ttype serial [] result e = (result, e, False)"
| "acquire_loop ttype serial (t # ts) result e =
     (if t_connection_state (snd t) = CS_NOPERM
      then acquire_loop ttype serial ts result ''insufficient permissions for device''
      else case transport_wanted ttype serial (snd t) of
             None \<Rightarrow> acquire_loop ttype serial ts result e
           | Some several \<Rightarrow>
               (case result of
                  Some _ \<Rightarrow> (None, several, True)
                | None \<Rightarrow> acquire_loop ttype serial ts (Some t) e))"

text \<open>One pass: the transport (with the error pointer cleared), the failure with its message,
  or another try after a second.\<close>

datatype acquire_res = Acquired addr | Acquire_failed string | Acquire_retry

definition acquire_once :: "int \<Rightarrow> transport_type \<Rightarrow> string option \<Rightarrow> (addr \<times> atransport) list \<Rightarrow> acquire_res" where
  "acquire_once state ttype serial ts =
     (case acquire_loop ttype serial ts None ''device not found'' of (result, e, ambiguous) \<Rightarrow>
        let (result, e) =
              (case result of
                 None \<Rightarrow> (None, e)
               | Some (a, t) \<Rightarrow>
                   if t_connection_state t = CS_UNAUTHORIZED then
                     (None, ''device unauthorized. Please check the confirmation dialog on your device.'')
                   else if t_connection_state t = CS_OFFLINE then (None, ''device offline'')
                   else if state \<noteq> CS_ANY \<and> t_connection_state t \<noteq> state then
                     (None, ''invalid device state'')
                   else (Some a, e))
        in case result of
             Some a \<Rightarrow> Acquired a
           | None \<Rightarrow> if state \<noteq> CS_ANY \<and> (serial \<noteq> None \<or> \<not> ambiguous) then Acquire_retry
                     else Acquire_failed e)"

text \<open>The whole function: \<open>snapshots\<close> is the transport list as it is found at each try.\<close>

fun acquire_one_transport :: "int \<Rightarrow> transport_type \<Rightarrow> string option \<Rightarrow> (addr \<times> atransport) list list \<Rightarrow>
    err + (addr option \<times> string)" where
  "acquire_one_transport state ttype serial [] = Inl Blocked"
| "acquire_one_transport state ttype serial (ts # snapshots) =
     (case acquire_once state ttype serial ts of
        Acquired a \<Rightarrow> Inr (Some a, [])
      | Acquire_failed e \<Rightarrow> Inr (None, e)
      | Acquire_retry \<Rightarrow> acquire_one_transport state ttype serial snapshots)"

section \<open>Lemmas\<close>

definition candidates :: "transport_type \<Rightarrow> string option \<Rightarrow> (addr \<times> atransport) list \<Rightarrow> (addr \<times> atransport) list" where
  "candidates ttype serial ts =
     filter (\<lambda>(a, t). t_connection_state t \<noteq> CS_NOPERM \<and> transport_wanted ttype serial t \<noteq> None) ts"

lemma candidates_Cons:
  "candidates ttype serial (t # ts) =
     (if t_connection_state (snd t) \<noteq> CS_NOPERM \<and> transport_wanted ttype serial (snd t) \<noteq> None
      then t # candidates ttype serial ts else candidates ttype serial ts)"
  by (cases t) (simp add: candidates_def)

lemma acquire_loop_taken:
  "fst (acquire_loop ttype serial ts (Some x) e) =
     (if candidates ttype serial ts = [] then Some x else None) \<and>
   snd (snd (acquire_loop ttype serial ts (Some x) e)) = (candidates ttype serial ts \<noteq> [])"
  by (induction ts arbitrary: e) (auto simp: candidates_Cons candidates_def [of _ _ "[]"] split: option.splits)

lemma acquire_loop_result:
  "fst (acquire_loop ttype serial ts None e) =
     (case candidates ttype serial ts of [x] \<Rightarrow> Some x | _ \<Rightarrow> None)"
  by (induction ts arbitrary: e)
    (auto simp: candidates_Cons candidates_def [of _ _ "[]"] acquire_loop_taken split: option.splits list.splits)


lemma match_prefix_append [simp]: "match_prefix pre (pre @ rest) = Some rest"
  by (induction pre) auto

definition shown_qual :: "bool \<Rightarrow> string \<Rightarrow> string" where
  "shown_qual sanitize q =
     (if sanitize then map (\<lambda>c. if qual_char_is_invalid c then CHR ''_'' else c) q else q)"

lemma match_qual_shown: "match_qual q sanitize (shown_qual sanitize q @ rest) = Some rest"
  by (induction q) (auto simp: shown_qual_def Let_def)

lemma qual_match_shown:
  assumes "q \<noteq> []"
  shows "qual_match (Some (pre @ shown_qual sanitize q)) (Some pre) (Some q) sanitize"
proof -
  have "pre @ shown_qual sanitize q \<noteq> []" using assms by (simp add: shown_qual_def)
  then obtain c cs where c: "pre @ shown_qual sanitize q = c # cs" by (meson list.exhaust)
  have "match_qual q sanitize (shown_qual sanitize q) = Some []"
    using match_qual_shown [of q sanitize "[]"] by simp
  then have "qual_match (Some (c # cs)) (Some pre) (Some q) sanitize"
    unfolding qual_match_def using match_prefix_append [of pre "shown_qual sanitize q"] by (simp add: c)
  then show ?thesis by (simp add: c)
qed

text \<open>Whatever qualifier the long device list shows for a device (\<open>product:\<close>, \<open>model:\<close> with
  its characters replaced, \<open>device:\<close>), that text given back as a serial number matches that
  device.\<close>

theorem listed_qualifier_selects:
  assumes "q \<noteq> []" and "room \<noteq> 0"
    and "add_qual cap (CHR '' '' # pre) (Some q) sanitize (txt, pos, room) = Inr (txt', pos', room')"
  shows "\<exists>shown. txt' = txt @ CHR '' '' # shown \<and> qual_match (Some shown) (Some pre) (Some q) sanitize"
proof -
  have "txt' = txt @ CHR '' '' # pre @ shown_qual sanitize q"
    using assms by (auto simp: add_qual_def ebind_eq_Inr shown_qual_def Let_def split: if_splits)
  then show ?thesis using qual_match_shown [OF assms(1)] by blast
qed

theorem listed_qualifier_selects_witness:
  "\<exists>shown. ''x model:Q_80'' = ''x'' @ CHR '' '' # shown \<and>
     qual_match (Some shown) (Some ''model:'') (Some ''Q 80'') True"
  by (rule listed_qualifier_selects [where room = 90 and cap = 100 and pos = 10 and pos' = 21 and room' = 79])
    (simp_all add: add_qual_def bounded_print_def Let_def qual_char_is_invalid_def size_sub_def)

section \<open>The short list stays inside its buffer\<close>

definition short_line :: "atransport \<Rightarrow> string" where
  "short_line t = shown_serial t @ [CHR 0x09] @ statename t @ [CHR 0x0A]"

lemma list_loop_short:
  assumes "length acc < cap"
  shows "\<exists>k \<le> length ts. list_loop cap False ts acc = Inr (acc @ concat (map short_line (take k ts))) \<and>
     length (acc @ concat (map short_line (take k ts))) < cap \<and>
     (k < length ts \<longrightarrow> cap \<le> length (acc @ concat (map short_line (take (Suc k) ts))))"
  using assms
proof (induction ts arbitrary: acc)
  case (Cons t ts)
  have f: "format_transport cap (length acc) (cap - length acc) False t =
      Inr (short_line t, length (short_line t))"
    using Cons.prems by (simp add: format_transport_def short_line_def bounded_print_def Let_def)
  show ?case
  proof (cases "cap \<le> length acc + length (short_line t)")
    case True
    then show ?thesis using f Cons.prems by (intro exI [of _ 0]) simp
  next
    case False
    then obtain k where "k \<le> length ts"
      "list_loop cap False ts (acc @ short_line t) =
         Inr ((acc @ short_line t) @ concat (map short_line (take k ts)))"
      "length ((acc @ short_line t) @ concat (map short_line (take k ts))) < cap"
      "k < length ts \<longrightarrow> cap \<le> length ((acc @ short_line t) @ concat (map short_line (take (Suc k) ts)))"
      using Cons.IH [of "acc @ short_line t"] by auto
    then show ?thesis using f False by (intro exI [of _ "Suc k"]) simp
  qed
qed simp

text \<open>The short device list (\<open>adb devices\<close> and the trackers) never leaves its buffer: it is
  the lines of a prefix of the transports, terminated within the buffer, and it leaves a line
  out only where the buffer cannot hold it.\<close>

theorem list_transports_short_fits:
  assumes "0 < bufsize"
  shows "\<exists>k \<le> length ts. list_transports_of bufsize False ts = Inr (concat (map short_line (take k ts))) \<and>
     length (concat (map short_line (take k ts))) < bufsize \<and>
     (k < length ts \<longrightarrow> bufsize \<le> length (concat (map short_line (take (Suc k) ts))))"
proof -
  obtain k where "k \<le> length ts" "list_loop bufsize False ts [] = Inr (concat (map short_line (take k ts)))"
    "length (concat (map short_line (take k ts))) < bufsize"
    "k < length ts \<longrightarrow> bufsize \<le> length (concat (map short_line (take (Suc k) ts)))"
    using list_loop_short [of "[]" bufsize ts] assms by auto
  then show ?thesis by (intro exI [of _ k]) (simp add: list_transports_of_def)
qed

text \<open>A transport for the witnesses.\<close>

definition sample_transport :: atransport where
  "sample_transport = \<lparr>t_fd = 11, t_transport_socket = 10, t_ref_count = 2, t_sync_token = 1,
     t_connection_state = CS_DEVICE, t_online = True, t_type = kTransportUsb, t_usb = Some 100, t_sfd = -1,
     t_serial = Some ''0820'', t_product = None, t_model = None, t_device = None, t_devpath = None,
     t_adb_port = 0, t_kicked = False, t_disconnects = [], t_key = None, t_token = [],
     t_failed_auth_attempts = 0, t_to_remote = [], t_from_remote = []\<rparr>"

theorem list_transports_short_fits_witness:
  "\<exists>k \<le> 1. list_transports_of 8 False [sample_transport] =
       Inr (concat (map short_line (take k [sample_transport]))) \<and>
     length (concat (map short_line (take k [sample_transport]))) < 8"
  using list_transports_short_fits [of 8 "[sample_transport]"] by auto

text \<open>The long device list can write past its buffer: a device that announces a model name
  longer than the buffer (the banner it sends may hold one) makes the loop that replaces
  characters run past the end.\<close>

theorem list_transports_long_overrun:
  assumes "t_devpath t = None" and "t_product t = None" and "t_model t = Some m"
    and "length (shown_serial t) \<le> 22" and "cap < 34 + length m" and "64 < cap"
  shows "list_transports_of cap True [t] = Inl OutOfBounds"
proof -
  let ?s = "pad_right 22 (shown_serial t) @ '' '' @ statename t"
  have "length (statename t) \<le> 14" "4 \<le> length (statename t)"
    by (simp_all add: statename_def Let_def)
  then have len: "27 \<le> length ?s" "length ?s \<le> 37"
    using assms(4) by (simp_all add: pad_right_def)
  have m: "m \<noteq> []" using assms(5,6) by auto
  have "bounded_print cap 0 cap ?s = Inr (length ?s)"
    using len assms(6) by (simp add: bounded_print_def)
  moreover have "size_sub cap (length ?s) = cap - length ?s" "cap - length ?s \<noteq> 0"
    using len assms(6) by (simp_all add: size_sub_def)
  moreover have "add_qual cap '' model:'' (Some m) True (?s, length ?s, cap - length ?s) = Inl OutOfBounds"
    using m len assms(5,6) by (auto simp: add_qual_def bounded_print_def)
  ultimately show ?thesis
    using assms(1-3) by (simp add: list_transports_of_def format_transport_def Let_def add_qual_def [of _ _ None])
qed

theorem list_transports_long_overrun_witness:
  "list_transports_of 4096 True [sample_transport\<lparr>t_model := Some (replicate 4071 (CHR ''a''))\<rparr>] =
   Inl OutOfBounds"
  by (rule list_transports_long_overrun [where m = "replicate 4071 (CHR ''a'')"])
    (simp_all add: sample_transport_def shown_serial_def)

end
