(* ===== verification/Adb_Sockets.thy ===== *)
theory Adb_Sockets
  imports Adb_Devices
begin

text \<open>
  Socket multiplexing (sockets.c, and the device trackers of transport.c): local sockets, which
  own a descriptor, remote sockets, which stand for a stream on a transport, smart sockets,
  which read the first request of a client, and trackers. Two connected sockets are each
  other's \<open>peer\<close>; what one receives it enqueues on the other.
\<close>

section \<open>The socket lists\<close>

fun find_in_list :: "addr list \<Rightarrow> u32 \<Rightarrow> u32 \<Rightarrow> world \<Rightarrow> err + addr option" where
  "find_in_list [] local_id peer_id w = Inr None"
| "find_in_list (a # as) local_id peer_id w =
     ebind (get_sock a w) (\<lambda>s.
       if s_id s \<noteq> local_id then find_in_list as local_id peer_id w
       else if peer_id = 0 then Inr (Some a)
       else case s_peer s of
              None \<Rightarrow> Inr None
            | Some b \<Rightarrow> ebind (get_sock b w) (\<lambda>ps. Inr (if s_id ps = peer_id then Some a else None)))"

definition find_local_socket :: "u32 \<Rightarrow> u32 \<Rightarrow> world \<Rightarrow> err + (addr option \<times> world)" where
  "find_local_socket local_id peer_id w =
     ebind (lock_sockets w) (\<lambda>w.
     ebind (find_in_list (w_local w) local_id peer_id w) (\<lambda>r. Inr (r, unlock_sockets w)))"

text \<open>\<open>insert_local_socket\<close>: at the tail of one of the two lists.\<close>

definition insert_local :: "addr \<Rightarrow> world \<Rightarrow> world" where
  "insert_local a w = w\<lparr>w_local := w_local w @ [a]\<rparr>"

definition insert_closing :: "addr \<Rightarrow> world \<Rightarrow> world" where
  "insert_closing a w = w\<lparr>w_closing := w_closing w @ [a]\<rparr>"

definition install_local_socket :: "addr \<Rightarrow> world \<Rightarrow> err + world" where
  "install_local_socket a w =
     ebind (lock_sockets w) (\<lambda>w.
     ebind (mod_sock a (\<lambda>s. s\<lparr>s_id := w_next_id w\<rparr>) w) (\<lambda>w.
       let w = w\<lparr>w_next_id := w_next_id w + 1\<rparr>;
           w = (if w_next_id w = 0 then w\<lparr>w_next_id := 1\<rparr> else w)
       in Inr (unlock_sockets (insert_local a w))))"

definition remove_socket :: "addr \<Rightarrow> world \<Rightarrow> err + world" where
  "remove_socket a w =
     ebind (get_sock a w) (\<lambda>s.
       if a \<in> set (w_local w) \<or> a \<in> set (w_closing w) then
         mod_sock a (\<lambda>s. s\<lparr>s_id := 0\<rparr>)
           (w\<lparr>w_local := remove1 a (w_local w), w_closing := remove1 a (w_closing w)\<rparr>)
       else Inr w)"

section \<open>Remote sockets and trackers\<close>

definition remote_socket_enqueue :: "addr \<Rightarrow> apacket \<Rightarrow> world \<Rightarrow> err + (int \<times> world)" where
  "remote_socket_enqueue a p w =
     ebind (get_sock a w) (\<lambda>s.
     ebind (the_peer s) (\<lambda>b.
     ebind (get_sock b w) (\<lambda>ps.
     ebind (send_packet (p\<lparr>p_msg := (p_msg p)\<lparr>m_command := A_WRTE, m_arg0 := s_id ps, m_arg1 := s_id s,
              m_data_length := of_nat (p_len p)\<rparr>\<rparr>) (s_transport s) w) (\<lambda>w. Inr (1, w)))))"

definition remote_socket_ready :: "addr \<Rightarrow> world \<Rightarrow> err + world" where
  "remote_socket_ready a w =
     ebind (get_sock a w) (\<lambda>s.
     ebind (the_peer s) (\<lambda>b.
     ebind (get_sock b w) (\<lambda>ps.
       send_packet (get_apacket\<lparr>p_msg := zero_msg\<lparr>m_command := A_OKAY, m_arg0 := s_id ps,
         m_arg1 := s_id s\<rparr>\<rparr>) (s_transport s) w)))"

definition remote_socket_shutdown :: "addr \<Rightarrow> world \<Rightarrow> err + world" where
  "remote_socket_shutdown a w =
     ebind (get_sock a w) (\<lambda>s.
     ebind (case s_peer s of None \<Rightarrow> Inr 0 | Some b \<Rightarrow> ebind (get_sock b w) (\<lambda>ps. Inr (s_id ps))) (\<lambda>arg0.
       send_packet (get_apacket\<lparr>p_msg := zero_msg\<lparr>m_command := A_CLSE, m_arg0 := arg0,
         m_arg1 := s_id s\<rparr>\<rparr>) (s_transport s) w))"

definition add_transport_disconnect :: "addr \<Rightarrow> disconnect \<Rightarrow> world \<Rightarrow> err + world" where
  "add_transport_disconnect t d w =
     ebind (lock_transports w) (\<lambda>w.
     ebind (mod_trans t (\<lambda>x. x\<lparr>t_disconnects := t_disconnects x @ [d]\<rparr>) w) (\<lambda>w.
       Inr (unlock_transports w)))"

text \<open>The node is unlinked from its neighbours, the last of which is the list head inside the
  transport.\<close>

definition remove_transport_disconnect :: "addr option \<Rightarrow> disconnect \<Rightarrow> world \<Rightarrow> err + world" where
  "remove_transport_disconnect t d w =
     (case t of
        None \<Rightarrow> Inl NullDeref
      | Some ta \<Rightarrow> mod_trans ta (\<lambda>x. x\<lparr>t_disconnects := remove1 d (t_disconnects x)\<rparr>) w)"

definition create_remote_socket :: "u32 \<Rightarrow> addr \<Rightarrow> world \<Rightarrow> err + (addr \<times> world)" where
  "create_remote_socket i t w =
     (if i = 0 then Inl (Fatal ''invalid remote socket id (0)'')
      else
        let (a, w) = new_sock \<lparr>s_id = i, s_closing = False, s_exit_on_close = False, s_peer = None, s_fd = 0,
              s_pkts = [], s_enqueue = Remote_enqueue, s_ready = Remote_ready,
              s_shutdown = Some Remote_shutdown, s_close = Remote_close, s_transport = Some t,
              s_update_needed = False\<rparr> w
        in ebind (add_transport_disconnect t (Dis_remote a) w) (\<lambda>w. Inr (a, w)))"

definition device_tracker_remove :: "addr \<Rightarrow> world \<Rightarrow> err + world" where
  "device_tracker_remove a w =
     ebind (lock_transports w) (\<lambda>w. Inr (unlock_transports (w\<lparr>w_trackers := remove1 a (w_trackers w)\<rparr>)))"

section \<open>Closing\<close>

text \<open>\<open>local_socket_destroy\<close>\<close>

definition local_socket_destroy :: "addr \<Rightarrow> world \<Rightarrow> err + world" where
  "local_socket_destroy a w =
     ebind (get_sock a w) (\<lambda>s.
     ebind (on_fdev (fdevent_remove (FSock a)) w) (\<lambda>w.
     ebind (remove_socket a w) (\<lambda>w.
       if s_exit_on_close s then Inl (Exited 1) else Inr (free_sock a w))))"

definition plain_local :: "asocket \<Rightarrow> asocket" where
  "plain_local s = s\<lparr>s_ready := Local_ready, s_shutdown := None, s_close := Local_close\<rparr>"

text \<open>The part of \<open>local_socket_close_locked\<close> after the peer.\<close>

definition local_socket_finish_close :: "addr \<Rightarrow> world \<Rightarrow> err + world" where
  "local_socket_finish_close a w =
     ebind (get_sock a w) (\<lambda>s.
       if s_closing s \<or> s_pkts s = [] then local_socket_destroy a w
       else ebind (mod_sock a (\<lambda>s. s\<lparr>s_closing := True\<rparr>) w) (\<lambda>w.
            ebind (on_fdev (fdevent_del (FSock a) FDE_READ) w) (\<lambda>w.
            ebind (remove_socket a w) (\<lambda>w. Inr (insert_closing a w)))))"

text \<open>The functions that \<open>s->close\<close> may point to. \<open>close\<close> is the call of \<open>close\<close> of another
  socket through its pointer, and \<open>locked\<close> is \<open>local_socket_close_locked\<close>.\<close>

type_synonym close_op = "addr \<Rightarrow> world \<Rightarrow> err + world"

definition local_socket_close :: "close_op \<Rightarrow> close_op" where
  "local_socket_close locked a w =
     ebind (lock_sockets w) (\<lambda>w. ebind (locked a w) (\<lambda>w. Inr (unlock_sockets w)))"

definition local_socket_close_notify :: "close_op \<Rightarrow> close_op" where
  "local_socket_close_notify close a w =
     ebind (mod_sock a plain_local w) (\<lambda>w.
     ebind (get_sock a w) (\<lambda>s.
     ebind (sendfailmsg (s_fd s) ''closed'' w) (\<lambda>(_, w). close a w)))"

definition remote_socket_close :: "close_op \<Rightarrow> close_op" where
  "remote_socket_close close a w =
     ebind (get_sock a w) (\<lambda>s.
     ebind (case s_peer s of
              None \<Rightarrow> Inr w
            | Some b \<Rightarrow> ebind (mod_sock b (\<lambda>ps. ps\<lparr>s_peer := None\<rparr>) w) (\<lambda>w. close b w)) (\<lambda>w.
     ebind (get_sock a w) (\<lambda>s.
     ebind (remove_transport_disconnect (s_transport s) (Dis_remote a) w) (\<lambda>w.
       Inr (free_sock a w)))))"

definition smart_socket_close :: "close_op \<Rightarrow> close_op" where
  "smart_socket_close close a w =
     ebind (get_sock a w) (\<lambda>s.
     ebind (case s_peer s of
              None \<Rightarrow> Inr w
            | Some b \<Rightarrow>
                ebind (mod_sock b (\<lambda>ps. ps\<lparr>s_peer := None\<rparr>) w) (\<lambda>w.
                ebind (close b w) (\<lambda>w. mod_sock a (\<lambda>s. s\<lparr>s_peer := None\<rparr>) w))) (\<lambda>w.
       Inr (free_sock a w)))"

definition device_tracker_close :: "close_op \<Rightarrow> close_op" where
  "device_tracker_close close a w =
     ebind (get_sock a w) (\<lambda>s.
     ebind (case s_peer s of
              None \<Rightarrow> Inr w
            | Some b \<Rightarrow> ebind (mod_sock b (\<lambda>ps. ps\<lparr>s_peer := None\<rparr>) w) (\<lambda>w. close b w)) (\<lambda>w.
     ebind (device_tracker_remove a w) (\<lambda>w. Inr (free_sock a w))))"

lemmas close_fn_defs = local_socket_close_def local_socket_close_notify_def remote_socket_close_def
  smart_socket_close_def device_tracker_close_def

text \<open>\<open>s->close(s)\<close> through the function pointer, and \<open>local_socket_close_locked\<close>. The functions
  call each other through the peers; every call passes one unit of the first argument.\<close>

fun sclose :: "nat \<Rightarrow> addr \<Rightarrow> world \<Rightarrow> err + world"
and local_socket_close_locked :: "nat \<Rightarrow> addr \<Rightarrow> world \<Rightarrow> err + world" where
  "sclose 0 a w = Inl OutOfFuel"
| "sclose (Suc n) a w =
     ebind (get_sock a w) (\<lambda>s.
       case s_close s of
         Local_close \<Rightarrow> local_socket_close (\<lambda>a w. local_socket_close_locked n a w) a w
       | Local_close_notify \<Rightarrow> local_socket_close_notify (\<lambda>a w. sclose n a w) a w
       | Remote_close \<Rightarrow> remote_socket_close (\<lambda>a w. sclose n a w) a w
       | Smart_close \<Rightarrow> smart_socket_close (\<lambda>a w. sclose n a w) a w
       | Tracker_close \<Rightarrow> device_tracker_close (\<lambda>a w. sclose n a w) a w)"
| "local_socket_close_locked 0 a w = Inl OutOfFuel"
| "local_socket_close_locked (Suc n) a w =
     ebind (get_sock a w) (\<lambda>s.
     ebind (case s_peer s of
              None \<Rightarrow> Inr w
            | Some b \<Rightarrow>
                ebind (get_sock b w) (\<lambda>ps.
                ebind (if s_shutdown ps \<noteq> None then remote_socket_shutdown b w else Inr w) (\<lambda>w.
                ebind (mod_sock b (\<lambda>ps. ps\<lparr>s_peer := None\<rparr>) w) (\<lambda>w.
                ebind (if s_close ps = Local_close then local_socket_close_locked n b w
                       else sclose n b w) (\<lambda>w.
                  mod_sock a (\<lambda>s. s\<lparr>s_peer := None\<rparr>) w))))) (\<lambda>w.
       local_socket_finish_close a w))"

text \<open>The recursion is at most five calls deep: a peer has lost its own peer before it is
  closed, and a notifying socket becomes a plain one.\<close>

definition CLOSE_FUEL :: nat where
  "CLOSE_FUEL = 5"

definition sock_close :: "addr \<Rightarrow> world \<Rightarrow> err + world" where
  "sock_close a w = sclose CLOSE_FUEL a w"

text \<open>\<open>close_all_sockets\<close>: the first socket of the list on the transport, or connected to one
  on it, is closed and the scan starts again. Each round takes a socket off the list.\<close>

fun first_on_transport :: "addr list \<Rightarrow> addr \<Rightarrow> world \<Rightarrow> err + addr option" where
  "first_on_transport [] t w = Inr None"
| "first_on_transport (a # as) t w =
     ebind (get_sock a w) (\<lambda>s.
       if s_transport s = Some t then Inr (Some a)
       else case s_peer s of
              None \<Rightarrow> first_on_transport as t w
            | Some b \<Rightarrow> ebind (get_sock b w) (\<lambda>ps.
                if s_transport ps = Some t then Inr (Some a) else first_on_transport as t w))"

fun close_all_loop :: "nat \<Rightarrow> addr \<Rightarrow> world \<Rightarrow> err + world" where
  "close_all_loop 0 t w = Inl OutOfFuel"
| "close_all_loop (Suc n) t w =
     ebind (first_on_transport (w_local w) t w) (\<lambda>r.
       case r of
         None \<Rightarrow> Inr w
       | Some a \<Rightarrow> ebind (local_socket_close_locked CLOSE_FUEL a w) (close_all_loop n t))"

definition close_all_sockets :: "addr \<Rightarrow> world \<Rightarrow> err + world" where
  "close_all_sockets t w =
     ebind (lock_sockets w) (\<lambda>w.
     ebind (close_all_loop (Suc (length (w_local w))) t w) (\<lambda>w. Inr (unlock_sockets w)))"

section \<open>Enqueueing\<close>

text \<open>The bytes of a packet that are still to be written.\<close>

definition p_bytes :: "apacket \<Rightarrow> bytes" where
  "p_bytes p = take (p_len p) (drop (p_ptr p) (p_data p))"

definition p_advance :: "nat \<Rightarrow> apacket \<Rightarrow> apacket" where
  "p_advance n p = p\<lparr>p_ptr := p_ptr p + n, p_len := p_len p - n\<rparr>"

text \<open>The write loop of \<open>local_socket_enqueue\<close>: whether it ended with an error, the bytes
  accepted, and the script that is left. \<open>adb_write\<close> itself retries on \<open>EINTR\<close>.\<close>

fun enqueue_loop :: "bytes \<Rightarrow> wres list \<Rightarrow> err + (bool \<times> bytes \<times> wres list)" where
  "enqueue_loop bs [] = (if bs = [] then Inr (False, [], []) else Inl Blocked)"
| "enqueue_loop bs (WOk n # ws) =
     (if bs = [] then Inr (False, [], WOk n # ws)
      else if n = 0 then Inr (True, [], ws)
      else ebind (enqueue_loop (drop n bs) ws) (\<lambda>(r, acc, ws'). Inr (r, take n bs @ acc, ws')))"
| "enqueue_loop bs (WErr e # ws) =
     (if bs = [] then Inr (False, [], WErr e # ws)
      else if e = EINTR then enqueue_loop bs ws
      else if e = EAGAIN then Inr (False, [], ws)
      else Inr (True, [], ws))"

definition local_socket_enqueue :: "addr \<Rightarrow> apacket \<Rightarrow> world \<Rightarrow> err + (int \<times> world)" where
  "local_socket_enqueue a p w =
     (let p = p\<lparr>p_ptr := 0\<rparr> in
      ebind (get_sock a w) (\<lambda>s.
        if s_pkts s \<noteq> [] then
          ebind (mod_sock a (\<lambda>s. s\<lparr>s_pkts := s_pkts s @ [p]\<rparr>) w) (\<lambda>w.
          ebind (on_fdev (fdevent_add (FSock a) FDE_WRITE) w) (\<lambda>w. Inr (1, w)))
        else
          ebind (buf_read (p_len p) (p_data p)) (\<lambda>bs.
          ebind (enqueue_loop bs (w_ws w (s_fd s))) (\<lambda>(r, acc, ws).
            let w = w\<lparr>w_ws := (w_ws w)(s_fd s := ws), w_out := (w_out w)(s_fd s := w_out w (s_fd s) @ acc)\<rparr>;
                p = p_advance (length acc) p
            in if r then ebind (sock_close a w) (\<lambda>w. Inr (1, w))
               else if p_len p = 0 then Inr (0, w)
               else ebind (mod_sock a (\<lambda>s. s\<lparr>s_pkts := [p]\<rparr>) w) (\<lambda>w.
                    ebind (on_fdev (fdevent_add (FSock a) FDE_WRITE) w) (\<lambda>w. Inr (1, w)))))))"

definition device_tracker_enqueue :: "addr \<Rightarrow> apacket \<Rightarrow> world \<Rightarrow> err + (int \<times> world)" where
  "device_tracker_enqueue a p w =
     ebind (device_tracker_close (sclose CLOSE_FUEL) a w) (\<lambda>w. Inr (-1, w))"

text \<open>\<open>s->enqueue(s, p)\<close> through the function pointer; \<open>smart\<close> is \<open>smart_socket_enqueue\<close>.\<close>

type_synonym enqueue_op = "addr \<Rightarrow> apacket \<Rightarrow> world \<Rightarrow> err + (int \<times> world)"

definition senqueue :: "enqueue_op \<Rightarrow> enqueue_op" where
  "senqueue smart a p w =
     ebind (get_sock a w) (\<lambda>s.
       case s_enqueue s of
         Local_enqueue \<Rightarrow> local_socket_enqueue a p w
       | Remote_enqueue \<Rightarrow> remote_socket_enqueue a p w
       | Smart_enqueue \<Rightarrow> smart a p w
       | Tracker_enqueue \<Rightarrow> device_tracker_enqueue a p w)"

section \<open>Trackers\<close>

fun get_all_trans :: "addr list \<Rightarrow> world \<Rightarrow> err + atransport list" where
  "get_all_trans [] w = Inr []"
| "get_all_trans (t # ts) w =
     ebind (get_trans t w) (\<lambda>x. ebind (get_all_trans ts w) (\<lambda>xs. Inr (x # xs)))"

definition list_transports :: "nat \<Rightarrow> bool \<Rightarrow> world \<Rightarrow> err + (string \<times> world)" where
  "list_transports bufsize long_listing w =
     ebind (lock_transports w) (\<lambda>w.
     ebind (get_all_trans (w_transport_list w) w) (\<lambda>ts.
     ebind (list_transports_of bufsize long_listing ts) (\<lambda>s. Inr (s, unlock_transports w))))"

definition list_transports_msg :: "nat \<Rightarrow> world \<Rightarrow> err + (bytes \<times> world)" where
  "list_transports_msg bufferlen w =
     ebind (list_transports (bufferlen - 4) False w) (\<lambda>(s, w). Inr (fmt_04x (length s) @ s, w))"

definition device_tracker_send :: "enqueue_op \<Rightarrow> addr \<Rightarrow> bytes \<Rightarrow> world \<Rightarrow> err + (int \<times> world)" where
  "device_tracker_send smart a buffer w =
     ebind (get_sock a w) (\<lambda>s.
     ebind (buf_write 0 buffer (p_data get_apacket)) (\<lambda>d.
     ebind (the_peer s) (\<lambda>b.
       senqueue smart b (get_apacket\<lparr>p_data := d, p_len := length buffer\<rparr>) w)))"

definition device_tracker_ready :: "enqueue_op \<Rightarrow> addr \<Rightarrow> world \<Rightarrow> err + world" where
  "device_tracker_ready smart a w =
     ebind (get_sock a w) (\<lambda>s.
       if s_update_needed s then
         ebind (mod_sock a (\<lambda>s. s\<lparr>s_update_needed := False\<rparr>) w) (\<lambda>w.
         ebind (list_transports_msg 1024 w) (\<lambda>(buffer, w).
         ebind (device_tracker_send smart a buffer w) (\<lambda>(_, w). Inr w)))
       else Inr w)"

definition create_device_tracker :: "world \<Rightarrow> addr \<times> world" where
  "create_device_tracker w =
     (let (a, w) = new_sock \<lparr>s_id = 0, s_closing = False, s_exit_on_close = False, s_peer = None, s_fd = 0,
            s_pkts = [], s_enqueue = Tracker_enqueue, s_ready = Tracker_ready, s_shutdown = None,
            s_close = Tracker_close, s_transport = None, s_update_needed = True\<rparr> w
      in (a, w\<lparr>w_trackers := a # w_trackers w\<rparr>))"

text \<open>\<open>update_transports\<close>: the successor of a tracker is read before it is sent the list, which
  may destroy it.\<close>

fun successor :: "'a \<Rightarrow> 'a list \<Rightarrow> 'a option" where
  "successor x [] = None"
| "successor x (y # ys) = (if x = y then (case ys of [] \<Rightarrow> None | z # _ \<Rightarrow> Some z) else successor x ys)"

fun update_loop :: "enqueue_op \<Rightarrow> nat \<Rightarrow> bytes \<Rightarrow> addr option \<Rightarrow> world \<Rightarrow> err + world" where
  "update_loop smart n buffer None w = Inr w"
| "update_loop smart 0 buffer (Some a) w = Inl OutOfFuel"
| "update_loop smart (Suc n) buffer (Some a) w =
     ebind (get_sock a w) (\<lambda>_.
       let nxt = successor a (w_trackers w) in
       ebind (device_tracker_send smart a buffer w) (\<lambda>(_, w). update_loop smart n buffer nxt w))"

definition list_head :: "'a list \<Rightarrow> 'a option" where
  "list_head xs = (case xs of [] \<Rightarrow> None | x # _ \<Rightarrow> Some x)"

definition update_transports :: "enqueue_op \<Rightarrow> world \<Rightarrow> err + world" where
  "update_transports smart w =
     ebind (list_transports_msg 1024 w) (\<lambda>(buffer, w).
       update_loop smart (length (w_trackers w)) buffer (list_head (w_trackers w)) w)"

section \<open>Ready\<close>

definition local_socket_ready :: "addr \<Rightarrow> world \<Rightarrow> err + world" where
  "local_socket_ready a w = on_fdev (fdevent_add (FSock a) FDE_READ) w"

definition local_socket_ready_notify :: "addr \<Rightarrow> world \<Rightarrow> err + world" where
  "local_socket_ready_notify a w =
     ebind (mod_sock a plain_local w) (\<lambda>w.
     ebind (get_sock a w) (\<lambda>s.
     ebind (w_write_once (s_fd s) ''OKAY'' w) (\<lambda>w. local_socket_ready a w)))"

text \<open>\<open>s->ready(s)\<close> through the function pointer.\<close>

definition sready :: "enqueue_op \<Rightarrow> addr \<Rightarrow> world \<Rightarrow> err + world" where
  "sready smart a w =
     ebind (get_sock a w) (\<lambda>s.
       case s_ready s of
         Local_ready \<Rightarrow> local_socket_ready a w
       | Local_ready_notify \<Rightarrow> local_socket_ready_notify a w
       | Remote_ready \<Rightarrow> remote_socket_ready a w
       | Smart_ready \<Rightarrow> Inr w
       | Tracker_ready \<Rightarrow> device_tracker_ready smart a w)"

section \<open>Events on a local socket\<close>

datatype drain_res = Drained | Drain_again | Drain_failed

text \<open>The two loops that write the queue out: how they ended, the queue that is left, the
  bytes accepted and the script that is left.\<close>

function drain :: "apacket list \<Rightarrow> wres list \<Rightarrow> err + (drain_res \<times> apacket list \<times> bytes \<times> wres list)" where
  "drain [] ws = Inr (Drained, [], [], ws)"
| "drain (p # ps) ws =
     (if p_len p = 0 then drain ps ws
      else case ws of
             [] \<Rightarrow> Inl Blocked
           | WOk n # ws' \<Rightarrow>
               if n = 0 then Inr (Drain_failed, p # ps, [], ws')
               else if length (p_data p) < p_ptr p + p_len p then Inl Uninitialised
               else ebind (drain (p_advance (min n (p_len p)) p # ps) ws') (\<lambda>(r, q, acc, ws'').
                      Inr (r, q, take n (p_bytes p) @ acc, ws''))
           | WErr e # ws' \<Rightarrow>
               if e = EAGAIN then Inr (Drain_again, p # ps, [], ws')
               else if e = EINTR then drain (p # ps) ws'
               else Inr (Drain_failed, p # ps, [], ws'))"
  by pat_completeness auto
termination by (relation "measure (\<lambda>(ps, ws). length ps + length ws)") auto

text \<open>The read loop: the bytes read, whether it ended with end of file or an error, the last
  result of \<open>adb_read\<close>, and the script that is left.\<close>

fun read_avail :: "nat \<Rightarrow> rres list \<Rightarrow> int \<Rightarrow> err + (bytes \<times> bool \<times> int \<times> rres list)" where
  "read_avail avail [] r = (if avail = 0 then Inr ([], False, r, []) else Inl Blocked)"
| "read_avail avail (RData bs # rs) r =
     (if avail = 0 then Inr ([], False, r, RData bs # rs)
      else if bs = [] then Inr ([], True, 0, rs)
      else if length bs \<le> avail then
        ebind (read_avail (avail - length bs) rs (int (length bs))) (\<lambda>(d, eof, r, rs').
          Inr (bs @ d, eof, r, rs'))
      else Inr (take avail bs, False, int avail, RData (drop avail bs) # rs))"
| "read_avail avail (RErr e # rs) r =
     (if avail = 0 then Inr ([], False, r, RErr e # rs)
      else if e = EAGAIN then Inr ([], False, -1, rs)
      else if e = EINTR then read_avail avail rs r
      else Inr ([], True, -1, rs))"

text \<open>The writable part of \<open>local_socket_event_func\<close>; the flag tells whether the function goes
  on to the readable part.\<close>

definition local_socket_write_event :: "enqueue_op \<Rightarrow> addr \<Rightarrow> int \<Rightarrow> world \<Rightarrow> err + (bool \<times> world)" where
  "local_socket_write_event smart a fd w =
     ebind (get_sock a w) (\<lambda>s.
     ebind (drain (s_pkts s) (w_ws w fd)) (\<lambda>(r, q, acc, ws).
     ebind (mod_sock a (\<lambda>s. s\<lparr>s_pkts := q\<rparr>)
              (w\<lparr>w_ws := (w_ws w)(fd := ws), w_out := (w_out w)(fd := w_out w fd @ acc)\<rparr>)) (\<lambda>w.
       case r of
         Drain_again \<Rightarrow> Inr (False, w)
       | Drain_failed \<Rightarrow> ebind (sock_close a w) (\<lambda>w. Inr (False, w))
       | Drained \<Rightarrow>
           if s_closing s then ebind (sock_close a w) (\<lambda>w. Inr (False, w))
           else ebind (on_fdev (fdevent_del (FSock a) FDE_WRITE) w) (\<lambda>w.
                ebind (get_sock a w) (\<lambda>s.
                ebind (the_peer s) (\<lambda>b.
                ebind (sready smart b w) (\<lambda>w. Inr (True, w))))))))"

definition local_socket_read_event :: "enqueue_op \<Rightarrow> addr \<Rightarrow> int \<Rightarrow> world \<Rightarrow> err + world" where
  "local_socket_read_event smart a fd w =
     ebind (read_avail MAX_PAYLOAD (w_rs w fd) 0) (\<lambda>(d, eof, r, rs).
       let w = w\<lparr>w_rs := (w_rs w)(fd := rs)\<rparr>;
           last = (\<lambda>r w. ebind (get_fde (FSock a) (w_fdev w)) (\<lambda>e.
                     if (fde_force_eof e \<and> r = 0) \<or> eof then sock_close a w else Inr w))
       in ebind (get_sock a w) (\<lambda>s.
            if d = [] \<or> s_peer s = None then last r w
            else ebind (the_peer s) (\<lambda>b.
                 ebind (senqueue smart b (get_apacket\<lparr>p_data := d, p_len := length d\<rparr>) w) (\<lambda>(r, w).
                   if r < 0 then Inr w
                   else if 0 < r then
                     ebind (on_fdev (fdevent_del (FSock a) FDE_READ) w) (last r)
                   else last r w))))"

definition local_socket_event_func :: "enqueue_op \<Rightarrow> addr \<Rightarrow> int \<Rightarrow> u16 \<Rightarrow> world \<Rightarrow> err + world" where
  "local_socket_event_func smart a fd ev w =
     ebind (if ev AND FDE_WRITE \<noteq> 0 then local_socket_write_event smart a fd w else Inr (True, w)) (\<lambda>(go, w).
       if go \<and> ev AND FDE_READ \<noteq> 0 then local_socket_read_event smart a fd w else Inr w)"

section \<open>Creation\<close>

definition create_local_socket :: "int \<Rightarrow> world \<Rightarrow> err + (addr \<times> world)" where
  "create_local_socket fd w =
     (let (a, w) = new_sock \<lparr>s_id = 0, s_closing = False, s_exit_on_close = False, s_peer = None, s_fd = fd,
            s_pkts = [], s_enqueue = Local_enqueue, s_ready = Local_ready, s_shutdown = None,
            s_close = Local_close, s_transport = None, s_update_needed = False\<rparr> w
      in ebind (install_local_socket a w) (\<lambda>w.
         ebind (on_fdev (fdevent_install (FSock a) fd Local_socket_event_func) w) (\<lambda>w. Inr (a, w))))"

definition connect_to_remote :: "addr \<Rightarrow> string \<Rightarrow> world \<Rightarrow> err + world" where
  "connect_to_remote a destination w =
     (let len = length destination + 1 in
      if MAX_PAYLOAD - 1 < len then Inl (Fatal ''destination oversized'')
      else ebind (get_sock a w) (\<lambda>s.
        send_packet (get_apacket\<lparr>p_msg := zero_msg\<lparr>m_command := A_OPEN, m_arg0 := s_id s,
            m_data_length := of_nat len\<rparr>, p_data := destination @ [NUL]\<rparr>) (s_transport s) w))"

definition create_smart_socket :: "world \<Rightarrow> addr \<times> world" where
  "create_smart_socket w =
     new_sock \<lparr>s_id = 0, s_closing = False, s_exit_on_close = False, s_peer = None, s_fd = 0,
       s_pkts = [], s_enqueue = Smart_enqueue, s_ready = Smart_ready, s_shutdown = None,
       s_close = Smart_close, s_transport = None, s_update_needed = False\<rparr> w"

definition connect_to_smartsocket :: "enqueue_op \<Rightarrow> addr \<Rightarrow> world \<Rightarrow> err + world" where
  "connect_to_smartsocket smart a w =
     (let (ss, w) = create_smart_socket w in
      ebind (mod_sock a (\<lambda>s. s\<lparr>s_peer := Some ss\<rparr>) w) (\<lambda>w.
      ebind (mod_sock ss (\<lambda>s. s\<lparr>s_peer := Some a\<rparr>) w) (\<lambda>w. sready smart a w)))"

end
