(* ===== verification/Adb_Socket_Inv.thy ===== *)
theory Adb_Socket_Inv
  imports Adb_Sockets
begin

text \<open>
  The invariant of the sockets, and that closing, enqueueing and the other operations keep it:
  no pointer that an operation follows is dangling, and no lock is taken twice.
\<close>

section \<open>The invariant\<close>

definition is_local :: "asocket \<Rightarrow> bool" where
  "is_local s \<longleftrightarrow> s_enqueue s = Local_enqueue \<and> s_shutdown s = None \<and>
     (s_close s = Local_close \<and> s_ready s = Local_ready \<or>
      s_close s = Local_close_notify \<and> s_ready s = Local_ready_notify)"

definition is_remote :: "asocket \<Rightarrow> bool" where
  "is_remote s \<longleftrightarrow> s_enqueue s = Remote_enqueue \<and> s_shutdown s = Some Remote_shutdown \<and>
     s_close s = Remote_close \<and> s_ready s = Remote_ready"

definition is_smart :: "asocket \<Rightarrow> bool" where
  "is_smart s \<longleftrightarrow> s_enqueue s = Smart_enqueue \<and> s_shutdown s = None \<and>
     s_close s = Smart_close \<and> s_ready s = Smart_ready"

definition is_tracker :: "asocket \<Rightarrow> bool" where
  "is_tracker s \<longleftrightarrow> s_enqueue s = Tracker_enqueue \<and> s_shutdown s = None \<and>
     s_close s = Tracker_close \<and> s_ready s = Tracker_ready"

lemmas kind_defs = is_local_def is_remote_def is_smart_def is_tracker_def

text \<open>The callbacks registered with each transport.\<close>

definition w_dis :: "world \<Rightarrow> addr \<Rightarrow> disconnect list option" where
  "w_dis w t = map_option t_disconnects (w_trans w t)"

definition kinds_inv :: "world \<Rightarrow> bool" where
  "kinds_inv w \<longleftrightarrow> (\<forall>a s. w_socks w a = Some s \<longrightarrow>
     a < w_next w \<and> (is_local s \<or> is_remote s \<or> is_smart s \<or> is_tracker s))"

text \<open>The local sockets are the ones on the two lists; a closing one has no peer.\<close>

definition lists_inv :: "world \<Rightarrow> bool" where
  "lists_inv w \<longleftrightarrow> distinct (w_local w @ w_closing w) \<and>
     (\<forall>a. a \<in> set (w_local w) \<or> a \<in> set (w_closing w) \<longleftrightarrow> (\<exists>s. w_socks w a = Some s \<and> is_local s)) \<and>
     (\<forall>a s. w_socks w a = Some s \<and> is_local s \<longrightarrow>
        (s_closing s \<longleftrightarrow> a \<in> set (w_closing w)) \<and> (s_closing s \<longrightarrow> s_peer s = None))"

text \<open>Peers point to each other, and one of the two is local. The sockets in \<open>D\<close> are being
  closed and are left out.\<close>

definition peers_inv :: "addr set \<Rightarrow> world \<Rightarrow> bool" where
  "peers_inv D w \<longleftrightarrow> (\<forall>a s b. w_socks w a = Some s \<and> s_peer s = Some b \<and> a \<notin> D \<longrightarrow>
     a \<noteq> b \<and> (\<exists>t. w_socks w b = Some t \<and> s_peer t = Some a \<and> (is_local s \<or> is_local t)))"

definition queued_ok :: "apacket \<Rightarrow> bool" where
  "queued_ok p \<longleftrightarrow> p_ptr p + p_len p \<le> length (p_data p) \<and> length (p_data p) \<le> MAX_PAYLOAD"

definition locals_inv :: "addr set \<Rightarrow> world \<Rightarrow> bool" where
  "locals_inv D w \<longleftrightarrow> (\<forall>a s. w_socks w a = Some s \<and> is_local s \<longrightarrow>
     (\<forall>p \<in> set (s_pkts s). queued_ok p) \<and>
     (a \<notin> D \<longrightarrow> (s_close s = Local_close_notify \<longrightarrow> s_peer s = None) \<and>
                (s_pkts s \<noteq> [] \<and> \<not> s_closing s \<longrightarrow> s_peer s \<noteq> None)))"

text \<open>A remote socket is registered with its transport, which is allocated, and nothing else
  is registered.\<close>

definition remotes_inv :: "world \<Rightarrow> bool" where
  "remotes_inv w \<longleftrightarrow>
     (\<forall>a s. w_socks w a = Some s \<and> is_remote s \<longrightarrow>
        (\<exists>t ds. s_transport s = Some t \<and> w_dis w t = Some ds \<and> Dis_remote a \<in> set ds)) \<and>
     (\<forall>t ds. w_dis w t = Some ds \<longrightarrow> distinct ds \<and> (\<forall>a. Dis_remote a \<in> set ds \<longrightarrow>
        (\<exists>s. w_socks w a = Some s \<and> is_remote s \<and> s_transport s = Some t)))"

definition trackers_inv :: "addr set \<Rightarrow> world \<Rightarrow> bool" where
  "trackers_inv D w \<longleftrightarrow> distinct (w_trackers w) \<and>
     (\<forall>a. a \<in> set (w_trackers w) \<longleftrightarrow> (\<exists>s. w_socks w a = Some s \<and> is_tracker s)) \<and>
     (\<forall>a s. w_socks w a = Some s \<and> is_tracker s \<and> a \<notin> D \<longrightarrow> s_peer s \<noteq> None)"

text \<open>Exactly the local sockets have an event record, and every transport on the list is
  allocated.\<close>

definition events_inv :: "world \<Rightarrow> bool" where
  "events_inv w \<longleftrightarrow> fdev_inv (w_fdev w) \<and>
     (\<forall>a. owned (w_fdev w) (FSock a) \<longleftrightarrow> (\<exists>s. w_socks w a = Some s \<and> is_local s)) \<and>
     (\<forall>fd \<in> set (w_newfds w). fd < int FD_LIMIT) \<and>
     (\<forall>t \<in> set (w_transport_list w). w_dis w t \<noteq> None)"

definition wf_upto :: "addr set \<Rightarrow> world \<Rightarrow> bool" where
  "wf_upto D w \<longleftrightarrow> kinds_inv w \<and> lists_inv w \<and> peers_inv D w \<and> locals_inv D w \<and> remotes_inv w \<and>
     trackers_inv D w \<and> events_inv w"

lemmas wf_parts = kinds_inv_def lists_inv_def peers_inv_def locals_inv_def remotes_inv_def
  trackers_inv_def events_inv_def

definition unlocked :: "world \<Rightarrow> bool" where
  "unlocked w \<longleftrightarrow> \<not> w_socket_list_lock w \<and> \<not> w_transport_lock w"

text \<open>The invariant of the server between two steps.\<close>

definition wf_world :: "world \<Rightarrow> bool" where
  "wf_world w \<longleftrightarrow> wf_upto {} w \<and> unlocked w"

lemma kinds_disjoint:
  "is_local s \<Longrightarrow> \<not> is_remote s \<and> \<not> is_smart s \<and> \<not> is_tracker s"
  "is_remote s \<Longrightarrow> \<not> is_local s \<and> \<not> is_smart s \<and> \<not> is_tracker s"
  "is_smart s \<Longrightarrow> \<not> is_local s \<and> \<not> is_remote s \<and> \<not> is_tracker s"
  "is_tracker s \<Longrightarrow> \<not> is_local s \<and> \<not> is_remote s \<and> \<not> is_smart s"
  by (auto simp: kind_defs)

section \<open>Frames\<close>

text \<open>What an operation may change of the transports: packets are appended.\<close>

definition sends_only :: "world \<Rightarrow> world \<Rightarrow> bool" where
  "sends_only w w' \<longleftrightarrow> (\<forall>t. case w_trans w t of
      None \<Rightarrow> w_trans w' t = None
    | Some x \<Rightarrow> \<exists>ds ps. w_trans w' t = Some (x\<lparr>t_disconnects := ds, t_to_remote := t_to_remote x @ ps\<rparr>))"

definition live :: "world \<Rightarrow> disconnect \<Rightarrow> bool" where
  "live w d = (case d of Dis_remote a \<Rightarrow> w_socks w a \<noteq> None | Dis_listener _ \<Rightarrow> True)"

text \<open>The sockets in \<open>X\<close> may have changed or gone; the others, and the order of everything
  that is left, have not.\<close>

definition shrinks :: "addr set \<Rightarrow> world \<Rightarrow> world \<Rightarrow> bool" where
  "shrinks X w w' \<longleftrightarrow>
     (\<forall>x. x \<notin> X \<longrightarrow> w_socks w' x = w_socks w x) \<and>
     (\<forall>x. w_socks w x = None \<longrightarrow> w_socks w' x = None) \<and>
     w_trackers w' = filter (\<lambda>x. w_socks w' x \<noteq> None) (w_trackers w) \<and>
     (\<forall>t. w_dis w' t = map_option (filter (live w')) (w_dis w t)) \<and>
     (\<forall>x. (\<forall>a. x \<noteq> FSock a) \<longrightarrow> owned (w_fdev w') x = owned (w_fdev w) x) \<and>
     sends_only w w' \<and> w_next w' = w_next w \<and> w_next_id w' = w_next_id w \<and>
     w_listeners w' = w_listeners w \<and> w_listener_list w' = w_listener_list w \<and>
     w_transport_list w' = w_transport_list w \<and> w_pending_list w' = w_pending_list w \<and>
     w_HOST w' = w_HOST w \<and> w_auth_enabled w' = w_auth_enabled w \<and> w_newfds w' = w_newfds w \<and>
     w_key_list w' = w_key_list w \<and>
     w_socket_list_lock w' = w_socket_list_lock w \<and> w_transport_lock w' = w_transport_lock w"

lemma sends_only_trans: "sends_only w w' \<Longrightarrow> sends_only w' w'' \<Longrightarrow> sends_only w w''"
  unfolding sends_only_def
proof (intro allI)
  fix t
  assume 1: "\<forall>t. case w_trans w t of None \<Rightarrow> w_trans w' t = None
      | Some x \<Rightarrow> \<exists>ds ps. w_trans w' t = Some (x\<lparr>t_disconnects := ds, t_to_remote := t_to_remote x @ ps\<rparr>)"
    and 2: "\<forall>t. case w_trans w' t of None \<Rightarrow> w_trans w'' t = None
      | Some x \<Rightarrow> \<exists>ds ps. w_trans w'' t = Some (x\<lparr>t_disconnects := ds, t_to_remote := t_to_remote x @ ps\<rparr>)"
  show "case w_trans w t of None \<Rightarrow> w_trans w'' t = None
      | Some x \<Rightarrow> \<exists>ds ps. w_trans w'' t = Some (x\<lparr>t_disconnects := ds, t_to_remote := t_to_remote x @ ps\<rparr>)"
    using 1 [rule_format, of t] 2 [rule_format, of t] by (auto split: option.splits; blast)
qed

lemma shrinks_trans:
  assumes 1: "shrinks X w w'" and 2: "shrinks Y w' w''"
  shows "shrinks (X \<union> Y) w w''"
proof -
  have gone: "w_socks w'' x \<noteq> None \<longrightarrow> w_socks w' x \<noteq> None" for x
    using 2 unfolding shrinks_def by metis
  have l: "live w' d \<and> live w'' d \<longleftrightarrow> live w'' d" for d
    using gone by (auto simp: live_def split: disconnect.splits)
  have "filter (\<lambda>x. w_socks w'' x \<noteq> None) (filter (\<lambda>x. w_socks w' x \<noteq> None) xs) =
      filter (\<lambda>x. w_socks w'' x \<noteq> None) xs" for xs
    using gone by (auto intro: filter_cong)
  moreover have "filter (live w'') (filter (live w') ds) = filter (live w'') ds" for ds
    using l by (auto intro: filter_cong)
  moreover have "w_dis w'' t = map_option (filter (live w'')) (w_dis w t)" for t
    using 1 2 calculation(2) unfolding shrinks_def by (simp add: option.map_comp o_def)
  ultimately show ?thesis
    using 1 2 sends_only_trans [of w w' w''] unfolding shrinks_def by auto
qed

text \<open>Steps that change nothing the invariant speaks about.\<close>

definition quiet :: "world \<Rightarrow> world \<Rightarrow> bool" where
  "quiet w w' \<longleftrightarrow> w_socks w' = w_socks w \<and> w_next w' = w_next w \<and> w_next_id w' = w_next_id w \<and>
     w_local w' = w_local w \<and> w_closing w' = w_closing w \<and> w_trackers w' = w_trackers w \<and>
     w_dis w' = w_dis w \<and> sends_only w w' \<and> w_transport_list w' = w_transport_list w \<and>
     w_pending_list w' = w_pending_list w \<and> w_listeners w' = w_listeners w \<and>
     w_listener_list w' = w_listener_list w \<and> w_fdev w' = w_fdev w \<and> w_newfds w' = w_newfds w \<and>
     w_HOST w' = w_HOST w \<and> w_auth_enabled w' = w_auth_enabled w \<and> w_key_list w' = w_key_list w \<and>
     w_socket_list_lock w' = w_socket_list_lock w \<and> w_transport_lock w' = w_transport_lock w"

lemma quiet_wf: "quiet w w' \<Longrightarrow> wf_upto D w' = wf_upto D w"
  by (simp add: wf_upto_def wf_parts quiet_def)

lemma sends_only_cong: "w_trans w1 = w_trans w2 \<Longrightarrow> sends_only w w1 = sends_only w w2"
  by (simp only: sends_only_def)

lemma sends_only_refl: "w_trans w' = w_trans w \<Longrightarrow> sends_only w w'"
proof -
  have "\<exists>ds ps. x = x\<lparr>t_disconnects := ds, t_to_remote := t_to_remote x @ ps\<rparr>" for x :: atransport
    by (intro exI [of _ "t_disconnects x"] exI [of _ "[]"]) simp
  then show "w_trans w' = w_trans w \<Longrightarrow> sends_only w w'"
    by (auto simp: sends_only_def split: option.split)
qed

lemma wf_trackers_alive:
  "trackers_inv D w \<Longrightarrow> filter (\<lambda>x. w_socks w x \<noteq> None) (w_trackers w) = w_trackers w"
  by (rule filter_True) (auto simp: trackers_inv_def)

lemma remotesD:
  assumes "remotes_inv w"
  shows "w_socks w a = Some s \<Longrightarrow> is_remote s \<Longrightarrow>
      \<exists>t ds. s_transport s = Some t \<and> w_dis w t = Some ds \<and> Dis_remote a \<in> set ds"
    and "w_dis w t = Some ds \<Longrightarrow> distinct ds"
    and "w_dis w t = Some ds \<Longrightarrow> Dis_remote a \<in> set ds \<Longrightarrow>
      \<exists>s. w_socks w a = Some s \<and> is_remote s \<and> s_transport s = Some t"
  using assms unfolding remotes_inv_def by blast+

lemma get_sock_Inr [simp]: "get_sock a w = Inr s \<longleftrightarrow> w_socks w a = Some s"
  by (auto simp: get_sock_def split: option.splits)

lemma get_sock_Some: "w_socks w a = Some s \<Longrightarrow> get_sock a w = Inr s"
  by simp

lemma get_trans_Inr [simp]: "get_trans t w = Inr x \<longleftrightarrow> w_trans w t = Some x"
  by (auto simp: get_trans_def split: option.splits)

lemma wf_dis_live: "remotes_inv w \<Longrightarrow> map_option (filter (live w)) (w_dis w t) = w_dis w t"
proof -
  assume r: "remotes_inv w"
  have "live w d" if "w_dis w t = Some ds" "d \<in> set ds" for d ds
    using remotesD(3) [OF r that(1)] that(2) by (cases d) (auto simp: live_def)
  then show ?thesis by (cases "w_dis w t") (auto simp: filter_id_conv)
qed

lemma quiet_shrinks:
  assumes "wf_upto D w" and "quiet w w'"
  shows "shrinks {} w w'"
proof -
  have "live w' = live w" using assms(2) by (auto simp: live_def quiet_def fun_eq_iff split: disconnect.split)
  then show ?thesis
    using assms wf_trackers_alive [of D w] wf_dis_live [of w]
    by (simp add: shrinks_def quiet_def wf_upto_def)
qed

lemma shrinks_refl: "wf_upto D w \<Longrightarrow> shrinks {} w w"
  by (erule quiet_shrinks) (simp add: quiet_def sends_only_refl)

lemma shrinks_mono: "shrinks X w w' \<Longrightarrow> X \<subseteq> Y \<Longrightarrow> shrinks Y w w'"
  unfolding shrinks_def by blast

lemma write_ptr_loop_ok: "ok (write_ptr_loop n ws) (\<lambda>_. True)"
  by (induction n ws rule: write_ptr_loop.induct) auto

lemma writex_ok: "ok (writex bs ws) (\<lambda>_. True)"
proof (induction bs ws rule: writex.induct)
  case (2 bs n ws)
  then show ?case by (auto intro: ok_ebind)
qed auto

text \<open>A completed send: one packet more on its way to the transport.\<close>

lemma send_packet_Inr:
  assumes "send_packet p t w = Inr w'"
  obtains ta x q ws where "t = Some ta" "w_trans w ta = Some x" "seal_packet p = Inr q"
    "w' = w\<lparr>w_ws := (w_ws w)(t_transport_socket x := ws),
            w_trans := (w_trans w)(ta \<mapsto> x\<lparr>t_to_remote := t_to_remote x @ [q]\<rparr>)\<rparr>"
  using assms that
  by (cases t) (auto simp: send_packet_def ebind_eq_Inr split: if_splits)

lemma send_packet_quiet:
  assumes "send_packet p t w = Inr w'"
  shows "quiet w w'"
  using assms
proof (rule send_packet_Inr)
  fix ta x q ws
  assume x: "w_trans w ta = Some x" and w': "w' = w\<lparr>w_ws := (w_ws w)(t_transport_socket x := ws),
            w_trans := (w_trans w)(ta \<mapsto> x\<lparr>t_to_remote := t_to_remote x @ [q]\<rparr>)\<rparr>"
  have same: "\<exists>ds ps. y = y\<lparr>t_disconnects := ds, t_to_remote := t_to_remote y @ ps\<rparr>" for y :: atransport
    by (intro exI [of _ "t_disconnects y"] exI [of _ "[]"]) simp
  have new: "\<exists>ds ps. x\<lparr>t_to_remote := t_to_remote x @ [q]\<rparr> =
      x\<lparr>t_disconnects := ds, t_to_remote := t_to_remote x @ ps\<rparr>"
    by (intro exI [of _ "t_disconnects x"] exI [of _ "[q]"]) simp
  have "sends_only w w'"
    using x w' same new by (auto simp: sends_only_def split: option.split)
  then show "quiet w w'" using x w' by (auto simp: quiet_def w_dis_def fun_eq_iff)
qed

lemma send_packet_ok:
  assumes "w_dis w ta \<noteq> None" and "unat (m_data_length (p_msg p)) \<le> length (p_data p)"
  shows "ok (send_packet p (Some ta) w) (quiet w)"
proof -
  obtain x where x: "w_trans w ta = Some x" using assms(1) by (auto simp: w_dis_def)
  obtain q where q: "seal_packet p = Inr q"
    using assms(2) by (simp add: seal_packet_def sum_loop_eq Let_def)
  have "ok (send_packet p (Some ta) w) (\<lambda>_. True)"
    using x q write_ptr_loop_ok [of ptr_size "w_ws w (t_transport_socket x)"]
    by (auto simp: send_packet_def get_trans_def write_packet_def intro!: ok_ebind)
  then show ?thesis
    using send_packet_quiet [of p "Some ta" w] by (cases "send_packet p (Some ta) w") auto
qed

lemma w_writex_ok: "ok (w_writex fd bs w) (\<lambda>(_, w'). quiet w w')"
  unfolding w_writex_def
  by (rule ok_ebind [OF writex_ok]) (auto simp: quiet_def w_dis_def fun_eq_iff sends_only_refl)

lemma quiet_trans: "quiet w w' \<Longrightarrow> quiet w' w'' \<Longrightarrow> quiet w w''"
  unfolding quiet_def by (auto intro: sends_only_trans)

lemma quiet_refl [simp]: "quiet w w"
  by (simp add: quiet_def sends_only_refl)

lemma w_writex_quiet: "quiet w0 w \<Longrightarrow> ok (w_writex fd bs w) (\<lambda>(_, w'). quiet w0 w')"
  by (rule ok_mono [OF w_writex_ok]) (auto intro: quiet_trans)

lemma sendfailmsg_ok: "ok (sendfailmsg fd reason w) (\<lambda>(_, w'). quiet w w')"
  unfolding sendfailmsg_def Let_def
  by (rule ok_ebind [OF w_writex_ok]) (auto intro!: w_writex_quiet)

lemma write_once_ok: "ok (write_once bs ws) (\<lambda>_. True)"
  by (induction bs ws rule: write_once.induct) auto

lemma w_write_once_ok: "ok (w_write_once fd bs w) (quiet w)"
  unfolding w_write_once_def
  by (rule ok_ebind [OF write_once_ok]) (auto simp: quiet_def w_dis_def fun_eq_iff sends_only_refl)

section \<open>Single updates\<close>

text \<open>A socket changes without changing its kind, its peer or the flags that the lists follow.\<close>

definition same_role :: "asocket \<Rightarrow> asocket \<Rightarrow> bool" where
  "same_role s s' \<longleftrightarrow> s_peer s' = s_peer s \<and> (is_remote s \<longrightarrow> s_transport s' = s_transport s) \<and> s_closing s' = s_closing s \<and>
     is_local s' = is_local s \<and> is_remote s' = is_remote s \<and> is_smart s' = is_smart s \<and>
     is_tracker s' = is_tracker s"

lemma same_role_kind:
  "same_role s s' \<Longrightarrow> is_local s' = is_local s \<and> is_remote s' = is_remote s \<and> is_smart s' = is_smart s \<and>
     is_tracker s' = is_tracker s"
  by (simp add: same_role_def)

lemma same_role_refl [simp]: "same_role s s"
  by (simp add: same_role_def)

lemma peers_roles:
  assumes "peers_inv D w"
    and fwd: "\<And>x sx. w_socks w' x = Some sx \<Longrightarrow> \<exists>s0. w_socks w x = Some s0 \<and> same_role s0 sx"
    and bwd: "\<And>x s0. w_socks w x = Some s0 \<Longrightarrow> \<exists>sx. w_socks w' x = Some sx \<and> same_role s0 sx"
  shows "peers_inv D w'"
  unfolding peers_inv_def
proof (intro allI impI, elim conjE)
  fix x sx b
  assume x: "w_socks w' x = Some sx" "s_peer sx = Some b" "x \<notin> D"
  obtain s0 where s0: "w_socks w x = Some s0" "same_role s0 sx" using fwd x(1) by blast
  then have "s_peer s0 = Some b" using x(2) by (simp add: same_role_def)
  then obtain t where t: "x \<noteq> b" "w_socks w b = Some t" "s_peer t = Some x" "is_local s0 \<or> is_local t"
    using assms(1) s0(1) x(3) unfolding peers_inv_def by blast
  obtain t' where "w_socks w' b = Some t'" "same_role t t'" using bwd t(2) by blast
  then show "x \<noteq> b \<and> (\<exists>t. w_socks w' b = Some t \<and> s_peer t = Some x \<and> (is_local sx \<or> is_local t))"
    using t s0(2) unfolding same_role_def by auto
qed

lemma remotes_roles:
  assumes r: "remotes_inv w" and dis: "w_dis w' = w_dis w"
    and fwd: "\<And>x sx. w_socks w' x = Some sx \<Longrightarrow> \<exists>s0. w_socks w x = Some s0 \<and> same_role s0 sx"
    and bwd: "\<And>x s0. w_socks w x = Some s0 \<Longrightarrow> \<exists>sx. w_socks w' x = Some sx \<and> same_role s0 sx"
  shows "remotes_inv w'"
  unfolding remotes_inv_def dis
proof (intro conjI allI impI, elim conjE)
  fix x sx
  assume x: "w_socks w' x = Some sx" "is_remote sx"
  obtain s0 where s0: "w_socks w x = Some s0" "same_role s0 sx" using fwd x(1) by blast
  then have "is_remote s0" using x(2) same_role_kind by blast
  then show "\<exists>t ds. s_transport sx = Some t \<and> w_dis w t = Some ds \<and> Dis_remote x \<in> set ds"
    using remotesD(1) [OF r s0(1)] s0(2) by (simp add: same_role_def)
next
  fix t ds x
  assume "w_dis w t = Some ds" "Dis_remote x \<in> set ds"
  then obtain s0 where s0: "w_socks w x = Some s0" "is_remote s0" "s_transport s0 = Some t"
    using remotesD(3) [OF r] by blast
  obtain sx where "w_socks w' x = Some sx" "same_role s0 sx" using bwd s0(1) by blast
  then show "\<exists>s. w_socks w' x = Some s \<and> is_remote s \<and> s_transport s = Some t"
    using s0 unfolding same_role_def by auto
qed (use remotesD(2) [OF r] in blast)

lemma wf_update:
  assumes wf: "wf_upto D w" and a: "w_socks w a = Some s" and r: "same_role s s'"
    and n: "s_close s' = Local_close_notify \<Longrightarrow> s_close s = Local_close_notify"
    and q: "is_local s \<Longrightarrow> \<forall>p \<in> set (s_pkts s'). queued_ok p"
    and d: "a \<notin> D \<Longrightarrow> is_local s \<Longrightarrow> s_pkts s' \<noteq> [] \<Longrightarrow> \<not> s_closing s \<Longrightarrow> s_peer s \<noteq> None"
  shows "wf_upto D (w\<lparr>w_socks := (w_socks w)(a \<mapsto> s')\<rparr>)"
proof -
  let ?w = "w\<lparr>w_socks := (w_socks w)(a \<mapsto> s')\<rparr>"
  have k: "is_local s' = is_local s" "is_remote s' = is_remote s" "is_smart s' = is_smart s"
    "is_tracker s' = is_tracker s" using same_role_kind [OF r] by auto
  have rr: "s_peer s' = s_peer s" "s_closing s' = s_closing s"
    using r by (simp_all add: same_role_def)
  have dis: "w_dis ?w = w_dis w" by (simp add: w_dis_def fun_eq_iff)
  have "kinds_inv ?w" using wf a k by (auto simp: wf_upto_def kinds_inv_def)
  moreover have "lists_inv ?w"
    using wf a k rr by (auto simp: wf_upto_def lists_inv_def)
  moreover have fwd: "\<exists>s0. w_socks w x = Some s0 \<and> same_role s0 sx" if "w_socks ?w x = Some sx" for x sx
    using that a r by (cases "x = a") auto
  moreover have bwd: "\<exists>sx. w_socks ?w x = Some sx \<and> same_role s0 sx" if "w_socks w x = Some s0" for x s0
    using that a r by (cases "x = a") auto
  moreover have "peers_inv D ?w"
    using wf peers_roles [of D w ?w, OF _ fwd bwd] by (simp add: wf_upto_def)
  moreover have "locals_inv D ?w"
    using wf a k rr n q d by (auto simp: wf_upto_def locals_inv_def)
  moreover have "remotes_inv ?w"
    using wf remotes_roles [of w ?w, OF _ dis fwd bwd] by (simp add: wf_upto_def)
  moreover have "trackers_inv D ?w"
    using wf a k rr by (auto simp: wf_upto_def trackers_inv_def)
  moreover have "events_inv ?w"
    using wf a k unfolding wf_upto_def events_inv_def dis by auto
  ultimately show ?thesis by (simp add: wf_upto_def)
qed

text \<open>A socket loses its peer; from then on only sockets in \<open>D'\<close> point to it.\<close>

definition unpeer :: "asocket \<Rightarrow> asocket" where
  "unpeer s = s\<lparr>s_peer := None\<rparr>"

lemma unpeer_kind [simp]:
  "is_local (unpeer s) = is_local s" "is_remote (unpeer s) = is_remote s" "is_smart (unpeer s) = is_smart s"
  "is_tracker (unpeer s) = is_tracker s" "s_peer (unpeer s) = None" "s_transport (unpeer s) = s_transport s"
  "s_closing (unpeer s) = s_closing s" "s_pkts (unpeer s) = s_pkts s" "s_close (unpeer s) = s_close s"
  "s_fd (unpeer s) = s_fd s" "s_id (unpeer s) = s_id s" "s_shutdown (unpeer s) = s_shutdown s"
  by (simp_all add: unpeer_def kind_defs)

lemma wf_unpeer:
  assumes wf: "wf_upto D w" and b: "w_socks w b = Some t" and D': "insert b D \<subseteq> D'"
    and alone: "\<And>x sx. w_socks w x = Some sx \<Longrightarrow> s_peer sx = Some b \<Longrightarrow> x \<notin> D' \<Longrightarrow> False"
  shows "wf_upto D' (w\<lparr>w_socks := (w_socks w)(b \<mapsto> unpeer t)\<rparr>)"
proof -
  let ?w = "w\<lparr>w_socks := (w_socks w)(b \<mapsto> unpeer t)\<rparr>"
  have dis: "w_dis ?w = w_dis w" by (simp add: w_dis_def fun_eq_iff)
  have "kinds_inv ?w" using wf b by (auto simp: wf_upto_def kinds_inv_def)
  moreover have "lists_inv ?w" using wf b by (auto simp: wf_upto_def lists_inv_def)
  moreover have "peers_inv D' ?w"
    unfolding peers_inv_def
  proof (intro allI impI, elim conjE)
    fix x sx y
    assume x: "w_socks ?w x = Some sx" "s_peer sx = Some y" "x \<notin> D'"
    have "x \<noteq> b" using x(3) D' by auto
    then have x': "w_socks w x = Some sx" using x(1) by simp
    have "y \<noteq> b" using alone x' x(2,3) by blast
    moreover have "x \<notin> D" using x(3) D' by auto
    ultimately show "x \<noteq> y \<and> (\<exists>t. w_socks ?w y = Some t \<and> s_peer t = Some x \<and> (is_local sx \<or> is_local t))"
      using wf x' x(2) unfolding wf_upto_def peers_inv_def by simp
  qed
  moreover have "locals_inv D' ?w"
    using wf b D' unfolding wf_upto_def locals_inv_def by auto
  moreover have "remotes_inv ?w"
    unfolding remotes_inv_def dis
  proof (intro conjI allI impI, elim conjE)
    fix x sx
    assume "w_socks ?w x = Some sx" "is_remote sx"
    then show "\<exists>t ds. s_transport sx = Some t \<and> w_dis w t = Some ds \<and> Dis_remote x \<in> set ds"
      using wf b remotesD(1) [of w x] by (cases "x = b") (auto simp: wf_upto_def)
  next
    fix u ds x
    assume "w_dis w u = Some ds" "Dis_remote x \<in> set ds"
    then obtain s0 where "w_socks w x = Some s0" "is_remote s0" "s_transport s0 = Some u"
      using remotesD(3) [of w u ds x] wf by (auto simp: wf_upto_def)
    then show "\<exists>s. w_socks ?w x = Some s \<and> is_remote s \<and> s_transport s = Some u"
      using b by (cases "x = b") auto
  qed (use remotesD(2) [of w] wf in \<open>auto simp: wf_upto_def\<close>)
  moreover have "trackers_inv D' ?w"
    using wf b D' unfolding wf_upto_def trackers_inv_def by auto blast
  moreover have "events_inv ?w"
    using wf b unfolding wf_upto_def events_inv_def dis by auto
  ultimately show ?thesis by (simp add: wf_upto_def)
qed

lemma peerD:
  assumes "wf_upto D w" and "w_socks w a = Some s" and "s_peer s = Some b" and "a \<notin> D"
  obtains t where "a \<noteq> b" "w_socks w b = Some t" "s_peer t = Some a" "is_local s \<or> is_local t"
  using assms unfolding wf_upto_def peers_inv_def by blast

text \<open>The first step of every close: the peer is detached.\<close>

lemma wf_detach:
  assumes wf: "wf_upto D w" and a: "w_socks w a = Some s" "s_peer s = Some b" "a \<notin> D"
    and b: "w_socks w b = Some t"
  shows "wf_upto (insert a (insert b D)) (w\<lparr>w_socks := (w_socks w)(b \<mapsto> unpeer t)\<rparr>)"
proof (rule wf_unpeer [OF wf b])
  fix x sx
  assume x: "w_socks w x = Some sx" "s_peer sx = Some b" "x \<notin> insert a (insert b D)"
  have "s_peer t = Some a" using wf a b by (auto elim: peerD)
  moreover have "s_peer t = Some x" using wf x b by (auto elim: peerD)
  ultimately show False using x(3) by simp
qed auto

text \<open>The last: the socket forgets its peer, which is closed by then.\<close>

lemma wf_forget:
  assumes wf: "wf_upto D w" and a: "w_socks w a = Some s" "s_peer s = Some b" "a \<in> D"
    and b: "\<And>t. w_socks w b = Some t \<Longrightarrow> s_peer t = None"
  shows "wf_upto D (w\<lparr>w_socks := (w_socks w)(a \<mapsto> unpeer s)\<rparr>)"
proof (rule wf_unpeer [OF wf a(1)])
  fix x sx
  assume x: "w_socks w x = Some sx" "s_peer sx = Some a" "x \<notin> D"
  then obtain t where "w_socks w a = Some t" "s_peer t = Some x" using wf by (auto elim: peerD)
  then show False using a b x(1,2) by auto
qed (use a(3) in auto)

text \<open>A socket is taken out of the heap and of everything that names it; nobody outside
  \<open>D\<close> points to it.\<close>

lemma wf_drop:
  assumes wf: "wf_upto D w" and b: "w_socks w b = Some t"
    and alone: "\<And>x sx. w_socks w x = Some sx \<Longrightarrow> s_peer sx = Some b \<Longrightarrow> x \<notin> D - {b} \<Longrightarrow> x \<noteq> b \<Longrightarrow> False"
    and w': "w_socks w' = (w_socks w)(b := None)" "w_next w' = w_next w"
      "w_local w' = remove1 b (w_local w)" "w_closing w' = remove1 b (w_closing w)"
      "w_trackers w' = remove1 b (w_trackers w)"
      "w_dis w' = (\<lambda>u. map_option (remove1 (Dis_remote b)) (w_dis w u))"
      "w_transport_list w' = w_transport_list w" "w_newfds w' = w_newfds w"
    and ev: "fdev_inv (w_fdev w')" "owned (w_fdev w') = (owned (w_fdev w))(FSock b := False)"
  shows "wf_upto (D - {b}) w'"
proof -
  have l: "lists_inv w" and tr: "trackers_inv D w" and e: "events_inv w" and lo: "locals_inv D w"
    and r: "remotes_inv w" using wf by (simp_all add: wf_upto_def)
  have socks: "w_socks w' x = Some sx \<longleftrightarrow> x \<noteq> b \<and> w_socks w x = Some sx" for x sx
    using w'(1) by simp
  have sets: "set (w_local w') = set (w_local w) - {b}" "set (w_closing w') = set (w_closing w) - {b}"
    "set (w_trackers w') = set (w_trackers w) - {b}"
    using l tr w'(3-5) by (simp_all add: lists_inv_def trackers_inv_def set_remove1_eq)
  have "kinds_inv w'" using wf w' by (auto simp: wf_upto_def kinds_inv_def)
  moreover have "lists_inv w'"
    unfolding lists_inv_def socks sets
  proof (intro conjI)
    show "distinct (w_local w' @ w_closing w')"
      using l sets w'(3,4) by (auto simp: lists_inv_def)
  qed (use l in \<open>auto simp: lists_inv_def\<close>)
  moreover have "peers_inv (D - {b}) w'"
    unfolding peers_inv_def
  proof (intro allI impI, elim conjE)
    fix x sx y
    assume x: "w_socks w' x = Some sx" "s_peer sx = Some y" "x \<notin> D - {b}"
    then have x': "w_socks w x = Some sx" "x \<noteq> b" using w'(1) by (auto split: if_splits)
    then have "y \<noteq> b" using alone x by blast
    then show "x \<noteq> y \<and> (\<exists>t. w_socks w' y = Some t \<and> s_peer t = Some x \<and> (is_local sx \<or> is_local t))"
      using wf x x' w'(1) unfolding wf_upto_def peers_inv_def by simp
  qed
  moreover have "locals_inv (D - {b}) w'"
    using lo unfolding locals_inv_def socks by blast
  moreover have "remotes_inv w'"
    unfolding remotes_inv_def
  proof (intro conjI allI impI, elim conjE)
    fix x sx
    assume x: "w_socks w' x = Some sx" "is_remote sx"
    then have x': "w_socks w x = Some sx" "x \<noteq> b" using socks by auto
    obtain u ds where "s_transport sx = Some u" "w_dis w u = Some ds" "Dis_remote x \<in> set ds"
      using remotesD(1) [OF r x'(1) x(2)] by blast
    then show "\<exists>u ds. s_transport sx = Some u \<and> w_dis w' u = Some ds \<and> Dis_remote x \<in> set ds"
      using w'(6) x'(2) by simp
  next
    fix u ds x
    assume "w_dis w' u = Some ds" "Dis_remote x \<in> set ds"
    then obtain ds0 where ds0: "w_dis w u = Some ds0" "ds = remove1 (Dis_remote b) ds0" "Dis_remote x \<in> set ds"
      using w'(6) by auto
    have "distinct ds0" using wf ds0(1) remotesD(2) by (auto simp: wf_upto_def)
    then have "x \<noteq> b" "Dis_remote x \<in> set ds0" using ds0 by auto
    then show "\<exists>s. w_socks w' x = Some s \<and> is_remote s \<and> s_transport s = Some u"
      using remotesD(3) [OF r ds0(1), of x] socks by auto
  next
    fix u ds
    assume "w_dis w' u = Some ds"
    then show "distinct ds" using w'(6) remotesD(2) [OF r, of u] by auto
  qed
  moreover have "trackers_inv (D - {b}) w'"
    unfolding trackers_inv_def socks sets
  proof (intro conjI)
    show "distinct (w_trackers w')" using tr w'(5) by (simp add: trackers_inv_def)
  qed (use tr in \<open>auto simp: trackers_inv_def\<close>)
  moreover have "events_inv w'"
    using e w'(6-8) ev unfolding events_inv_def socks by auto
  ultimately show ?thesis by (simp add: wf_upto_def)
qed

lemma remove1_filter:
  "distinct xs \<Longrightarrow> (\<And>x. x \<in> set xs \<Longrightarrow> P x \<longleftrightarrow> x \<noteq> b) \<Longrightarrow> remove1 b xs = filter P xs"
  unfolding distinct_remove1_removeAll removeAll_filter_not_eq by (rule filter_cong) auto

lemma shrinks_drop:
  assumes wf: "wf_upto D w" and b: "w_socks w b = Some t"
    and w': "w_socks w' = (w_socks w)(b := None)"
      "w_trackers w' = remove1 b (w_trackers w)"
      "w_dis w' = (\<lambda>u. map_option (remove1 (Dis_remote b)) (w_dis w u))" "sends_only w w'"
      "w_next w' = w_next w" "w_next_id w' = w_next_id w" "w_listeners w' = w_listeners w"
      "w_listener_list w' = w_listener_list w" "w_transport_list w' = w_transport_list w"
      "w_pending_list w' = w_pending_list w" "w_HOST w' = w_HOST w" "w_auth_enabled w' = w_auth_enabled w"
      "w_newfds w' = w_newfds w" "w_key_list w' = w_key_list w"
      "w_socket_list_lock w' = w_socket_list_lock w" "w_transport_lock w' = w_transport_lock w"
      "owned (w_fdev w') = (owned (w_fdev w))(FSock b := False)"
  shows "shrinks {b} w w'"
proof -
  have "remove1 b (w_trackers w) = filter (\<lambda>x. w_socks w' x \<noteq> None) (w_trackers w)"
    by (rule remove1_filter) (use wf w'(1) in \<open>auto simp: wf_upto_def trackers_inv_def\<close>)
  moreover have "remove1 (Dis_remote b) ds = filter (live w') ds" if ds: "w_dis w u = Some ds" for u ds
  proof (rule remove1_filter)
    show "distinct ds" using wf ds remotesD(2) by (auto simp: wf_upto_def)
    fix d
    assume d: "d \<in> set ds"
    show "live w' d \<longleftrightarrow> d \<noteq> Dis_remote b"
    proof (cases d)
      case (Dis_remote x)
      then show ?thesis using wf d remotesD(3) [of w u ds x, OF _ ds] w'(1)
        by (auto simp: live_def wf_upto_def)
    qed (simp add: live_def)
  qed
  then have "w_dis w' u = map_option (filter (live w')) (w_dis w u)" for u
    using w'(3) by (cases "w_dis w u") simp_all
  ultimately show ?thesis unfolding shrinks_def using w' by (intro conjI) simp_all
qed

section \<open>Closing a socket that has no peer\<close>

lemma no_peer_alone:
  assumes "wf_upto D w" and "w_socks w b = Some t" and "s_peer t = None"
    and "w_socks w x = Some sx" and "s_peer sx = Some b" and "x \<notin> D"
  shows False
  using assms by (auto elim: peerD)

lemma on_fdev_ok:
  assumes "\<exists>f'. g (w_fdev w) = Inr f' \<and> P f'"
  shows "\<exists>f'. on_fdev g w = Inr (w\<lparr>w_fdev := f'\<rparr>) \<and> P f'"
  using assms by (auto simp: on_fdev_def)

lemma wf_events:
  assumes "wf_upto D w"
  shows "fdev_inv (w_fdev w)" and "owned (w_fdev w) (FSock a) \<longleftrightarrow> (\<exists>s. w_socks w a = Some s \<and> is_local s)"
  using assms by (simp_all add: wf_upto_def events_inv_def)

lemma wf_on_list:
  assumes "wf_upto D w" and "w_socks w a = Some s" and "is_local s"
  shows "a \<in> set (w_local w) \<or> a \<in> set (w_closing w)" and "s_closing s \<longleftrightarrow> a \<in> set (w_closing w)"
    and "\<not> s_closing s \<Longrightarrow> a \<in> set (w_local w)"
  using assms unfolding wf_upto_def lists_inv_def by blast+

lemma local_socket_destroy_ok:
  assumes wf: "wf_upto D w" and a: "w_socks w a = Some s" "is_local s" "s_peer s = None"
  shows "ok (local_socket_destroy a w) (\<lambda>w'. wf_upto (D - {a}) w' \<and> shrinks {a} w w' \<and> w_socks w' a = None)"
proof -
  obtain f' where f': "fdevent_remove (FSock a) (w_fdev w) = Inr f'" "fdev_inv (fde_free (FSock a) f')"
    "owned (fde_free (FSock a) f') = (owned (w_fdev w))(FSock a := False)"
    using ev.destroy [OF wf_events(1) [OF wf], of "FSock a"] wf_events(2) [OF wf, of a] a by auto
  define w' where "w' = w\<lparr>w_socks := (w_socks w)(a := None), w_fdev := fde_free (FSock a) f',
    w_local := remove1 a (w_local w), w_closing := remove1 a (w_closing w)\<rparr>"
  have "local_socket_destroy a w = (if s_exit_on_close s then Inl (Exited 1) else Inr w')"
    using a f'(1) wf_on_list(1) [OF wf a(1,2)]
    by (auto simp: local_socket_destroy_def get_sock_Some on_fdev_def remove_socket_def mod_sock_def
        free_sock_def w'_def)
  moreover have tr: "remove1 a (w_trackers w) = w_trackers w"
    using wf a(1,2) kinds_disjoint(1) by (auto simp: wf_upto_def trackers_inv_def intro!: remove1_idem)
  have dis: "w_dis w' = (\<lambda>u. map_option (remove1 (Dis_remote a)) (w_dis w u))"
  proof
    fix u
    have "Dis_remote a \<notin> set ds" if "w_dis w u = Some ds" for ds
      using wf a(1,2) kinds_disjoint(1) remotesD(3) [of w u ds a] that by (auto simp: wf_upto_def)
    then show "w_dis w' u = map_option (remove1 (Dis_remote a)) (w_dis w u)"
      by (cases "w_dis w u") (auto simp: w'_def w_dis_def remove1_idem)
  qed
  have "wf_upto (D - {a}) w'"
    by (rule wf_drop [OF wf a(1) _ _ _ _ _ _ dis])
      (use f'(2,3) tr no_peer_alone [OF wf a(1,3)] in \<open>auto simp: w'_def\<close>)
  moreover have "shrinks {a} w w'"
    by (rule shrinks_drop [OF wf a(1) _ _ dis]) (use tr f'(3) in \<open>auto simp: w'_def sends_only_refl\<close>)
  ultimately show ?thesis by (auto simp: w'_def)
qed

text \<open>A socket with packets left moves to the closing list.\<close>

lemma wf_start_closing:
  assumes wf: "wf_upto D w" and a: "w_socks w a = Some s" "is_local s" "s_peer s = None" "\<not> s_closing s"
    and w': "w_socks w' = (w_socks w)(a \<mapsto> s\<lparr>s_closing := True, s_id := 0\<rparr>)" "w_next w' = w_next w"
      "w_local w' = remove1 a (w_local w)" "w_closing w' = w_closing w @ [a]"
      "w_trackers w' = w_trackers w" "w_dis w' = w_dis w"
      "w_transport_list w' = w_transport_list w" "w_newfds w' = w_newfds w"
    and ev: "fdev_inv (w_fdev w')" "owned (w_fdev w') = owned (w_fdev w)"
  shows "wf_upto (D - {a}) w'"
proof -
  let ?s = "s\<lparr>s_closing := True, s_id := 0\<rparr>"
  have kind: "is_local ?s" "\<not> is_remote ?s" "\<not> is_smart ?s" "\<not> is_tracker ?s" "\<not> is_remote s" "\<not> is_tracker s"
    using a(2) kinds_disjoint(1) by (auto simp: kind_defs)
  have socks: "w_socks w' x = Some sx \<longleftrightarrow> (if x = a then sx = ?s else w_socks w x = Some sx)" for x sx
    using w'(1) by auto
  have l: "lists_inv w" and p: "peers_inv D w" and lo: "locals_inv D w" and r: "remotes_inv w"
    and tr: "trackers_inv D w" and e: "events_inv w" using wf by (simp_all add: wf_upto_def)
  have in_local: "a \<in> set (w_local w)" "a \<notin> set (w_closing w)" using wf_on_list [OF wf a(1,2)] a(4) by auto
  have sets: "set (w_local w') = set (w_local w) - {a}" "set (w_closing w') = insert a (set (w_closing w))"
    using l w'(3,4) by (simp_all add: lists_inv_def set_remove1_eq)
  have "kinds_inv w'" using wf w' a(1) kind by (auto simp: wf_upto_def kinds_inv_def)
  moreover have "lists_inv w'"
    unfolding lists_inv_def
  proof (intro conjI allI)
    show "distinct (w_local w' @ w_closing w')" using l sets w'(3,4) in_local by (auto simp: lists_inv_def)
    fix x
    show "(x \<in> set (w_local w') \<or> x \<in> set (w_closing w')) = (\<exists>s. w_socks w' x = Some s \<and> is_local s)"
      using l kind sets a(1,2) by (cases "x = a") (auto simp: lists_inv_def socks)
    fix sx
    show "w_socks w' x = Some sx \<and> is_local sx \<longrightarrow>
        (s_closing sx \<longleftrightarrow> x \<in> set (w_closing w')) \<and> (s_closing sx \<longrightarrow> s_peer sx = None)"
      using l sets a by (cases "x = a") (auto simp: lists_inv_def socks)
  qed
  moreover have "peers_inv (D - {a}) w'"
    unfolding peers_inv_def
  proof (intro allI impI, elim conjE)
    fix x sx y
    assume x: "w_socks w' x = Some sx" "s_peer sx = Some y" "x \<notin> D - {a}"
    then have x': "x \<noteq> a" "w_socks w x = Some sx" "x \<notin> D" using socks a(3) by (auto split: if_splits)
    then have "y \<noteq> a" using no_peer_alone [OF wf a(1,3)] x(2) by blast
    then show "x \<noteq> y \<and> (\<exists>t. w_socks w' y = Some t \<and> s_peer t = Some x \<and> (is_local sx \<or> is_local t))"
      using p x' x(2) unfolding peers_inv_def socks by simp
  qed
  moreover have "locals_inv (D - {a}) w'"
    using lo a unfolding locals_inv_def socks by (simp add: a(3)) blast
  moreover have "remotes_inv w'"
    unfolding remotes_inv_def w'(6)
  proof (intro conjI allI impI, elim conjE)
    fix x sx
    assume "w_socks w' x = Some sx" "is_remote sx"
    then show "\<exists>t ds. s_transport sx = Some t \<and> w_dis w t = Some ds \<and> Dis_remote x \<in> set ds"
      using remotesD(1) [OF r, of x sx] kind socks by (auto split: if_splits)
  next
    fix t ds x
    assume "w_dis w t = Some ds" "Dis_remote x \<in> set ds"
    then obtain sx where "w_socks w x = Some sx" "is_remote sx" "s_transport sx = Some t"
      using remotesD(3) [OF r] by blast
    then show "\<exists>s. w_socks w' x = Some s \<and> is_remote s \<and> s_transport s = Some t"
      using kind a(1) socks by (cases "x = a") auto
  qed (use remotesD(2) [OF r] in blast)
  moreover have "trackers_inv (D - {a}) w'"
    unfolding trackers_inv_def w'(5)
  proof (intro conjI allI)
    show "distinct (w_trackers w)" using tr by (simp add: trackers_inv_def)
    fix x
    show "x \<in> set (w_trackers w) \<longleftrightarrow> (\<exists>s. w_socks w' x = Some s \<and> is_tracker s)"
      using tr kind a(1) by (cases "x = a") (auto simp: trackers_inv_def socks)
    fix sx
    show "w_socks w' x = Some sx \<and> is_tracker sx \<and> x \<notin> D - {a} \<longrightarrow> s_peer sx \<noteq> None"
      using tr kind by (cases "x = a") (auto simp: trackers_inv_def socks)
  qed
  moreover have "events_inv w'"
    unfolding events_inv_def
  proof (intro conjI allI)
    fix x
    show "owned (w_fdev w') (FSock x) \<longleftrightarrow> (\<exists>s. w_socks w' x = Some s \<and> is_local s)"
      using e ev(2) kind a(1,2) by (cases "x = a") (auto simp: events_inv_def socks)
  qed (use e ev(1) w'(6-8) in \<open>auto simp: events_inv_def\<close>)
  ultimately show ?thesis by (simp add: wf_upto_def)
qed

text \<open>The outcome of a close: the socket is gone, or it is local, has no peer and waits on the
  closing list for its queue to drain.\<close>

definition closed_in :: "addr \<Rightarrow> world \<Rightarrow> bool" where
  "closed_in a w \<longleftrightarrow> (\<forall>s. w_socks w a = Some s \<longrightarrow> is_local s \<and> s_closing s \<and> s_peer s = None)"

lemma finish_close_ok:
  assumes wf: "wf_upto D w" and a: "w_socks w a = Some s" "is_local s" "s_peer s = None"
  shows "ok (local_socket_finish_close a w) (\<lambda>w'. wf_upto (D - {a}) w' \<and> shrinks {a} w w' \<and> closed_in a w')"
proof (cases "s_closing s \<or> s_pkts s = []")
  case True
  then show ?thesis
    using ok_mono [OF local_socket_destroy_ok [OF wf a]] a(1)
    by (auto simp: local_socket_finish_close_def get_sock_Some closed_in_def)
next
  case False
  let ?s = "s\<lparr>s_closing := True, s_id := 0\<rparr>"
  obtain f' where f': "fdevent_del (FSock a) FDE_READ (w_fdev w) = Inr f'" "fdev_inv f'"
    "owned f' = owned (w_fdev w)"
    using ev.del_law [OF wf_events(1) [OF wf], of "FSock a" FDE_READ] wf_events(2) [OF wf, of a] a by auto
  have in_local: "a \<in> set (w_local w)" "remove1 a (w_closing w) = w_closing w"
    using wf_on_list [OF wf a(1,2)] False by (auto simp: remove1_idem)
  define w' where "w' = w\<lparr>w_socks := (w_socks w)(a \<mapsto> ?s), w_fdev := f',
    w_local := remove1 a (w_local w), w_closing := w_closing w @ [a]\<rparr>"
  have eq: "local_socket_finish_close a w = Inr w'"
    using a(1) f'(1) in_local False
    by (simp add: local_socket_finish_close_def get_sock_Some mod_sock_def on_fdev_def remove_socket_def
        insert_closing_def w'_def)
  have dis: "w_dis w' = w_dis w" by (simp add: w_dis_def w'_def fun_eq_iff)
  have wf': "wf_upto (D - {a}) w'"
    by (rule wf_start_closing [OF wf a]) (use False f' dis in \<open>auto simp: w'_def\<close>)
  have "live w' = live w" using a(1) by (auto simp: live_def w'_def fun_eq_iff split: disconnect.split)
  moreover have "(w_socks w' x \<noteq> None) = (w_socks w x \<noteq> None)" for x using a(1) by (simp add: w'_def)
  moreover have "sends_only w w'" by (rule sends_only_refl) (simp add: w'_def)
  ultimately have "shrinks {a} w w'"
    using wf_trackers_alive [of D w] wf_dis_live [of w] wf dis a(1) f'(3)
    unfolding shrinks_def wf_upto_def by (simp add: w'_def)
  moreover have "closed_in a w'" using a by (auto simp: closed_in_def w'_def kind_defs)
  ultimately show ?thesis using eq wf' by simp
qed

lemma close_locked_alone:
  assumes "wf_upto D w" and "w_socks w a = Some s" "is_local s" "s_peer s = None"
  shows "ok (local_socket_close_locked (Suc n) a w)
    (\<lambda>w'. wf_upto (D - {a}) w' \<and> shrinks {a} w w' \<and> closed_in a w')"
  using finish_close_ok [OF assms] assms(2,4) by (simp add: get_sock_Some)

text \<open>A socket that is not local is freed.\<close>

lemma dis_remove_other:
  assumes "remotes_inv w" and "w_socks w b = Some t" and "\<not> is_remote t \<or> s_transport t \<noteq> Some u"
  shows "map_option (remove1 (Dis_remote b)) (w_dis w u) = w_dis w u"
proof -
  have "Dis_remote b \<notin> set ds" if "w_dis w u = Some ds" for ds
    using remotesD(3) [OF assms(1) that, of b] assms(2,3) by auto
  then show ?thesis by (cases "w_dis w u") (auto simp: remove1_idem)
qed

lemma fde_free_unowned: "\<not> owned f x \<Longrightarrow> fde_free x f = f"
  by (simp add: fde_free_def owned_def fun_upd_idem)

text \<open>The state after a socket that is not local is freed: \<open>g\<close> has unlinked it.\<close>

lemma free_nonlocal:
  assumes wf: "wf_upto D w" and b: "w_socks w b = Some t" "\<not> is_local t" "s_peer t = None"
    and w': "w' = free_sock b (w\<lparr>w_trackers := remove1 b (w_trackers w), w_trans := tr\<rparr>)"
    and tr: "\<And>u. map_option t_disconnects (tr u) = map_option (remove1 (Dis_remote b)) (w_dis w u)"
    and so: "sends_only w (w\<lparr>w_trans := tr\<rparr>)"
  shows "wf_upto (D - {b}) w' \<and> shrinks {b} w w' \<and> closed_in b w'"
proof -
  have un: "\<not> owned (w_fdev w) (FSock b)" using wf_events(2) [OF wf, of b] b by auto
  then have fd: "w_fdev w' = w_fdev w" using w' by (simp add: free_sock_def fde_free_unowned)
  have nl: "b \<notin> set (w_local w)" "b \<notin> set (w_closing w)"
    using wf b unfolding wf_upto_def lists_inv_def by (metis option.inject)+
  have dis: "w_dis w' = (\<lambda>u. map_option (remove1 (Dis_remote b)) (w_dis w u))"
    using w' tr by (simp add: w_dis_def free_sock_def fun_eq_iff)
  have "w_trans w' = w_trans (w\<lparr>w_trans := tr\<rparr>)" using w' by (simp add: free_sock_def)
  then have so': "sends_only w w'" using so sends_only_cong by blast
  have "wf_upto (D - {b}) w'"
    by (rule wf_drop [OF wf b(1) _ _ _ _ _ _ dis])
      (use w' fd nl un wf_events(1) [OF wf] no_peer_alone [OF wf b(1,3)] in
        \<open>auto simp: free_sock_def remove1_idem fun_upd_idem\<close>)
  moreover have "shrinks {b} w w'"
    by (rule shrinks_drop [OF wf b(1) _ _ dis so'])
      (use w' un in \<open>simp_all add: free_sock_def fde_free_unowned fun_upd_idem\<close>)
  ultimately show ?thesis using w' by (simp add: closed_in_def free_sock_def)
qed

lemma remote_free_ok:
  assumes wf: "wf_upto D w" and b: "w_socks w b = Some t" "is_remote t" "s_peer t = None"
  shows "\<exists>w1. remove_transport_disconnect (s_transport t) (Dis_remote b) w = Inr w1 \<and>
    wf_upto (D - {b}) (free_sock b w1) \<and> shrinks {b} w (free_sock b w1) \<and> closed_in b (free_sock b w1)"
proof -
  have r: "remotes_inv w" using wf by (simp add: wf_upto_def)
  obtain u ds where u: "s_transport t = Some u" "w_dis w u = Some ds" using remotesD(1) [OF r b(1,2)] by blast
  then obtain x where x: "w_trans w u = Some x" "t_disconnects x = ds" by (auto simp: w_dis_def)
  let ?x = "x\<lparr>t_disconnects := remove1 (Dis_remote b) ds\<rparr>"
  let ?tr = "(w_trans w)(u \<mapsto> ?x)"
  have nt: "b \<notin> set (w_trackers w)"
    using wf b kinds_disjoint(2) by (auto simp: wf_upto_def trackers_inv_def)
  have "remove_transport_disconnect (s_transport t) (Dis_remote b) w =
      Inr (w\<lparr>w_trackers := remove1 b (w_trackers w), w_trans := ?tr\<rparr>)" (is "_ = Inr ?w1")
    using u x nt by (simp add: remove_transport_disconnect_def mod_trans_def get_trans_def remove1_idem)
  moreover have "wf_upto (D - {b}) (free_sock b ?w1) \<and> shrinks {b} w (free_sock b ?w1) \<and>
      closed_in b (free_sock b ?w1)"
  proof (rule free_nonlocal [OF wf b(1) _ b(3) refl])
    show "\<not> is_local t" using b(2) kinds_disjoint(2) by blast
    fix v
    show "map_option t_disconnects (?tr v) = map_option (remove1 (Dis_remote b)) (w_dis w v)"
      using u x dis_remove_other [OF r b(1), of v] by (cases "v = u") (auto simp: w_dis_def)
  next
    have same: "\<exists>ds ps. y = y\<lparr>t_disconnects := ds, t_to_remote := t_to_remote y @ ps\<rparr>" for y :: atransport
      by (intro exI [of _ "t_disconnects y"] exI [of _ "[]"]) simp
    have new: "\<exists>ds ps. ?x = x\<lparr>t_disconnects := ds, t_to_remote := t_to_remote x @ ps\<rparr>"
      by (intro exI [of _ "remove1 (Dis_remote b) ds"] exI [of _ "[]"]) simp
    show "sends_only w (w\<lparr>w_trans := ?tr\<rparr>)"
      using x same new by (auto simp: sends_only_def split: option.split)
  qed
  ultimately show ?thesis by blast
qed

text \<open>Closing a socket without a peer through its function pointer. The socket lock matters
  only for local sockets.\<close>

lemma sclose_alone_nonlocal:
  assumes wf: "wf_upto D w" and b: "w_socks w b = Some t" "\<not> is_local t" "s_peer t = None"
    and lock: "\<not> w_transport_lock w"
  shows "ok (sclose (Suc n) b w) (\<lambda>w'. wf_upto (D - {b}) w' \<and> shrinks {b} w w' \<and> closed_in b w')"
proof -
  have "kinds_inv w" using wf by (simp add: wf_upto_def)
  then consider "is_remote t" | "is_smart t" | "is_tracker t"
    using b(1,2) unfolding kinds_inv_def by blast
  then show ?thesis
  proof cases
    case 1
    obtain w1 where "remove_transport_disconnect (s_transport t) (Dis_remote b) w = Inr w1"
      "wf_upto (D - {b}) (free_sock b w1) \<and> shrinks {b} w (free_sock b w1) \<and> closed_in b (free_sock b w1)"
      using remote_free_ok [OF wf b(1) 1 b(3)] by blast
    then show ?thesis using 1 b by (simp add: get_sock_Some close_fn_defs is_remote_def)
  next
    case 2
    have "b \<notin> set (w_trackers w)"
      using wf b 2 kinds_disjoint(3) by (auto simp: wf_upto_def trackers_inv_def)
    then have "wf_upto (D - {b}) (free_sock b w) \<and> shrinks {b} w (free_sock b w) \<and> closed_in b (free_sock b w)"
      using wf b 2 dis_remove_other [of w b t] kinds_disjoint(3)
      by (intro free_nonlocal [where tr = "w_trans w"]) (auto simp: remove1_idem wf_upto_def w_dis_def sends_only_refl)
    then show ?thesis using 2 b by (simp add: get_sock_Some close_fn_defs is_smart_def)
  next
    case 3
    let ?w1 = "w\<lparr>w_trackers := remove1 b (w_trackers w)\<rparr>"
    have "wf_upto (D - {b}) (free_sock b ?w1) \<and> shrinks {b} w (free_sock b ?w1) \<and> closed_in b (free_sock b ?w1)"
      using wf b 3 dis_remove_other [of w b t] kinds_disjoint(4)
      by (intro free_nonlocal [where tr = "w_trans w"]) (auto simp: wf_upto_def w_dis_def sends_only_refl)
    moreover have "device_tracker_remove b w = Inr ?w1"
      using lock by (simp add: device_tracker_remove_def lock_transports_def unlock_transports_def)
    ultimately show ?thesis using 3 b by (simp add: get_sock_Some close_fn_defs is_tracker_def)
  qed
qed

lemma shrinks_update:
  assumes "wf_upto D w" and "w_socks w a = Some s"
  shows "shrinks {a} w (w\<lparr>w_socks := (w_socks w)(a \<mapsto> s')\<rparr>)"
proof -
  let ?w = "w\<lparr>w_socks := (w_socks w)(a \<mapsto> s')\<rparr>"
  have "live ?w = live w" using assms(2) by (auto simp: live_def fun_eq_iff split: disconnect.split)
  moreover have "(w_socks ?w x \<noteq> None) = (w_socks w x \<noteq> None)" for x using assms(2) by simp
  moreover have "sends_only w ?w" by (rule sends_only_refl) simp
  moreover have "w_dis ?w = w_dis w" by (simp add: w_dis_def fun_eq_iff)
  ultimately show ?thesis
    using wf_trackers_alive [of D w] wf_dis_live [of w] assms
    unfolding shrinks_def wf_upto_def by simp
qed

lemma plain_local_role: "is_local s \<Longrightarrow> same_role s (plain_local s)"
  by (simp add: same_role_def plain_local_def kind_defs)

lemma wf_plain_local:
  assumes wf: "wf_upto D w" and a: "w_socks w a = Some s" "is_local s"
  shows "wf_upto D (w\<lparr>w_socks := (w_socks w)(a \<mapsto> plain_local s)\<rparr>)"
proof -
  have lo: "(\<forall>p \<in> set (s_pkts s). queued_ok p) \<and>
     (a \<notin> D \<longrightarrow> s_pkts s \<noteq> [] \<and> \<not> s_closing s \<longrightarrow> s_peer s \<noteq> None)"
    using wf a unfolding wf_upto_def locals_inv_def by blast
  show ?thesis
    by (rule wf_update [OF wf a(1) plain_local_role [OF a(2)]]) (use lo in \<open>auto simp: plain_local_def\<close>)
qed

text \<open>Taking and releasing the socket lock around an operation.\<close>

lemma wf_lock: "wf_upto D (w\<lparr>w_socket_list_lock := b\<rparr>) = wf_upto D w"
  by (simp add: wf_upto_def wf_parts w_dis_def)

lemma shrinks_lock:
  assumes "\<not> w_socket_list_lock w" and "shrinks X (w\<lparr>w_socket_list_lock := True\<rparr>) w'"
  shows "shrinks X w (unlock_sockets w')"
proof -
  let ?u = "unlock_sockets w'"
  have "w_trans ?u = w_trans w'" by (simp add: unlock_sockets_def)
  moreover have "sends_only (w\<lparr>w_socket_list_lock := True\<rparr>) w' = sends_only w w'"
    by (simp add: sends_only_def)
  ultimately have "sends_only w ?u" using assms(2) sends_only_cong [of ?u w' w] by (simp add: shrinks_def)
  moreover have "live ?u = live w'" by (simp add: live_def unlock_sockets_def fun_eq_iff split: disconnect.split)
  moreover have "w_dis ?u = w_dis w'" "w_dis (w\<lparr>w_socket_list_lock := True\<rparr>) = w_dis w"
    by (simp_all add: w_dis_def unlock_sockets_def fun_eq_iff)
  ultimately show ?thesis using assms unfolding shrinks_def by (simp add: unlock_sockets_def)
qed

text \<open>The result every close has.\<close>

definition close_post :: "addr set \<Rightarrow> addr set \<Rightarrow> addr \<Rightarrow> world \<Rightarrow> world \<Rightarrow> bool" where
  "close_post D X a w w' \<longleftrightarrow> wf_upto D w' \<and> shrinks X w w' \<and> closed_in a w'"

lemma close_post_lock:
  assumes "\<not> w_socket_list_lock w" and "ok (f (w\<lparr>w_socket_list_lock := True\<rparr>)) (close_post D X a (w\<lparr>w_socket_list_lock := True\<rparr>))"
  shows "ok (ebind (lock_sockets w) (\<lambda>w. ebind (f w) (\<lambda>w. Inr (unlock_sockets w)))) (close_post D X a w)"
proof -
  have "close_post D X a w (unlock_sockets w')" if "close_post D X a (w\<lparr>w_socket_list_lock := True\<rparr>) w'" for w'
    using that assms(1) shrinks_lock [of w X w'] wf_lock [where w = w' and b = False]
    by (simp add: close_post_def closed_in_def unlock_sockets_def)
  then show ?thesis using assms
    by (cases "f (w\<lparr>w_socket_list_lock := True\<rparr>)") (auto simp: lock_sockets_def)
qed

lemma sclose_eqs:
  assumes "w_socks w a = Some s"
  shows "s_close s = Local_close \<Longrightarrow> sclose (Suc n) a w =
      ebind (lock_sockets w) (\<lambda>w. ebind (local_socket_close_locked n a w) (\<lambda>w. Inr (unlock_sockets w)))"
    and "s_close s = Local_close_notify \<Longrightarrow> sclose (Suc n) a w =
      ebind (sendfailmsg (s_fd s) ''closed'' (w\<lparr>w_socks := (w_socks w)(a \<mapsto> plain_local s)\<rparr>)) (\<lambda>(_, w). sclose n a w)"
    and "s_close s = Remote_close \<Longrightarrow> sclose (Suc n) a w =
      ebind (case s_peer s of None \<Rightarrow> Inr w
             | Some b \<Rightarrow> ebind (mod_sock b (\<lambda>ps. ps\<lparr>s_peer := None\<rparr>) w) (sclose n b)) (\<lambda>w.
      ebind (get_sock a w) (\<lambda>s.
      ebind (remove_transport_disconnect (s_transport s) (Dis_remote a) w) (\<lambda>w. Inr (free_sock a w))))"
    and "s_close s = Smart_close \<Longrightarrow> sclose (Suc n) a w =
      ebind (case s_peer s of None \<Rightarrow> Inr w
             | Some b \<Rightarrow> ebind (mod_sock b (\<lambda>ps. ps\<lparr>s_peer := None\<rparr>) w) (\<lambda>w.
                 ebind (sclose n b w) (\<lambda>w. mod_sock a (\<lambda>s. s\<lparr>s_peer := None\<rparr>) w))) (\<lambda>w. Inr (free_sock a w))"
    and "s_close s = Tracker_close \<Longrightarrow> sclose (Suc n) a w =
      ebind (case s_peer s of None \<Rightarrow> Inr w
             | Some b \<Rightarrow> ebind (mod_sock b (\<lambda>ps. ps\<lparr>s_peer := None\<rparr>) w) (sclose n b)) (\<lambda>w.
      ebind (device_tracker_remove a w) (\<lambda>w. Inr (free_sock a w)))"
  using assms by (simp_all add: get_sock_Some mod_sock_def close_fn_defs plain_local_def)

lemma close_locked_eq:
  assumes "w_socks w a = Some s" and "s_peer s = Some b" and "w_socks w b = Some t"
  shows "local_socket_close_locked (Suc n) a w =
    ebind (ebind (if s_shutdown t \<noteq> None then remote_socket_shutdown b w else Inr w) (\<lambda>w.
      ebind (mod_sock b (\<lambda>ps. ps\<lparr>s_peer := None\<rparr>) w) (\<lambda>w.
      ebind (if s_close t = Local_close then local_socket_close_locked n b w else sclose n b w) (\<lambda>w.
        mod_sock a (\<lambda>s. s\<lparr>s_peer := None\<rparr>) w)))) (local_socket_finish_close a)"
  using assms by (simp add: get_sock_Some)

lemma close_post_trans:
  assumes "shrinks X w w1" and "close_post D Y a w1 w'"
  shows "close_post D (X \<union> Y) a w w'"
  using assms shrinks_trans by (auto simp: close_post_def)

lemma close_post_quiet:
  assumes "wf_upto D0 w" and "quiet w w1" and "close_post D Y a w1 w'"
  shows "close_post D Y a w w'"
  using close_post_trans [OF quiet_shrinks [OF assms(1,2)] assms(3)] by simp

lemma locals_notify:
  assumes "wf_upto D w" and "w_socks w a = Some s" and "is_local s" and "a \<notin> D" and "s_peer s = Some b"
  shows "s_close s = Local_close"
  using assms unfolding wf_upto_def locals_inv_def is_local_def by (metis option.distinct(1))

lemma sclose_alone_plain:
  assumes wf: "wf_upto D w" and b: "w_socks w b = Some t" "is_local t" "s_peer t = None" "s_close t = Local_close"
    and lock: "\<not> w_socket_list_lock w"
  shows "ok (sclose (Suc (Suc n)) b w) (close_post (D - {b}) {b} b w)"
proof -
  let ?l = "w\<lparr>w_socket_list_lock := True\<rparr>"
  have "ok (local_socket_close_locked (Suc n) b ?l) (close_post (D - {b}) {b} b ?l)"
    using close_locked_alone [of D ?l b t n] wf b by (simp add: wf_lock close_post_def [abs_def])
  from close_post_lock [where f = "local_socket_close_locked (Suc n) b", OF lock this]
  show ?thesis unfolding sclose_eqs(1) [OF b(1,4)] .
qed

lemma sclose_alone:
  assumes wf: "wf_upto D w" and b: "w_socks w b = Some t" "s_peer t = None"
    and lock: "\<not> w_socket_list_lock w" "\<not> w_transport_lock w"
  shows "ok (sclose (Suc (Suc (Suc n))) b w) (close_post (D - {b}) {b} b w)"
proof -
  consider "\<not> is_local t" | "is_local t" "s_close t = Local_close"
    | "is_local t" "s_close t = Local_close_notify" unfolding is_local_def by blast
  then show ?thesis
  proof cases
    case 1
    then show ?thesis using sclose_alone_nonlocal [OF wf b(1) 1 b(2) lock(2), of "Suc (Suc n)"]
      by (simp only: close_post_def [abs_def])
  next
    case 2
    then show ?thesis using sclose_alone_plain [OF wf b(1) _ b(2) _ lock(1)] by blast
  next
    case 3
    let ?w1 = "w\<lparr>w_socks := (w_socks w)(b \<mapsto> plain_local t)\<rparr>"
    have wf1: "wf_upto D ?w1" by (rule wf_plain_local [OF wf b(1) 3(1)])
    have sh: "shrinks {b} w ?w1" by (rule shrinks_update [OF wf b(1)])
    have step: "ok (sclose (Suc (Suc n)) b w2) (close_post (D - {b}) {b} b w)" if q: "quiet ?w1 w2" for w2
    proof -
      have "ok (sclose (Suc (Suc n)) b w2) (close_post (D - {b}) {b} b w2)"
        using 3 b q lock wf1 quiet_wf [OF q, of D]
        by (intro sclose_alone_plain [where t = "plain_local t"])
          (auto simp: quiet_def plain_local_def kind_defs)
      then show ?thesis
        by (rule ok_mono) (use close_post_trans [OF sh close_post_quiet [OF wf1 q]] in force)
    qed
    have "ok (sendfailmsg (s_fd t) ''closed'' ?w1) (\<lambda>(_, w2). quiet ?w1 w2)" by (rule sendfailmsg_ok)
    then have "ok (ebind (sendfailmsg (s_fd t) ''closed'' ?w1) (\<lambda>(_, w). sclose (Suc (Suc n)) b w))
        (close_post (D - {b}) {b} b w)"
      by (rule ok_ebind) (use step in auto)
    then show ?thesis unfolding sclose_eqs(2) [OF b(1) 3(2)] .
  qed
qed

section \<open>Closing a connected socket\<close>

lemma remote_shutdown_ok:
  assumes wf: "wf_upto D w" and b: "w_socks w b = Some t" "is_remote t" "s_peer t = Some a"
    and a: "w_socks w a = Some s"
  shows "ok (remote_socket_shutdown b w) (quiet w)"
proof -
  obtain u where u: "s_transport t = Some u" "w_dis w u \<noteq> None"
    using wf b remotesD(1) [of w b t] by (auto simp: wf_upto_def)
  then show ?thesis using a b send_packet_ok [OF u(2)]
    by (simp add: remote_socket_shutdown_def get_sock_Some get_apacket_def zero_msg_def)
qed

lemma wf_kind:
  assumes "wf_upto D w" and "w_socks w a = Some s"
  shows "is_local s \<or> is_remote s \<or> is_smart s \<or> is_tracker s" and "a < w_next w"
  using assms unfolding wf_upto_def kinds_inv_def by blast+

lemma wf_kind_by_pointer:
  assumes "wf_upto D w" and "w_socks w a = Some s"
  shows "s_shutdown s \<noteq> None \<longleftrightarrow> is_remote s" and "s_close s = Local_close \<Longrightarrow> is_local s"
  using wf_kind(1) [OF assms] by (auto simp: kind_defs)

text \<open>The peer is detached and closed, and forgotten.\<close>

lemma close_detached_peer:
  assumes wf: "wf_upto {} w" and a: "w_socks w a = Some s" "is_local s" "s_peer s = Some b"
    and t: "a \<noteq> b" "w_socks w b = Some t" "s_peer t = Some a" and lock: "\<not> w_transport_lock w"
  shows "ok (ebind (mod_sock b (\<lambda>ps. ps\<lparr>s_peer := None\<rparr>) w) (\<lambda>w.
        ebind (if s_close t = Local_close then local_socket_close_locked (Suc n) b w
               else sclose (Suc n) b w) (\<lambda>w. mod_sock a (\<lambda>s. s\<lparr>s_peer := None\<rparr>) w)))
      (\<lambda>w4. wf_upto {a} w4 \<and> shrinks {a, b} w w4 \<and> w_socks w4 a = Some (unpeer s) \<and> closed_in b w4)"
proof -
  let ?w2 = "w\<lparr>w_socks := (w_socks w)(b \<mapsto> unpeer t)\<rparr>"
  have wf2: "wf_upto {a, b} ?w2" using wf_detach [OF wf, of a s b t] a t by simp
  have sh2: "shrinks {b} w ?w2" by (rule shrinks_update [OF wf t(2)])
  have b2: "w_socks ?w2 b = Some (unpeer t)" by simp
  have D: "{a, b} - {b} = {a}" using t(1) by auto
  have close_b: "ok (if s_close t = Local_close then local_socket_close_locked (Suc n) b ?w2
      else sclose (Suc n) b ?w2) (close_post {a} {b} b ?w2)"
  proof (cases "is_local t")
    case True
    then have "s_close t = Local_close" using locals_notify [OF wf t(2) _ _ t(3)] by simp
    then show ?thesis using close_locked_alone [OF wf2 b2, of n] True D
      by (simp add: close_post_def [abs_def])
  next
    case False
    then have "s_close t \<noteq> Local_close" using wf_kind_by_pointer(2) [OF wf t(2)] by blast
    then show ?thesis using sclose_alone_nonlocal [OF wf2 b2, of n] False D lock
      by (simp add: close_post_def [abs_def])
  qed
  have fin: "ok (mod_sock a (\<lambda>s. s\<lparr>s_peer := None\<rparr>) w3)
      (\<lambda>w4. wf_upto {a} w4 \<and> shrinks {a, b} w w4 \<and> w_socks w4 a = Some (unpeer s) \<and> closed_in b w4)"
    if c: "close_post {a} {b} b ?w2 w3" for w3
  proof -
    have c': "wf_upto {a} w3" "shrinks {b} ?w2 w3" "closed_in b w3" using c by (simp_all add: close_post_def)
    have a3: "w_socks w3 a = Some s" using c'(2) t(1) a(1) by (simp add: shrinks_def)
    let ?w4 = "w3\<lparr>w_socks := (w_socks w3)(a \<mapsto> unpeer s)\<rparr>"
    have "wf_upto {a} ?w4" using wf_forget [OF c'(1) a3 a(3)] c'(3) by (simp add: closed_in_def)
    moreover have "shrinks {a, b} w ?w4"
      using shrinks_trans [OF shrinks_trans [OF sh2 c'(2)] shrinks_update [OF c'(1) a3, of "unpeer s"]]
      by (rule shrinks_mono) auto
    moreover have "closed_in b ?w4" using c'(3) t(1) by (simp add: closed_in_def)
    ultimately show ?thesis using a3 by (simp add: mod_sock_def get_sock_Some unpeer_def)
  qed
  have m: "mod_sock b (\<lambda>ps. ps\<lparr>s_peer := None\<rparr>) w = Inr ?w2"
    using t(2) by (simp add: mod_sock_def get_sock_Some unpeer_def)
  show ?thesis unfolding m ebind_simps by (rule ok_ebind [OF close_b fin])
qed

lemma close_locked_peer:
  assumes wf: "wf_upto {} w" and a: "w_socks w a = Some s" "is_local s" "s_peer s = Some b"
    and lock: "\<not> w_transport_lock w"
  shows "ok (local_socket_close_locked (Suc (Suc n)) a w)
    (\<lambda>w'. close_post {} {a, b} a w w' \<and> closed_in b w')"
proof -
  obtain t where t: "a \<noteq> b" "w_socks w b = Some t" "s_peer t = Some a"
    using peerD [OF wf a(1,3)] by auto
  let ?post = "\<lambda>w4. wf_upto {a} w4 \<and> shrinks {a, b} w w4 \<and> w_socks w4 a = Some (unpeer s) \<and> closed_in b w4"
  have shut: "ok (if s_shutdown t \<noteq> None then remote_socket_shutdown b w else Inr w) (quiet w)"
    using remote_shutdown_ok [OF wf t(2) _ t(3) a(1)] wf_kind_by_pointer(1) [OF wf t(2)] by simp
  have rest: "ok (ebind (mod_sock b (\<lambda>ps. ps\<lparr>s_peer := None\<rparr>) w1) (\<lambda>w.
        ebind (if s_close t = Local_close then local_socket_close_locked (Suc n) b w
               else sclose (Suc n) b w) (\<lambda>w. mod_sock a (\<lambda>s. s\<lparr>s_peer := None\<rparr>) w))) ?post"
    if q: "quiet w w1" for w1
  proof -
    have "wf_upto {} w1" "w_socks w1 = w_socks w" "\<not> w_transport_lock w1"
      using quiet_wf [OF q] wf q lock by (simp_all add: quiet_def)
    then show ?thesis
      using close_detached_peer [of w1 a s b t n] a t
      by (auto elim!: ok_mono dest!: shrinks_trans [OF quiet_shrinks [OF wf q]])
  qed
  have fin: "ok (local_socket_finish_close a w4) (\<lambda>w'. close_post {} {a, b} a w w' \<and> closed_in b w')"
    if c: "?post w4" for w4
  proof -
    have "ok (local_socket_finish_close a w4) (\<lambda>w'. wf_upto ({a} - {a}) w' \<and> shrinks {a} w4 w' \<and> closed_in a w')"
      using c a(2) by (intro finish_close_ok [where s = "unpeer s"]) auto
    then show ?thesis
    proof (rule ok_mono)
      fix w'
      assume w': "wf_upto ({a} - {a}) w' \<and> shrinks {a} w4 w' \<and> closed_in a w'"
      then have "shrinks ({a, b} \<union> {a}) w w'" using shrinks_trans c by blast
      then have "shrinks {a, b} w w'" by (rule shrinks_mono) auto
      moreover have "closed_in b w'" using c w' t(1) by (auto simp: closed_in_def shrinks_def)
      ultimately show "close_post {} {a, b} a w w' \<and> closed_in b w'" using w' by (simp add: close_post_def)
    qed
  qed
  show ?thesis
    unfolding close_locked_eq [OF a(1,3) t(2)] by (rule ok_ebind [OF ok_ebind [OF shut rest] fin])
qed

text \<open>A socket that is not local, with its (local) peer.\<close>

lemma close_local_peer:
  assumes wf: "wf_upto {} w" and a: "w_socks w a = Some s" "\<not> is_local s" "s_peer s = Some b"
    and lock: "\<not> w_socket_list_lock w" "\<not> w_transport_lock w"
  shows "ok (ebind (mod_sock b (\<lambda>ps. ps\<lparr>s_peer := None\<rparr>) w) (sclose (Suc (Suc (Suc n))) b))
    (\<lambda>w'. wf_upto {a} w' \<and> wf_upto {a} (w'\<lparr>w_socks := (w_socks w')(a \<mapsto> unpeer s)\<rparr>) \<and>
       shrinks {b} w w' \<and> w_socks w' a = Some s \<and> closed_in b w')"
proof -
  obtain t where t: "a \<noteq> b" "w_socks w b = Some t" "s_peer t = Some a"
    using peerD [OF wf a(1,3)] by auto
  let ?w2 = "w\<lparr>w_socks := (w_socks w)(b \<mapsto> unpeer t)\<rparr>"
  have wf2: "wf_upto {a, b} ?w2" using wf_detach [OF wf, of a s b t] a t by simp
  have sh2: "shrinks {b} w ?w2" by (rule shrinks_update [OF wf t(2)])
  have D: "{a, b} - {b} = {a}" using t(1) by auto
  have "ok (sclose (Suc (Suc (Suc n))) b ?w2) (close_post ({a, b} - {b}) {b} b ?w2)"
    by (rule sclose_alone [OF wf2]) (use lock in auto)
  then have c: "ok (sclose (Suc (Suc (Suc n))) b ?w2) (\<lambda>w'. wf_upto {a} w' \<and>
      wf_upto {a} (w'\<lparr>w_socks := (w_socks w')(a \<mapsto> unpeer s)\<rparr>) \<and>
      shrinks {b} w w' \<and> w_socks w' a = Some s \<and> closed_in b w')"
  proof (rule ok_mono)
    fix w'
    assume "close_post ({a, b} - {b}) {b} b ?w2 w'"
    then have c': "wf_upto {a} w'" "shrinks {b} ?w2 w'" "closed_in b w'" by (simp_all add: close_post_def D)
    then have "w_socks w' a = Some s" using a(1) t(1) by (simp add: shrinks_def)
    moreover have "shrinks {b} w w'" using shrinks_trans [OF sh2 c'(2)] by simp
    ultimately show "wf_upto {a} w' \<and> wf_upto {a} (w'\<lparr>w_socks := (w_socks w')(a \<mapsto> unpeer s)\<rparr>) \<and>
      shrinks {b} w w' \<and> w_socks w' a = Some s \<and> closed_in b w'"
      using c' wf_forget [OF c'(1) _ a(3)] by (simp add: closed_in_def)
  qed
  have m: "mod_sock b (\<lambda>ps. ps\<lparr>s_peer := None\<rparr>) w = Inr ?w2"
    using t(2) by (simp add: mod_sock_def get_sock_Some unpeer_def)
  show ?thesis unfolding m ebind_simps by (rule c)
qed

text \<open>What every close through the function pointer guarantees.\<close>

definition peer_set :: "asocket \<Rightarrow> addr set" where
  "peer_set s = set_option (s_peer s)"

definition closed_post :: "addr \<Rightarrow> asocket \<Rightarrow> world \<Rightarrow> world \<Rightarrow> bool" where
  "closed_post a s w w' \<longleftrightarrow> wf_upto {} w' \<and> shrinks (insert a (peer_set s)) w w' \<and>
     (\<forall>x \<in> insert a (peer_set s). closed_in x w')"

lemma closed_post_after_peer:
  assumes w': "wf_upto {a} w'" "shrinks {b} w w'" "w_socks w' a = Some s" "closed_in b w'"
    and ab: "a \<noteq> b" "s_peer s = Some b"
    and w'': "close_post ({a} - {a}) {a} a (w'\<lparr>w_socks := (w_socks w')(a \<mapsto> unpeer s)\<rparr>) w''"
  shows "closed_post a s w w''"
proof -
  let ?u = "w'\<lparr>w_socks := (w_socks w')(a \<mapsto> unpeer s)\<rparr>"
  have c: "wf_upto {} w''" "shrinks {a} ?u w''" "closed_in a w''" using w'' by (simp_all add: close_post_def)
  have "shrinks ({b} \<union> ({a} \<union> {a})) w w''"
    by (rule shrinks_trans [OF w'(2) shrinks_trans [OF shrinks_update [OF w'(1,3)] c(2)]])
  then have "shrinks {a, b} w w''" by (rule shrinks_mono) auto
  moreover have "closed_in b w''" using w'(4) c(2) ab(1) by (simp add: closed_in_def shrinks_def)
  ultimately show ?thesis using c ab(2) by (simp add: closed_post_def peer_set_def)
qed

lemma sclose_nonlocal_peer:
  assumes wf: "wf_upto {} w" and a: "w_socks w a = Some s" "\<not> is_local s" "s_peer s = Some b"
    and lock: "\<not> w_socket_list_lock w" "\<not> w_transport_lock w"
  shows "ok (sclose (Suc (Suc (Suc (Suc n)))) a w) (closed_post a s w)"
proof -
  let ?m = "Suc (Suc (Suc n))" and ?u = "\<lambda>w'. w'\<lparr>w_socks := (w_socks w')(a \<mapsto> unpeer s)\<rparr>"
  have ab: "a \<noteq> b" using peerD [OF wf a(1,3)] by auto
  note first = close_local_peer [OF wf a lock, of n]
  have last: "ok (sclose (Suc ?m) a (?u w')) (closed_post a s w)"
    if w': "wf_upto {a} w' \<and> wf_upto {a} (?u w') \<and> shrinks {b} w w' \<and> w_socks w' a = Some s \<and> closed_in b w'" for w'
  proof -
    have "ok (sclose (Suc ?m) a (?u w')) (close_post ({a} - {a}) {a} a (?u w'))"
      using sclose_alone_nonlocal [of "{a}" "?u w'" a "unpeer s" ?m] w' a(2) lock
      by (simp add: close_post_def [abs_def] shrinks_def del: sclose.simps)
    then show ?thesis
      by (rule ok_mono) (use closed_post_after_peer [OF _ _ _ _ ab a(3)] w' in blast)
  qed
  consider "is_remote s" | "is_smart s" | "is_tracker s" using wf_kind(1) [OF wf a(1)] a(2) by blast
  then show ?thesis
  proof cases
    case 1
    then have k: "s_close s = Remote_close" by (simp add: is_remote_def)
    have tail: "ok (ebind (get_sock a w') (\<lambda>s. ebind (remove_transport_disconnect (s_transport s) (Dis_remote a) w')
        (\<lambda>w. Inr (free_sock a w)))) (closed_post a s w)"
      if w': "wf_upto {a} w' \<and> wf_upto {a} (?u w') \<and> shrinks {b} w w' \<and> w_socks w' a = Some s \<and> closed_in b w'" for w'
      using last [OF w'] k w' sclose_eqs(3) [of "?u w'" a "unpeer s" ?m]
      by (auto simp: get_sock_Some remove_transport_disconnect_def mod_trans_def get_trans_def
          free_sock_def split: option.splits simp del: sclose.simps)
    show ?thesis unfolding sclose_eqs(3) [OF a(1) k] a(3) option.case by (rule ok_ebind [OF first tail])
  next
    case 2
    then have k: "s_close s = Smart_close" by (simp add: is_smart_def)
    have tail: "ok (ebind (mod_sock a (\<lambda>s. s\<lparr>s_peer := None\<rparr>) w') (\<lambda>w. Inr (free_sock a w))) (closed_post a s w)"
      if w': "wf_upto {a} w' \<and> wf_upto {a} (?u w') \<and> shrinks {b} w w' \<and> w_socks w' a = Some s \<and> closed_in b w'" for w'
      using last [OF w'] k w' sclose_eqs(4) [of "?u w'" a "unpeer s" ?m]
      by (simp add: mod_sock_def get_sock_Some unpeer_def del: sclose.simps)
    show ?thesis unfolding sclose_eqs(4) [OF a(1) k] a(3) option.case ebind_assoc
      using ok_ebind [OF first tail] by (simp only: ebind_assoc)
  next
    case 3
    then have k: "s_close s = Tracker_close" by (simp add: is_tracker_def)
    have tail: "ok (ebind (device_tracker_remove a w') (\<lambda>w. Inr (free_sock a w))) (closed_post a s w)"
      if w': "wf_upto {a} w' \<and> wf_upto {a} (?u w') \<and> shrinks {b} w w' \<and> w_socks w' a = Some s \<and> closed_in b w'" for w'
      using last [OF w'] k w' sclose_eqs(5) [of "?u w'" a "unpeer s" ?m]
      by (auto simp: device_tracker_remove_def lock_transports_def unlock_transports_def
          free_sock_def simp del: sclose.simps)
    show ?thesis unfolding sclose_eqs(5) [OF a(1) k] a(3) option.case by (rule ok_ebind [OF first tail])
  qed
qed

text \<open>The contract of \<open>s->close(s)\<close>.\<close>

lemma sclose_closed:
  assumes wf: "wf_upto {} w" and a: "w_socks w a = Some s" and lock: "unlocked w"
  shows "ok (sclose (Suc (Suc (Suc (Suc n)))) a w) (closed_post a s w)"
proof -
  have l: "\<not> w_socket_list_lock w" "\<not> w_transport_lock w" using lock by (simp_all add: unlocked_def)
  show ?thesis
  proof (cases "s_peer s")
    case None
    have "ok (sclose (Suc (Suc (Suc (Suc n)))) a w) (close_post ({} - {a}) {a} a w)"
      by (rule sclose_alone [OF wf a None l])
    then show ?thesis by (rule ok_mono) (simp add: close_post_def closed_post_def peer_set_def None)
  next
    case (Some b)
    show ?thesis
    proof (cases "is_local s")
      case True
      let ?l = "w\<lparr>w_socket_list_lock := True\<rparr>" and ?f = "local_socket_close_locked (Suc (Suc (Suc n))) a"
      have k: "s_close s = Local_close" by (rule locals_notify [OF wf a True _ Some]) simp
      have c: "ok (?f ?l) (\<lambda>w'. close_post {} {a, b} a ?l w' \<and> closed_in b w')"
        using close_locked_peer [of ?l a s b "Suc n"] wf a True Some l(2) by (simp add: wf_lock del: local_socket_close_locked.simps)
      then have "ok (ebind (lock_sockets w) (\<lambda>w. ebind (?f w) (\<lambda>w. Inr (unlock_sockets w)))) (close_post {} {a, b} a w)"
        by (intro close_post_lock [OF l(1)]) (auto elim: ok_mono)
      moreover have "ok (ebind (lock_sockets w) (\<lambda>w. ebind (?f w) (\<lambda>w. Inr (unlock_sockets w)))) (closed_in b)"
        using c l(1) by (cases "?f ?l") (auto simp: lock_sockets_def closed_in_def unlock_sockets_def)
      ultimately show ?thesis unfolding sclose_eqs(1) [OF a k]
        by (cases "ebind (lock_sockets w) (\<lambda>w. ebind (?f w) (\<lambda>w. Inr (unlock_sockets w)))")
          (auto simp: close_post_def closed_post_def peer_set_def Some simp del: local_socket_close_locked.simps)
    next
      case False
      then show ?thesis using sclose_nonlocal_peer [OF wf a False Some l] by blast
    qed
  qed
qed

lemma sock_close_ok:
  assumes "wf_world w" and "w_socks w a = Some s"
  shows "ok (sock_close a w) (\<lambda>w'. wf_world w' \<and> closed_post a s w w')"
proof -
  have "CLOSE_FUEL = Suc (Suc (Suc (Suc (Suc 0))))" by (simp add: CLOSE_FUEL_def)
  then have "ok (sock_close a w) (closed_post a s w)"
    unfolding sock_close_def using sclose_closed [OF _ assms(2)] assms(1) by (metis wf_world_def)
  then show ?thesis
    by (rule ok_mono) (use assms(1) in \<open>auto simp: wf_world_def closed_post_def unlocked_def shrinks_def\<close>)
qed

section \<open>Events and enqueueing\<close>

lemma wf_fdev:
  assumes "wf_upto D w" and "fdev_inv f" and "owned f = owned (w_fdev w)"
  shows "wf_upto D (w\<lparr>w_fdev := f\<rparr>)" and "shrinks {} w (w\<lparr>w_fdev := f\<rparr>)"
proof -
  have dis: "w_dis (w\<lparr>w_fdev := f\<rparr>) = w_dis w" by (simp add: w_dis_def fun_eq_iff)
  have "kinds_inv (w\<lparr>w_fdev := f\<rparr>) = kinds_inv w" "lists_inv (w\<lparr>w_fdev := f\<rparr>) = lists_inv w"
    "peers_inv D (w\<lparr>w_fdev := f\<rparr>) = peers_inv D w" "locals_inv D (w\<lparr>w_fdev := f\<rparr>) = locals_inv D w"
    "remotes_inv (w\<lparr>w_fdev := f\<rparr>) = remotes_inv w" "trackers_inv D (w\<lparr>w_fdev := f\<rparr>) = trackers_inv D w"
    by (simp_all add: kinds_inv_def lists_inv_def peers_inv_def locals_inv_def remotes_inv_def
        trackers_inv_def dis)
  moreover have "events_inv (w\<lparr>w_fdev := f\<rparr>)"
    using assms by (auto simp: wf_upto_def events_inv_def dis)
  ultimately show "wf_upto D (w\<lparr>w_fdev := f\<rparr>)"
    using assms(1) by (simp add: wf_upto_def)
  have "live (w\<lparr>w_fdev := f\<rparr>) = live w" by (simp add: live_def fun_eq_iff split: disconnect.split)
  moreover have "sends_only w (w\<lparr>w_fdev := f\<rparr>)" by (rule sends_only_refl) simp
  ultimately show "shrinks {} w (w\<lparr>w_fdev := f\<rparr>)"
    using wf_trackers_alive [of D w] wf_dis_live [of w] assms(1,3) dis by (simp add: shrinks_def wf_upto_def)
qed

lemma event_add_ok:
  assumes wf: "wf_world w" and a: "w_socks w a = Some s" "is_local s"
  shows "\<exists>w'. on_fdev (fdevent_add (FSock a) ev) w = Inr w' \<and> wf_world w' \<and> shrinks {} w w'"
    and "\<exists>w'. on_fdev (fdevent_del (FSock a) ev) w = Inr w' \<and> wf_world w' \<and> shrinks {} w w'"
proof -
  have u: "wf_upto {} w" "unlocked w" using wf by (simp_all add: wf_world_def)
  have o: "fdev_inv (w_fdev w)" "owned (w_fdev w) (FSock a)"
    using wf_events(1) [OF u(1)] wf_events(2) [OF u(1), of a] a by auto
  obtain f where "fdevent_add (FSock a) ev (w_fdev w) = Inr f" "fdev_inv f" "owned f = owned (w_fdev w)"
    using ev.add_law [OF o] by blast
  then show "\<exists>w'. on_fdev (fdevent_add (FSock a) ev) w = Inr w' \<and> wf_world w' \<and> shrinks {} w w'"
    using wf_fdev [OF u(1)] u(2) by (auto simp: on_fdev_def wf_world_def unlocked_def)
  obtain f where "fdevent_del (FSock a) ev (w_fdev w) = Inr f" "fdev_inv f" "owned f = owned (w_fdev w)"
    using ev.del_law [OF o] by blast
  then show "\<exists>w'. on_fdev (fdevent_del (FSock a) ev) w = Inr w' \<and> wf_world w' \<and> shrinks {} w w'"
    using wf_fdev [OF u(1)] u(2) by (auto simp: on_fdev_def wf_world_def unlocked_def)
qed

lemma wf_quiet: "quiet w w' \<Longrightarrow> wf_world w' = wf_world w"
  using quiet_wf [of w w' "{}"] by (simp add: wf_world_def unlocked_def quiet_def)

lemma wf_set_pkts:
  assumes wf: "wf_world w" and a: "w_socks w a = Some s" "is_local s"
    and q: "\<forall>p \<in> set q. queued_ok p" and pe: "q \<noteq> [] \<Longrightarrow> \<not> s_closing s \<Longrightarrow> s_peer s \<noteq> None"
  shows "wf_world (w\<lparr>w_socks := (w_socks w)(a \<mapsto> s\<lparr>s_pkts := q\<rparr>)\<rparr>)"
    and "shrinks {a} w (w\<lparr>w_socks := (w_socks w)(a \<mapsto> s\<lparr>s_pkts := q\<rparr>)\<rparr>)"
proof -
  have u: "wf_upto {} w" "unlocked w" using wf by (simp_all add: wf_world_def)
  have r: "same_role s (s\<lparr>s_pkts := q\<rparr>)" by (simp add: same_role_def kind_defs)
  have "wf_upto {} (w\<lparr>w_socks := (w_socks w)(a \<mapsto> s\<lparr>s_pkts := q\<rparr>)\<rparr>)"
    by (rule wf_update [OF u(1) a(1) r]) (use q pe in auto)
  then show "wf_world (w\<lparr>w_socks := (w_socks w)(a \<mapsto> s\<lparr>s_pkts := q\<rparr>)\<rparr>)"
    using u(2) by (simp add: wf_world_def unlocked_def)
  show "shrinks {a} w (w\<lparr>w_socks := (w_socks w)(a \<mapsto> s\<lparr>s_pkts := q\<rparr>)\<rparr>)"
    by (rule shrinks_update [OF u(1) a(1)])
qed

lemma enqueue_loop_ok:
  "ok (enqueue_loop bs ws) (\<lambda>(r, acc, _). \<exists>rest. bs = acc @ rest)"
proof (induction bs ws rule: enqueue_loop.induct)
  case (2 bs n ws)
  show ?case
  proof (cases "bs = [] \<or> n = 0")
    case False
    then have "ok (enqueue_loop (drop n bs) ws) (\<lambda>(r, acc, _). \<exists>rest. drop n bs = acc @ rest)" using 2 by blast
    then have "ok (ebind (enqueue_loop (drop n bs) ws) (\<lambda>(r, acc, ws'). Inr (r, take n bs @ acc, ws')))
        (\<lambda>(r, acc, _). \<exists>rest. bs = acc @ rest)"
      by (rule ok_ebind) (auto, metis append_take_drop_id)
    then show ?thesis using False by simp
  qed auto
qed auto

text \<open>What enqueueing on a local socket guarantees: it answers 0 or 1, and unless the socket was
  closed by a write error it is still there, with the same peer.\<close>

definition enqueue_post :: "addr \<Rightarrow> asocket \<Rightarrow> world \<Rightarrow> int \<times> world \<Rightarrow> bool" where
  "enqueue_post a s w = (\<lambda>(r, w'). wf_world w' \<and> shrinks (insert a (peer_set s)) w w' \<and> (r = 0 \<or> r = 1) \<and>
     (r = 0 \<longrightarrow> (\<exists>s'. w_socks w' a = Some s' \<and> same_role s s' \<and> s_id s' = s_id s)))"

lemma queue_packet_ok:
  assumes wf: "wf_world w" and a: "w_socks w a = Some s" "is_local s" "s_peer s \<noteq> None"
    and q: "\<forall>p \<in> set q. queued_ok p"
  shows "ok (ebind (mod_sock a (\<lambda>s. s\<lparr>s_pkts := q\<rparr>) w) (\<lambda>w.
      ebind (on_fdev (fdevent_add (FSock a) FDE_WRITE) w) (\<lambda>w. Inr (1, w)))) (enqueue_post a s w)"
proof -
  let ?w1 = "w\<lparr>w_socks := (w_socks w)(a \<mapsto> s\<lparr>s_pkts := q\<rparr>)\<rparr>"
  have w1: "wf_world ?w1" "shrinks {a} w ?w1" by (rule wf_set_pkts [OF wf a(1,2) q]; use a in simp)+
  obtain w2 where w2: "on_fdev (fdevent_add (FSock a) FDE_WRITE) ?w1 = Inr w2" "wf_world w2" "shrinks {} ?w1 w2"
    using event_add_ok(1) [OF w1(1), of a "s\<lparr>s_pkts := q\<rparr>" FDE_WRITE] a(2) by (auto simp: kind_defs)
  have "shrinks (insert a (peer_set s)) w w2"
    using shrinks_trans [OF w1(2) w2(3)] by (rule shrinks_mono) auto
  then show ?thesis using a(1) w2 by (simp add: mod_sock_def get_sock_Some enqueue_post_def)
qed

lemma wf_queue:
  assumes "wf_world w" and "w_socks w a = Some s" and "is_local s"
  shows "\<forall>p \<in> set (s_pkts s). queued_ok p"
  using assms unfolding wf_world_def wf_upto_def locals_inv_def by blast

lemma enqueue_post_quiet:
  assumes "wf_world w" and "quiet w w1" and "enqueue_post a s w1 x"
  shows "enqueue_post a s w x"
proof -
  obtain r w' where x: "x = (r, w')" by (cases x)
  have "shrinks {} w w1" using quiet_shrinks [OF _ assms(2)] assms(1) by (auto simp: wf_world_def)
  moreover have "shrinks (insert a (peer_set s)) w1 w'" using assms(3) by (simp add: enqueue_post_def x)
  ultimately have "shrinks ({} \<union> insert a (peer_set s)) w w'" by (rule shrinks_trans)
  then show ?thesis using assms(3) by (simp add: enqueue_post_def x)
qed

text \<open>The three ways in which the write loop may end.\<close>

lemma enqueue_written_ok:
  assumes wf: "wf_world w" and a: "w_socks w a = Some s" "is_local s" "s_peer s \<noteq> None" and q: "queued_ok p"
  shows "ok (if r then ebind (sock_close a w) (\<lambda>w. Inr (1, w))
         else if p_len p = 0 then Inr (0, w)
         else ebind (mod_sock a (\<lambda>s. s\<lparr>s_pkts := [p]\<rparr>) w) (\<lambda>w.
              ebind (on_fdev (fdevent_add (FSock a) FDE_WRITE) w) (\<lambda>w. Inr (1, w)))) (enqueue_post a s w)"
proof -
  have "ok (ebind (sock_close a w) (\<lambda>w. Inr (1, w))) (enqueue_post a s w)"
  proof (rule ok_ebind [OF sock_close_ok [OF wf a(1)]])
    fix w'
    assume "wf_world w' \<and> closed_post a s w w'"
    then show "ok (Inr (1, w')) (enqueue_post a s w)" by (simp add: enqueue_post_def closed_post_def)
  qed
  moreover have "shrinks (insert a (peer_set s)) w w"
    using shrinks_refl [of "{}" w] wf by (auto simp: wf_world_def elim: shrinks_mono)
  then have "enqueue_post a s w (0, w)" using wf a(1) by (simp add: enqueue_post_def)
  moreover have "ok (ebind (mod_sock a (\<lambda>s. s\<lparr>s_pkts := [p]\<rparr>) w) (\<lambda>w.
        ebind (on_fdev (fdevent_add (FSock a) FDE_WRITE) w) (\<lambda>w. Inr (1, w)))) (enqueue_post a s w)"
    by (rule queue_packet_ok [OF wf a]) (use q in simp)
  ultimately show ?thesis by simp
qed

lemma local_socket_enqueue_ok:
  assumes wf: "wf_world w" and a: "w_socks w a = Some s" "is_local s" "s_peer s \<noteq> None"
    and p: "p_len p \<le> length (p_data p)" "length (p_data p) \<le> MAX_PAYLOAD"
  shows "ok (local_socket_enqueue a p w) (enqueue_post a s w)"
proof (cases "s_pkts s = []")
  case False
  have "\<forall>x \<in> set (s_pkts s @ [p\<lparr>p_ptr := 0\<rparr>]). queued_ok x"
    using wf_queue [OF wf a(1,2)] p by (auto simp: queued_ok_def)
  from queue_packet_ok [OF wf a this] show ?thesis
    using False a(1) by (simp add: local_socket_enqueue_def get_sock_Some mod_sock_def Let_def)
next
  case True
  let ?p = "p\<lparr>p_ptr := 0\<rparr>" and ?bs = "take (p_len p) (p_data p)"
  let ?w1 = "\<lambda>acc ws. w\<lparr>w_ws := (w_ws w)(s_fd s := ws), w_out := (w_out w)(s_fd s := w_out w (s_fd s) @ acc)\<rparr>"
  let ?k = "\<lambda>(r, acc, ws). if r then ebind (sock_close a (?w1 acc ws)) (\<lambda>w. Inr (1, w))
         else if p_len (p_advance (length acc) ?p) = 0 then Inr (0, ?w1 acc ws)
         else ebind (mod_sock a (\<lambda>s. s\<lparr>s_pkts := [p_advance (length acc) ?p]\<rparr>) (?w1 acc ws)) (\<lambda>w.
              ebind (on_fdev (fdevent_add (FSock a) FDE_WRITE) w) (\<lambda>w. Inr (1, w)))"
  have "ok (?k (r, acc, ws)) (enqueue_post a s w)" if acc: "\<exists>rest. ?bs = acc @ rest" for r acc ws
  proof -
    have q: "quiet w (?w1 acc ws)" by (simp add: quiet_def w_dis_def fun_eq_iff sends_only_refl)
    obtain rest where "?bs = acc @ rest" using acc by blast
    then have "length ?bs = length acc + length rest" by (simp only: length_append)
    then have "length acc \<le> p_len p" using p by simp
    then have qok: "queued_ok (p_advance (length acc) ?p)"
      using p by (simp add: queued_ok_def p_advance_def)
    have "ok (?k (r, acc, ws)) (enqueue_post a s (?w1 acc ws))"
      unfolding prod.case by (rule enqueue_written_ok) (use wf_quiet [OF q] wf a qok in simp_all)
    then show ?thesis by (rule ok_mono) (rule enqueue_post_quiet [OF wf q])
  qed
  then have "ok (ebind (enqueue_loop ?bs (w_ws w (s_fd s))) ?k) (enqueue_post a s w)"
    by (intro ok_ebind [OF enqueue_loop_ok]) blast
  then show ?thesis
    using True p unfolding local_socket_enqueue_def get_sock_Some [OF a(1)]
    by (simp add: Let_def buf_read_def)
qed

end
