(* ===== verification/Adb_Socket_Safety.thy ===== *)
theory Adb_Socket_Safety
  imports Adb_Socket_Inv
begin

text \<open>
  The remaining socket operations under the invariant: enqueueing and readiness through the
  function pointers, the device trackers, lookup, creation and connection.
\<close>

section \<open>Remote sockets\<close>

lemma wf_remote_transport:
  assumes "wf_upto D w" and "w_socks w a = Some s" and "is_remote s"
  obtains t where "s_transport s = Some t" and "w_dis w t \<noteq> None"
  using assms remotesD(1) [of w a s] by (auto simp: wf_upto_def)

lemma unat_of_nat_payload: "n \<le> MAX_PAYLOAD \<Longrightarrow> unat (of_nat n :: u32) = n"
  by (simp add: unsigned_of_nat take_bit_nat_eq_self_iff MAX_PAYLOAD_def)

lemma remote_socket_enqueue_ok:
  assumes wf: "wf_upto D w" and a: "w_socks w a = Some s" "is_remote s" "s_peer s = Some b"
    and b: "w_socks w b = Some t" and p: "p_len p \<le> length (p_data p)" "length (p_data p) \<le> MAX_PAYLOAD"
  shows "ok (remote_socket_enqueue a p w) (\<lambda>(r, w'). r = 1 \<and> quiet w w')"
proof -
  obtain u where u: "s_transport s = Some u" "w_dis w u \<noteq> None" by (rule wf_remote_transport [OF wf a(1,2)])
  let ?p = "p\<lparr>p_msg := (p_msg p)\<lparr>m_command := A_WRTE, m_arg0 := s_id t, m_arg1 := s_id s,
    m_data_length := of_nat (p_len p)\<rparr>\<rparr>"
  have "ok (send_packet ?p (Some u) w) (quiet w)"
    using u(2) p by (intro send_packet_ok) (simp_all add: unat_of_nat_payload)
  then have "ok (ebind (send_packet ?p (Some u) w) (\<lambda>w. Inr (1, w))) (\<lambda>(r, w'). r = 1 \<and> quiet w w')"
    by (rule ok_ebind) simp
  then show ?thesis
    using a(1,3) b u(1) by (simp add: remote_socket_enqueue_def get_sock_Some the_peer_def)
qed

lemma remote_socket_ready_ok:
  assumes wf: "wf_upto D w" and a: "w_socks w a = Some s" "is_remote s" "s_peer s = Some b"
    and b: "w_socks w b = Some t"
  shows "ok (remote_socket_ready a w) (quiet w)"
proof -
  obtain u where "s_transport s = Some u" "w_dis w u \<noteq> None" by (rule wf_remote_transport [OF wf a(1,2)])
  then show ?thesis using a(1,3) b send_packet_ok [of w u]
    by (simp add: remote_socket_ready_def get_sock_Some the_peer_def get_apacket_def zero_msg_def)
qed

section \<open>Trackers\<close>

lemma get_all_trans_ok: "\<forall>t \<in> set ts. w_dis w t \<noteq> None \<Longrightarrow> \<exists>xs. get_all_trans ts w = Inr xs"
proof (induction ts)
  case (Cons t ts)
  then obtain x xs where "w_trans w t = Some x" "get_all_trans ts w = Inr xs" by (auto simp: w_dis_def)
  then show ?case by (simp add: get_trans_def)
qed simp

lemma lock_unlock_transports: "\<not> w_transport_lock w \<Longrightarrow> unlock_transports (w\<lparr>w_transport_lock := True\<rparr>) = w"
  by (simp add: unlock_transports_def)

lemma list_transports_msg_ok:
  assumes "wf_world w"
  shows "\<exists>buffer. list_transports_msg 1024 w = Inr (buffer, w) \<and> length buffer \<le> MAX_PAYLOAD"
proof -
  let ?l = "w\<lparr>w_transport_lock := True\<rparr>"
  have lock: "\<not> w_transport_lock w" using assms by (simp add: wf_world_def unlocked_def)
  have "w_dis ?l = w_dis w" by (simp add: w_dis_def fun_eq_iff)
  then have "\<forall>t \<in> set (w_transport_list ?l). w_dis ?l t \<noteq> None"
    using assms by (simp add: wf_world_def wf_upto_def events_inv_def)
  then obtain ts where ts: "get_all_trans (w_transport_list ?l) ?l = Inr ts" using get_all_trans_ok by blast
  obtain s where s: "list_loop 1020 False ts [] = Inr s" "length s < 1020"
    using list_loop_short [of "[]" 1020 ts] by auto
  then have "list_transports 1020 False w = Inr (s, w)"
    using ts lock by (simp add: list_transports_def lock_transports_def list_transports_of_def
        lock_unlock_transports)
  moreover have "length (fmt_04x (length s)) = 4" using s(2) by (simp add: length_fmt_04x)
  ultimately show ?thesis using s(2) by (simp add: list_transports_msg_def MAX_PAYLOAD_def)
qed

lemma wf_tracker_peer:
  assumes wf: "wf_world w" and a: "w_socks w a = Some s" "is_tracker s"
  obtains b t where "s_peer s = Some b" and "a \<noteq> b" and "w_socks w b = Some t" and "s_peer t = Some a"
    and "is_local t"
proof -
  have u: "wf_upto {} w" using wf by (simp add: wf_world_def)
  obtain b where b: "s_peer s = Some b" using u a unfolding wf_upto_def trackers_inv_def by blast
  obtain t where "a \<noteq> b" "w_socks w b = Some t" "s_peer t = Some a" "is_local s \<or> is_local t"
    using peerD [OF u a(1) b] by auto
  then show ?thesis using that b a(2) kinds_disjoint(4) by blast
qed

lemma device_tracker_send_ok:
  assumes wf: "wf_world w" and a: "w_socks w a = Some s" "is_tracker s" and len: "length buffer \<le> MAX_PAYLOAD"
  shows "ok (device_tracker_send smart a buffer w)
    (\<lambda>(_, w'). wf_world w' \<and> (\<exists>b t. w_socks w b = Some t \<and> is_local t \<and> shrinks {a, b} w w'))"
proof -
  obtain b t where t: "s_peer s = Some b" "a \<noteq> b" "w_socks w b = Some t" "s_peer t = Some a" "is_local t"
    by (rule wf_tracker_peer [OF wf a])
  let ?p = "get_apacket\<lparr>p_data := buffer, p_len := length buffer\<rparr>"
  have enq: "ok (local_socket_enqueue b ?p w) (enqueue_post b t w)"
    by (rule local_socket_enqueue_ok [OF wf t(3,5)]) (use t(4) len in auto)
  have "ok (senqueue smart b ?p w)
      (\<lambda>(_, w'). wf_world w' \<and> (\<exists>b t. w_socks w b = Some t \<and> is_local t \<and> shrinks {a, b} w w'))"
  proof -
    have sh: "shrinks (insert b (peer_set t)) w w' \<Longrightarrow> shrinks {a, b} w w'" for w'
      by (simp add: peer_set_def t(4) insert_commute)
    have "s_enqueue t = Local_enqueue" using t(5) by (simp add: is_local_def)
    then have "senqueue smart b ?p w = local_socket_enqueue b ?p w"
      by (simp add: senqueue_def get_sock_Some [OF t(3)])
    then show ?thesis using enq t(3,5) sh
      by (auto elim!: ok_mono simp: enqueue_post_def)
  qed
  moreover have "buf_write 0 buffer (p_data get_apacket) = Inr buffer"
    using len by (simp add: buf_write_def get_apacket_def)
  ultimately show ?thesis using a(1) t(1)
    by (simp add: device_tracker_send_def get_sock_Some the_peer_def)
qed

text \<open>A turn of the tracker list: a tracker whose client is gone disappears with it, and the
  walk goes on with the one that followed it.\<close>

lemma successor_append: "distinct (pre @ a # as) \<Longrightarrow> successor a (pre @ a # as) = list_head as"
  by (induction pre) (auto simp: list_head_def split: list.split)

lemma wf_tracker:
  assumes "wf_upto D w"
  shows "a \<in> set (w_trackers w) \<longleftrightarrow> (\<exists>s. w_socks w a = Some s \<and> is_tracker s)" and "distinct (w_trackers w)"
  using assms unfolding wf_upto_def trackers_inv_def by blast+

lemma shrinks_tail_trackers:
  assumes wf: "wf_upto D w" and sh: "shrinks {a, b} w w'" and b: "w_socks w b = Some t" "is_local t"
    and tr: "w_trackers w = pre @ a # as"
  shows "\<exists>pre'. w_trackers w' = pre' @ as"
proof -
  have "w_socks w' x \<noteq> None" if "x \<in> set as" for x
  proof -
    have x: "x \<in> set (w_trackers w)" using tr that by simp
    then obtain s where s: "w_socks w x = Some s" "is_tracker s" using wf_tracker(1) [OF wf] by blast
    have "x \<noteq> b" using s b kinds_disjoint(1) by auto
    moreover have "x \<noteq> a" using wf_tracker(2) [OF wf] tr that by auto
    ultimately show ?thesis using sh s(1) by (simp add: shrinks_def)
  qed
  then have "filter (\<lambda>x. w_socks w' x \<noteq> None) as = as" by (simp add: filter_id_conv)
  then show ?thesis using sh tr by (auto simp: shrinks_def)
qed

lemma update_loop_ok:
  assumes "wf_world w" and "w_trackers w = pre @ rest" and "length rest \<le> n" and "length buffer \<le> MAX_PAYLOAD"
  shows "ok (update_loop smart n buffer (list_head rest) w) (\<lambda>w'. wf_world w' \<and> shrinks UNIV w w')"
  using assms
proof (induction rest arbitrary: n w pre)
  case Nil
  then show ?case using shrinks_refl shrinks_mono by (fastforce simp: list_head_def wf_world_def)
next
  case (Cons a as)
  then obtain m where n: "n = Suc m" "length as \<le> m" by (cases n) auto
  have u: "wf_upto {} w" using Cons.prems(1) by (simp add: wf_world_def)
  have "a \<in> set (w_trackers w)" using Cons.prems(2) by simp
  then obtain s where s: "w_socks w a = Some s" "is_tracker s" using wf_tracker(1) [OF u] by blast
  have succ: "successor a (w_trackers w) = list_head as"
    using wf_tracker(2) [OF u] Cons.prems(2) successor_append by simp
  have "ok (ebind (device_tracker_send smart a buffer w) (\<lambda>(_, w). update_loop smart m buffer (list_head as) w))
      (\<lambda>w'. wf_world w' \<and> shrinks UNIV w w')"
  proof (rule ok_ebind [OF device_tracker_send_ok [OF Cons.prems(1) s Cons.prems(4)]], clarify)
    fix r w1 b t
    assume w1: "wf_world w1" and b: "w_socks w b = Some t" "is_local t" and sh: "shrinks {a, b} w w1"
    obtain pre' where "w_trackers w1 = pre' @ as"
      using shrinks_tail_trackers [OF u sh b Cons.prems(2)] by blast
    then have "ok (update_loop smart m buffer (list_head as) w1) (\<lambda>w'. wf_world w' \<and> shrinks UNIV w1 w')"
      using Cons.IH w1 n(2) Cons.prems(4) by blast
    then show "ok (update_loop smart m buffer (list_head as) w1) (\<lambda>w'. wf_world w' \<and> shrinks UNIV w w')"
      by (rule ok_mono) (use shrinks_trans [OF sh, of UNIV] in auto)
  qed
  then show ?case using s(1) succ by (simp add: n(1) list_head_def get_sock_Some)
qed

lemma update_transports_ok:
  assumes "wf_world w"
  shows "ok (update_transports smart w) (\<lambda>w'. wf_world w' \<and> shrinks UNIV w w')"
proof -
  obtain buffer where b: "list_transports_msg 1024 w = Inr (buffer, w)" "length buffer \<le> MAX_PAYLOAD"
    using list_transports_msg_ok [OF assms] by blast
  have "ok (update_loop smart (length (w_trackers w)) buffer (list_head (w_trackers w)) w)
      (\<lambda>w'. wf_world w' \<and> shrinks UNIV w w')"
    by (rule update_loop_ok [where pre = "[]"]) (use assms b in auto)
  then show ?thesis by (simp add: update_transports_def b(1))
qed

section \<open>Local sockets\<close>

lemma plain_local_id: "is_local s \<Longrightarrow> s_close s = Local_close \<Longrightarrow> plain_local s = s"
  by (cases s) (auto simp: plain_local_def is_local_def)

lemma local_socket_ready_ok:
  assumes "wf_world w" and "w_socks w a = Some s" and "is_local s"
  shows "\<exists>w'. local_socket_ready a w = Inr w' \<and> wf_world w' \<and> shrinks {} w w'"
  using event_add_ok(1) [OF assms] by (simp add: local_socket_ready_def)

text \<open>\<open>ready\<close> on a local socket, given that the socket is well-formed once it is a plain one.\<close>

lemma ready_local_ok:
  assumes s: "w_socks w a = Some s" "is_local s"
    and wf: "wf_world (w\<lparr>w_socks := (w_socks w)(a \<mapsto> plain_local s)\<rparr>)"
  shows "ok (sready smart a w) (\<lambda>w'. wf_world w' \<and>
    shrinks {} (w\<lparr>w_socks := (w_socks w)(a \<mapsto> plain_local s)\<rparr>) w')"
proof -
  let ?w = "w\<lparr>w_socks := (w_socks w)(a \<mapsto> plain_local s)\<rparr>"
  have a: "w_socks ?w a = Some (plain_local s)" by simp
  have l: "is_local (plain_local s)" using s(2) by (auto simp: plain_local_def is_local_def)
  consider (plain) "s_close s = Local_close" "s_ready s = Local_ready"
    | (notify) "s_ready s = Local_ready_notify" using s(2) by (auto simp: is_local_def)
  then show ?thesis
  proof cases
    case plain
    then have eq: "?w = w" using s plain_local_id [of s] by (simp add: fun_upd_idem)
    then have "sready smart a w = local_socket_ready a w" using s(1) plain by (simp add: sready_def get_sock_Some)
    then show ?thesis using local_socket_ready_ok [of w a s] wf s eq by auto
  next
    case notify
    let ?f = "s_fd (plain_local s)"
    have eq: "sready smart a w = ebind (w_write_once ?f ''OKAY'' ?w) (local_socket_ready a)"
      using s(1) notify by (simp add: sready_def get_sock_Some local_socket_ready_notify_def mod_sock_def)
    have "ok (ebind (w_write_once ?f ''OKAY'' ?w) (local_socket_ready a)) (\<lambda>w'. wf_world w' \<and> shrinks {} ?w w')"
    proof (rule ok_ebind [OF w_write_once_ok])
      fix w1
      assume q: "quiet ?w w1"
      have "wf_world w1" using wf_quiet [OF q] wf by simp
      moreover have "w_socks w1 a = Some (plain_local s)" using q by (simp add: quiet_def)
      ultimately obtain w' where "local_socket_ready a w1 = Inr w'" "wf_world w'" "shrinks {} w1 w'"
        using local_socket_ready_ok l by blast
      moreover have "shrinks {} ?w w1" using quiet_shrinks [OF _ q] wf by (auto simp: wf_world_def)
      ultimately show "ok (local_socket_ready a w1) (\<lambda>w'. wf_world w' \<and> shrinks {} ?w w')"
        using shrinks_trans [of "{}" ?w w1 "{}" w'] by simp
    qed
    then show ?thesis unfolding eq .
  qed
qed

text \<open>Looking a stream up by the two ids changes nothing and finds a local socket.\<close>

definition stream_ids :: "u32 \<Rightarrow> u32 \<Rightarrow> world \<Rightarrow> addr \<Rightarrow> bool" where
  "stream_ids i j w a \<longleftrightarrow> (\<exists>s. w_socks w a = Some s \<and> is_local s \<and> \<not> s_closing s \<and> s_id s = i \<and>
     (j \<noteq> 0 \<longrightarrow> (\<exists>b t. s_peer s = Some b \<and> w_socks w b = Some t \<and> s_id t = j)))"

lemma find_in_list_ok:
  assumes "wf_upto {} w" and "set as \<subseteq> set (w_local w)"
  shows "\<exists>r. find_in_list as i j w = Inr r \<and> (\<forall>a. r = Some a \<longrightarrow> a \<in> set as \<and> stream_ids i j w a)"
  using assms
proof (induction as)
  case (Cons a as)
  then obtain r where r: "find_in_list as i j w = Inr r" "\<forall>a. r = Some a \<longrightarrow> a \<in> set as \<and> stream_ids i j w a"
    by auto
  have "lists_inv w" using assms(1) by (simp add: wf_upto_def)
  then have d: "distinct (w_local w @ w_closing w)"
    and l: "a \<in> set (w_local w) \<Longrightarrow> \<exists>s. w_socks w a = Some s \<and> is_local s"
    and c: "\<And>s. w_socks w a = Some s \<Longrightarrow> is_local s \<Longrightarrow> s_closing s \<longleftrightarrow> a \<in> set (w_closing w)"
    unfolding lists_inv_def by blast+
  obtain s where s: "w_socks w a = Some s" "is_local s" using l Cons.prems(2) by auto
  have "\<not> s_closing s" using c [OF s] d Cons.prems(2) by auto
  show ?case
  proof (cases "s_peer s")
    case None
    with r s \<open>\<not> s_closing s\<close> show ?thesis by (auto simp: get_sock_Some stream_ids_def)
  next
    case (Some b)
    obtain t where "w_socks w b = Some t" using peerD [OF assms(1) s(1) Some] by auto
    with r s Some \<open>\<not> s_closing s\<close> show ?thesis by (auto simp: get_sock_Some stream_ids_def)
  qed
qed simp

lemma find_local_socket_ok:
  assumes "wf_world w"
  shows "\<exists>r. find_local_socket i j w = Inr (r, w) \<and> (\<forall>a. r = Some a \<longrightarrow> stream_ids i j w a)"
proof -
  let ?l = "w\<lparr>w_socket_list_lock := True\<rparr>"
  have lock: "\<not> w_socket_list_lock w" using assms by (simp add: wf_world_def unlocked_def)
  have "wf_upto {} ?l" using assms by (simp add: wf_world_def wf_lock)
  then obtain r where r: "find_in_list (w_local ?l) i j ?l = Inr r" "\<forall>a. r = Some a \<longrightarrow> stream_ids i j ?l a"
    using find_in_list_ok [of ?l "w_local ?l" i j] by blast
  moreover have "unlock_sockets ?l = w" using lock by (simp add: unlock_sockets_def)
  moreover have "stream_ids i j ?l = stream_ids i j w" by (simp add: stream_ids_def fun_eq_iff)
  ultimately show ?thesis using lock by (simp add: find_local_socket_def lock_sockets_def)
qed

section \<open>New sockets\<close>

lemma wf_next_free:
  assumes "wf_upto D w"
  shows "w_socks w (w_next w) = None" and "w_next w \<notin> set (w_local w)" and "w_next w \<notin> set (w_closing w)"
    and "w_next w \<notin> set (w_trackers w)" and "\<not> owned (w_fdev w) (FSock (w_next w))"
    and "w_socks w x = Some sx \<Longrightarrow> s_peer sx = Some (w_next w) \<Longrightarrow> x \<in> D"
    and "w_dis w t = Some ds \<Longrightarrow> Dis_remote (w_next w) \<notin> set ds"
proof -
  show none: "w_socks w (w_next w) = None"
    using wf_kind(2) [OF assms, of "w_next w"] by (cases "w_socks w (w_next w)") auto
  have lists: "x \<in> set (w_local w) \<or> x \<in> set (w_closing w) \<longleftrightarrow> (\<exists>s. w_socks w x = Some s \<and> is_local s)" for x
    using assms unfolding wf_upto_def lists_inv_def by blast
  show "w_next w \<notin> set (w_local w)" "w_next w \<notin> set (w_closing w)"
    using lists [of "w_next w"] none by auto
  show "w_next w \<notin> set (w_trackers w)" using wf_tracker(1) [OF assms] none by simp
  show "\<not> owned (w_fdev w) (FSock (w_next w))" using wf_events(2) [OF assms] none by simp
  show "w_socks w x = Some sx \<Longrightarrow> s_peer sx = Some (w_next w) \<Longrightarrow> x \<in> D"
    using peerD [OF assms, of x sx "w_next w"] none by auto
  show "w_dis w t = Some ds \<Longrightarrow> Dis_remote (w_next w) \<notin> set ds"
    using assms none remotesD(3) [of w t ds "w_next w"] by (auto simp: wf_upto_def)
qed

text \<open>Allocation of a socket of any kind, with its entry in the list or registry of its kind.
  A tracker is well-formed only once it has its peer.\<close>

definition fresh_socket :: "addr set \<Rightarrow> world \<Rightarrow> asocket \<Rightarrow> world \<Rightarrow> bool" where
  "fresh_socket D w s w' \<longleftrightarrow> wf_upto D w \<and> (is_local s \<or> is_remote s \<or> is_smart s \<or> is_tracker s) \<and>
     (s_peer s = None \<and> s_pkts s = [] \<and> \<not> s_closing s \<and> s_close s \<noteq> Local_close_notify) \<and>
     w_socks w' = (w_socks w)(w_next w \<mapsto> s) \<and> w_next w' = Suc (w_next w) \<and>
     w_local w' = (if is_local s then w_local w @ [w_next w] else w_local w) \<and> w_closing w' = w_closing w \<and>
     w_trackers w' = (if is_tracker s then w_next w # w_trackers w else w_trackers w) \<and>
     (is_remote s \<longrightarrow> (\<exists>t. s_transport s = Some t \<and> w_dis w t \<noteq> None)) \<and>
     w_dis w' = (\<lambda>t. map_option (\<lambda>ds. if is_remote s \<and> s_transport s = Some t
       then ds @ [Dis_remote (w_next w)] else ds) (w_dis w t)) \<and>
     (w_transport_list w' = w_transport_list w \<and> set (w_newfds w') \<subseteq> set (w_newfds w)) \<and>
     fdev_inv (w_fdev w') \<and> owned (w_fdev w') =
       (if is_local s then (owned (w_fdev w))(FSock (w_next w) := True) else owned (w_fdev w))"

lemma fresh_socketD:
  assumes "fresh_socket D w s w'"
  shows "wf_upto D w" "is_local s \<or> is_remote s \<or> is_smart s \<or> is_tracker s"
    "s_peer s = None" "s_pkts s = []" "\<not> s_closing s" "s_close s \<noteq> Local_close_notify"
    "w_socks w' = (w_socks w)(w_next w \<mapsto> s)" "w_next w' = Suc (w_next w)"
    "w_local w' = (if is_local s then w_local w @ [w_next w] else w_local w)" "w_closing w' = w_closing w"
    "w_trackers w' = (if is_tracker s then w_next w # w_trackers w else w_trackers w)"
    "is_remote s \<Longrightarrow> \<exists>t. s_transport s = Some t \<and> w_dis w t \<noteq> None"
    "w_dis w' = (\<lambda>t. map_option (\<lambda>ds. if is_remote s \<and> s_transport s = Some t
       then ds @ [Dis_remote (w_next w)] else ds) (w_dis w t))"
    "w_transport_list w' = w_transport_list w" "set (w_newfds w') \<subseteq> set (w_newfds w)"
    "fdev_inv (w_fdev w')" "owned (w_fdev w') =
       (if is_local s then (owned (w_fdev w))(FSock (w_next w) := True) else owned (w_fdev w))"
  using assms unfolding fresh_socket_def by blast+

lemma new_kinds:
  assumes "fresh_socket D w s w'"
  shows "kinds_inv w'"
proof -
  note wf = fresh_socketD(1) [OF assms] and kind = fresh_socketD(2) [OF assms]
    and socks = fresh_socketD(7) [OF assms] and nx = fresh_socketD(8) [OF assms]
  have "x < Suc (w_next w)" if "w_socks w x = Some t" for x t
    using wf_kind(2) [OF wf that] by simp
  then show ?thesis
    using kind wf_kind(1) [OF wf] by (auto simp: kinds_inv_def socks nx)
qed

lemma new_lists:
  assumes "fresh_socket D w s w'"
  shows "lists_inv w'"
proof -
  note wf = fresh_socketD(1) [OF assms] and plain = fresh_socketD(3-6) [OF assms]
    and socks = fresh_socketD(7) [OF assms] and loc = fresh_socketD(9) [OF assms]
    and closing = fresh_socketD(10) [OF assms]
  have l: "lists_inv w" using wf by (simp add: wf_upto_def)
  note free = wf_next_free [OF wf]
  have "distinct (w_local w' @ w_closing w')"
    using l free(2,3) by (auto simp: lists_inv_def loc closing)
  moreover have "(x \<in> set (w_local w') \<or> x \<in> set (w_closing w')) \<longleftrightarrow> (\<exists>t. w_socks w' x = Some t \<and> is_local t)" for x
    using l free(1,2,3) by (auto simp: lists_inv_def loc closing socks)
  moreover have "(t_closing \<longleftrightarrow> x \<in> set (w_closing w')) \<and> (t_closing \<longrightarrow> s_peer t = None)"
    if "w_socks w' x = Some t" "is_local t" "t_closing = s_closing t" for x t t_closing
    using l free(3) plain that by (auto simp: lists_inv_def closing socks split: if_splits)
  ultimately show ?thesis unfolding lists_inv_def by blast
qed

lemma new_peers:
  assumes "fresh_socket D w s w'"
  shows "peers_inv D w'"
proof -
  note wf = fresh_socketD(1) [OF assms] and plain = fresh_socketD(3-6) [OF assms]
    and socks = fresh_socketD(7) [OF assms]
  show ?thesis
    unfolding peers_inv_def
  proof (intro allI impI, elim conjE)
    fix x sx y
    assume x: "w_socks w' x = Some sx" "s_peer sx = Some y" "x \<notin> D"
    then have "x \<noteq> w_next w" "w_socks w x = Some sx" using plain(1) by (auto simp: socks split: if_splits)
    moreover have "y \<noteq> w_next w" using wf_next_free(6) [OF wf] calculation x by blast
    ultimately show "x \<noteq> y \<and> (\<exists>t. w_socks w' y = Some t \<and> s_peer t = Some x \<and> (is_local sx \<or> is_local t))"
      using peerD [OF wf, of x sx y] x by (auto simp: socks)
  qed
qed

lemma new_locals:
  assumes "fresh_socket D w s w'"
  shows "locals_inv D w'"
proof -
  note wf = fresh_socketD(1) [OF assms] and plain = fresh_socketD(3-6) [OF assms]
    and socks = fresh_socketD(7) [OF assms]
  show ?thesis
    using wf plain unfolding wf_upto_def locals_inv_def socks by auto
qed

lemma new_remotes:
  assumes "fresh_socket D w s w'"
  shows "remotes_inv w'"
proof -
  note wf = fresh_socketD(1) [OF assms] and socks = fresh_socketD(7) [OF assms]
    and registered = fresh_socketD(12) [OF assms] and dis = fresh_socketD(13) [OF assms]
  have r: "remotes_inv w" using wf by (simp add: wf_upto_def)
  note free = wf_next_free [OF wf]
  have "\<exists>t ds. s_transport sx = Some t \<and> w_dis w' t = Some ds \<and> Dis_remote x \<in> set ds"
    if x: "w_socks w' x = Some sx" "is_remote sx" for x sx
  proof (cases "x = w_next w")
    case True
    then show ?thesis using registered x by (auto simp: socks dis)
  next
    case False
    then obtain t ds where "s_transport sx = Some t" "w_dis w t = Some ds" "Dis_remote x \<in> set ds"
      using remotesD(1) [OF r, of x sx] x by (auto simp: socks)
    then show ?thesis by (cases "is_remote s \<and> s_transport s = Some t") (simp_all add: dis)
  qed
  moreover have "distinct ds \<and> (\<forall>x. Dis_remote x \<in> set ds \<longrightarrow>
      (\<exists>sx. w_socks w' x = Some sx \<and> is_remote sx \<and> s_transport sx = Some t))" if ds: "w_dis w' t = Some ds" for t ds
  proof -
    obtain ds0 where ds0: "w_dis w t = Some ds0"
      "ds = (if is_remote s \<and> s_transport s = Some t then ds0 @ [Dis_remote (w_next w)] else ds0)"
      using ds by (auto simp: dis)
    have old: "\<exists>sx. w_socks w' x = Some sx \<and> is_remote sx \<and> s_transport sx = Some t" if "Dis_remote x \<in> set ds0" for x
      using remotesD(3) [OF r ds0(1) that] free(1) by (auto simp: socks)
    then show ?thesis
      using remotesD(2) [OF r ds0(1)] free(7) [OF ds0(1)] unfolding ds0(2) by (auto simp: socks)
  qed
  ultimately show ?thesis unfolding remotes_inv_def by blast
qed

lemma new_trackers:
  assumes "fresh_socket D w s w'"
  shows "trackers_inv (if is_tracker s then insert (w_next w) D else D) w'"
proof -
  note wf = fresh_socketD(1) [OF assms] and socks = fresh_socketD(7) [OF assms]
    and trackers = fresh_socketD(11) [OF assms]
  have t: "trackers_inv D w" using wf by (simp add: wf_upto_def)
  note free = wf_next_free [OF wf]
  show ?thesis
    using t free(1,4) unfolding trackers_inv_def trackers socks by (auto split: if_splits)
qed

lemma new_events:
  assumes "fresh_socket D w s w'"
  shows "events_inv w'"
proof -
  note wf = fresh_socketD(1) [OF assms] and socks = fresh_socketD(7) [OF assms]
    and dis = fresh_socketD(13) [OF assms] and rest = fresh_socketD(14,15) [OF assms]
    and events = fresh_socketD(16,17) [OF assms]
  have e: "events_inv w" using wf by (simp add: wf_upto_def)
  then show ?thesis
    using wf_next_free(1) [OF wf] events rest unfolding events_inv_def socks dis by (auto split: if_splits)
qed

lemma new_wf:
  assumes "fresh_socket D w s w'"
  shows "wf_upto (if is_tracker s then insert (w_next w) D else D) w'"
  using new_kinds [OF assms] new_lists [OF assms] new_peers [OF assms] new_locals [OF assms]
    new_remotes [OF assms] new_trackers [OF assms] new_events [OF assms]
  unfolding wf_upto_def peers_inv_def locals_inv_def by auto

definition remote_asocket :: "u32 \<Rightarrow> addr \<Rightarrow> asocket" where
  "remote_asocket i t = \<lparr>s_id = i, s_closing = False, s_exit_on_close = False, s_peer = None, s_fd = 0,
     s_pkts = [], s_enqueue = Remote_enqueue, s_ready = Remote_ready, s_shutdown = Some Remote_shutdown,
     s_close = Remote_close, s_transport = Some t, s_update_needed = False\<rparr>"

definition local_asocket :: "u32 \<Rightarrow> int \<Rightarrow> asocket" where
  "local_asocket i fd = \<lparr>s_id = i, s_closing = False, s_exit_on_close = False, s_peer = None, s_fd = fd,
     s_pkts = [], s_enqueue = Local_enqueue, s_ready = Local_ready, s_shutdown = None,
     s_close = Local_close, s_transport = None, s_update_needed = False\<rparr>"

lemma remote_asocket_simps [simp]:
  "is_remote (remote_asocket i t)" "\<not> is_local (remote_asocket i t)" "\<not> is_tracker (remote_asocket i t)"
  "s_peer (remote_asocket i t) = None" "s_id (remote_asocket i t) = i" "s_transport (remote_asocket i t) = Some t"
  by (simp_all add: remote_asocket_def kind_defs)

lemma local_asocket_simps [simp]:
  "is_local (local_asocket i fd)" "\<not> is_remote (local_asocket i fd)" "\<not> is_tracker (local_asocket i fd)"
  "s_peer (local_asocket i fd) = None" "s_id (local_asocket i fd) = i" "\<not> s_closing (local_asocket i fd)"
  "s_close (local_asocket i fd) = Local_close" "s_pkts (local_asocket i fd) = []"
  by (simp_all add: local_asocket_def kind_defs)

lemma create_remote_socket_ok:
  assumes wf: "wf_world w" and t: "w_trans w t = Some x"
  shows "ok (create_remote_socket i t w) (\<lambda>(a, w'). i \<noteq> 0 \<and> wf_world w' \<and> a = w_next w \<and>
    w' = w\<lparr>w_socks := (w_socks w)(a \<mapsto> remote_asocket i t), w_next := Suc (w_next w),
           w_trans := (w_trans w)(t \<mapsto> x\<lparr>t_disconnects := t_disconnects x @ [Dis_remote a]\<rparr>)\<rparr>)"
proof (cases "i = 0")
  case True
  then show ?thesis by (simp add: create_remote_socket_def)
next
  case False
  let ?w = "w\<lparr>w_socks := (w_socks w)(w_next w \<mapsto> remote_asocket i t), w_next := Suc (w_next w),
    w_trans := (w_trans w)(t \<mapsto> x\<lparr>t_disconnects := t_disconnects x @ [Dis_remote (w_next w)]\<rparr>)\<rparr>"
  have lock: "\<not> w_transport_lock w" using wf by (simp add: wf_world_def unlocked_def)
  have "create_remote_socket i t w = Inr (w_next w, ?w)"
    using False t lock by (simp add: create_remote_socket_def new_sock_def add_transport_disconnect_def
        lock_transports_def mod_trans_def get_trans_def unlock_transports_def remote_asocket_def)
  moreover have "fresh_socket {} w (remote_asocket i t) ?w"
    using wf t wf_events(1) [of "{}" w] unfolding fresh_socket_def wf_world_def
    by (simp add: remote_asocket_def w_dis_def kind_defs fun_eq_iff option.map_ident)
  then have "wf_world ?w"
    using new_wf [of "{}" w "remote_asocket i t" ?w] wf by (simp add: wf_world_def unlocked_def)
  ultimately show ?thesis using False by simp
qed

text \<open>The invariant looks at these parts of the state only.\<close>

lemma wf_frame:
  assumes wf: "wf_upto D w" and w': "w_socks w' = w_socks w" "w_next w' = w_next w" "w_local w' = w_local w"
    "w_closing w' = w_closing w" "w_trackers w' = w_trackers w" "w_dis w' = w_dis w"
    "fdev_inv (w_fdev w')" "\<And>a. owned (w_fdev w') (FSock a) = owned (w_fdev w) (FSock a)"
    "set (w_newfds w') \<subseteq> set (w_newfds w)" "set (w_transport_list w') \<subseteq> set (w_transport_list w)"
  shows "wf_upto D w'"
proof -
  have "events_inv w'" using wf w' unfolding wf_upto_def events_inv_def by auto
  moreover have "kinds_inv w' = kinds_inv w" "lists_inv w' = lists_inv w" "peers_inv D w' = peers_inv D w"
    "locals_inv D w' = locals_inv D w" "remotes_inv w' = remotes_inv w" "trackers_inv D w' = trackers_inv D w"
    by (simp_all add: wf_parts w')
  ultimately show ?thesis using wf by (simp add: wf_upto_def)
qed

lemma wf_world_frame:
  assumes "wf_world w" and "w_socks w' = w_socks w" "w_next w' = w_next w" "w_local w' = w_local w"
    "w_closing w' = w_closing w" "w_trackers w' = w_trackers w" "w_dis w' = w_dis w" "w_fdev w' = w_fdev w"
    "set (w_newfds w') \<subseteq> set (w_newfds w)" "set (w_transport_list w') \<subseteq> set (w_transport_list w)"
    "w_socket_list_lock w' = w_socket_list_lock w" "w_transport_lock w' = w_transport_lock w"
  shows "wf_world w'"
  using assms wf_frame [of "{}" w w'] wf_events(1) [of "{}" w] by (simp add: wf_world_def unlocked_def)

lemma open_fd_free:
  assumes wf: "wf_world w" and fd: "open_fd w = Inr (Some fd, w')"
  shows "free_fd (w_fdev w) fd" and "w' = w\<lparr>w_newfds := tl (w_newfds w)\<rparr>" and "wf_world w'"
    and "w_newfds w = fd # w_newfds w'"
proof -
  from fd obtain fds where fds: "w_newfds w = fd # fds" "0 \<le> fd" "\<not> fd_in_use (w_fdev w) fd"
      "w' = w\<lparr>w_newfds := fds\<rparr>"
    by (cases "w_newfds w") (auto simp: open_fd_def split: if_splits)
  have inv: "fdev_inv (w_fdev w)" and lim: "fd < int FD_LIMIT" "\<forall>x \<in> set fds. x < int FD_LIMIT"
    using wf fds(1) by (auto simp: wf_world_def wf_upto_def events_inv_def)
  have "fde_fd e \<noteq> fd" if "active (w_fdev w) x e" for x e
    using inv fds(2,3) that unfolding fdev_inv_def table_inv_def fd_in_use_def by fastforce
  then show "free_fd (w_fdev w) fd" using fds(2) lim(1) by (simp add: free_fd_def)
  show "w' = w\<lparr>w_newfds := tl (w_newfds w)\<rparr>" "w_newfds w = fd # w_newfds w'" using fds by simp_all
  show "wf_world w'"
    by (rule wf_world_frame [OF wf]) (use fds in \<open>auto simp: w_dis_def fun_eq_iff\<close>)
qed

lemma create_local_socket_ok:
  assumes wf: "wf_world w" and fd: "free_fd (w_fdev w) fd"
  shows "\<exists>f n. create_local_socket fd w = Inr (w_next w, w\<lparr>w_socks := (w_socks w)(w_next w \<mapsto>
      local_asocket (w_next_id w) fd), w_next := Suc (w_next w), w_next_id := n,
      w_local := w_local w @ [w_next w], w_fdev := f\<rparr>) \<and>
    n = (if w_next_id w + 1 = 0 then 1 else w_next_id w + 1) \<and>
    owned f = (owned (w_fdev w))(FSock (w_next w) := True) \<and>
    wf_world (w\<lparr>w_socks := (w_socks w)(w_next w \<mapsto> local_asocket (w_next_id w) fd),
      w_next := Suc (w_next w), w_next_id := n, w_local := w_local w @ [w_next w], w_fdev := f\<rparr>)"
proof -
  have u: "wf_upto {} w" and lock: "\<not> w_socket_list_lock w" "\<not> w_transport_lock w"
    using wf by (auto simp: wf_world_def unlocked_def)
  let ?n = "if w_next_id w + 1 = 0 then 1 else w_next_id w + 1"
  let ?w = "\<lambda>f. w\<lparr>w_socks := (w_socks w)(w_next w \<mapsto> local_asocket (w_next_id w) fd),
      w_next := Suc (w_next w), w_next_id := ?n, w_local := w_local w @ [w_next w], w_fdev := f\<rparr>"
  obtain f where f: "fdevent_install (FSock (w_next w)) fd Local_socket_event_func (w_fdev w) = Inr f"
    "fdev_inv f" "owned f = (owned (w_fdev w))(FSock (w_next w) := True)"
    using ev.install_law [OF wf_events(1) [OF u] fd wf_next_free(5) [OF u]] by blast
  have eq: "create_local_socket fd w = Inr (w_next w, ?w f)"
    using lock f(1) by (simp add: create_local_socket_def new_sock_def install_local_socket_def lock_sockets_def
        mod_sock_def get_sock_def unlock_sockets_def insert_local_def on_fdev_def local_asocket_def Let_def)
  have "w_dis (?w f) = w_dis w" by (simp add: w_dis_def fun_eq_iff)
  then have "fresh_socket {} w (local_asocket (w_next_id w) fd) (?w f)"
    using u f(2,3) unfolding fresh_socket_def
    by (simp add: local_asocket_def kind_defs map_option.identity id_def)
  then have "wf_world (?w f)"
    using new_wf [of "{}" w "local_asocket (w_next_id w) fd" "?w f"] lock by (simp add: wf_world_def unlocked_def)
  with eq f(3) show ?thesis by blast
qed

section \<open>Connecting\<close>

text \<open>A local socket without a peer and another socket without one become each other's peer.\<close>

definition link :: "addr \<Rightarrow> asocket \<Rightarrow> addr \<Rightarrow> asocket \<Rightarrow> world \<Rightarrow> world" where
  "link a s b t w = w\<lparr>w_socks := (w_socks w)(a \<mapsto> s\<lparr>s_peer := Some b\<rparr>, b \<mapsto> t\<lparr>s_peer := Some a\<rparr>)\<rparr>"

lemma set_peer_kind [simp]:
  "is_local (s\<lparr>s_peer := p\<rparr>) = is_local s" "is_remote (s\<lparr>s_peer := p\<rparr>) = is_remote s"
  "is_smart (s\<lparr>s_peer := p\<rparr>) = is_smart s" "is_tracker (s\<lparr>s_peer := p\<rparr>) = is_tracker s"
  by (simp_all add: kind_defs)

lemma plain_local_simps [simp]:
  "s_peer (plain_local s) = s_peer s" "s_pkts (plain_local s) = s_pkts s" "s_closing (plain_local s) = s_closing s"
  "s_close (plain_local s) = Local_close" "s_id (plain_local s) = s_id s" "s_transport (plain_local s) = s_transport s"
  "s_fd (plain_local s) = s_fd s"
  by (simp_all add: plain_local_def)

lemma plain_local_peer: "plain_local (s\<lparr>s_peer := p\<rparr>) = (plain_local s)\<lparr>s_peer := p\<rparr>"
  by (cases s) (simp add: plain_local_def)

lemma plain_local_local: "is_local s \<Longrightarrow> is_local (plain_local s)"
  by (simp add: plain_local_def is_local_def)

lemma remotes_link:
  assumes r: "remotes_inv w" and dis: "w_dis w' = w_dis w"
    and socks: "w_socks w' = (w_socks w)(a \<mapsto> s\<lparr>s_peer := p\<rparr>, b \<mapsto> t\<lparr>s_peer := q\<rparr>)"
    and ab: "w_socks w a = Some s" "w_socks w b = Some t" "a \<noteq> b"
  shows "remotes_inv w'"
proof -
  have fwd: "\<exists>s0. w_socks w x = Some s0 \<and> is_remote sx = is_remote s0 \<and> s_transport sx = s_transport s0"
    if "w_socks w' x = Some sx" for x sx
    using that ab by (auto simp: socks split: if_splits)
  have bwd: "\<exists>sx. w_socks w' x = Some sx \<and> is_remote sx = is_remote s0 \<and> s_transport sx = s_transport s0"
    if "w_socks w x = Some s0" for x s0
    using that ab by (auto simp: socks)
  have "\<exists>t ds. s_transport sx = Some t \<and> w_dis w' t = Some ds \<and> Dis_remote x \<in> set ds"
    if "w_socks w' x = Some sx" "is_remote sx" for x sx
    using fwd [OF that(1)] remotesD(1) [OF r] that(2) unfolding dis by metis
  moreover have "\<exists>sx. w_socks w' x = Some sx \<and> is_remote sx \<and> s_transport sx = Some u"
    if "w_dis w' u = Some ds" "Dis_remote x \<in> set ds" for u ds x
    using remotesD(3) [OF r that [unfolded dis]] bwd by metis
  ultimately show ?thesis using remotesD(2) [OF r] unfolding remotes_inv_def dis by blast
qed

lemma wf_link:
  assumes wf: "wf_upto D w" and D: "D \<subseteq> {a, b}" and ab: "a \<noteq> b"
    and a: "w_socks w a = Some s" "is_local s" "s_peer s = None" "\<not> s_closing s" "s_close s = Local_close"
    and b: "w_socks w b = Some t" "s_peer t = None"
      "is_local t \<Longrightarrow> \<not> s_closing t \<and> s_close t = Local_close"
  shows "wf_upto {} (link a s b t w)"
proof -
  let ?w = "link a s b t w"
  let ?s = "s\<lparr>s_peer := Some b\<rparr>" and ?t = "t\<lparr>s_peer := Some a\<rparr>"
  have socks: "w_socks ?w = (w_socks w)(a \<mapsto> ?s, b \<mapsto> ?t)" by (simp add: link_def)
  have rest: "w_next ?w = w_next w" "w_local ?w = w_local w" "w_closing ?w = w_closing w"
    "w_trackers ?w = w_trackers w" "w_dis ?w = w_dis w" "w_fdev ?w = w_fdev w" "w_newfds ?w = w_newfds w"
    "w_transport_list ?w = w_transport_list w" by (simp_all add: link_def w_dis_def fun_eq_iff)
  have ex: "(\<exists>r. w_socks ?w x = Some r \<and> K r) \<longleftrightarrow> (\<exists>r. w_socks w x = Some r \<and> K r)"
    if "\<And>r p. K (r\<lparr>s_peer := p\<rparr>) = K r" for K x
    using a(1) b(1) ab that by (auto simp: socks)
  have "kinds_inv ?w"
    using wf a(1) b(1) unfolding wf_upto_def kinds_inv_def socks rest by auto
  moreover have "lists_inv ?w"
  proof -
    have "lists_inv w" using wf by (simp add: wf_upto_def)
    then show ?thesis using ab a b unfolding lists_inv_def rest ex [of is_local, simplified]
      by (auto simp: socks split: if_splits)
  qed
  moreover have "peers_inv {} ?w"
    unfolding peers_inv_def
  proof (intro allI impI, elim conjE)
    fix x sx y
    assume x: "w_socks ?w x = Some sx" "s_peer sx = Some y"
    show "x \<noteq> y \<and> (\<exists>r. w_socks ?w y = Some r \<and> s_peer r = Some x \<and> (is_local sx \<or> is_local r))"
    proof (cases "x = a \<or> x = b")
      case True
      then show ?thesis using x ab a(2) by (auto simp: socks split: if_splits)
    next
      case False
      then have old: "w_socks w x = Some sx" "x \<notin> D" using x D by (auto simp: socks)
      obtain r where r: "x \<noteq> y" "w_socks w y = Some r" "s_peer r = Some x" "is_local sx \<or> is_local r"
        using peerD [OF wf old(1) x(2) old(2)] by blast
      then have "y \<noteq> a" "y \<noteq> b" using a b by auto
      then show ?thesis using r by (simp add: socks)
    qed
  qed
  moreover have "locals_inv {} ?w"
  proof -
    have "locals_inv D w" using wf by (simp add: wf_upto_def)
    then show ?thesis using D a b unfolding locals_inv_def socks by (auto split: if_splits; blast)
  qed
  moreover have "remotes_inv ?w"
    by (rule remotes_link [OF _ rest(5) socks a(1) b(1) ab]) (use wf in \<open>simp add: wf_upto_def\<close>)
  moreover have "trackers_inv {} ?w"
  proof -
    have "trackers_inv D w" using wf by (simp add: wf_upto_def)
    then show ?thesis using D a(2) kinds_disjoint(1) [OF a(2)] unfolding trackers_inv_def rest ex [of is_tracker, simplified]
      by (auto simp: socks split: if_splits; blast)
  qed
  moreover have "events_inv ?w"
    using wf unfolding wf_upto_def events_inv_def rest ex [of is_local, simplified] by simp
  ultimately show ?thesis by (simp add: wf_upto_def)
qed

text \<open>What the \<open>OPEN\<close> and \<open>OKAY\<close> handlers do once the remote socket exists: connect the two
  sockets, then make the local one ready. A notifying socket is a plain one from then on.\<close>

lemma link_ready_ok:
  assumes wf: "wf_world w" and ab: "a \<noteq> b"
    and a: "w_socks w a = Some s" "is_local s" "s_peer s = None" "\<not> s_closing s"
    and b: "w_socks w b = Some t" "s_peer t = None"
      "is_local t \<Longrightarrow> \<not> s_closing t \<and> s_close t = Local_close"
  shows "ok (sready smart a (link a s b t w)) (\<lambda>w'. wf_world w' \<and> shrinks {} (link a (plain_local s) b t w) w')"
proof -
  let ?w = "link a s b t w" and ?s = "s\<lparr>s_peer := Some b\<rparr>"
  have u: "wf_upto {} w" and lock: "unlocked w" using wf by (auto simp: wf_world_def)
  have s: "w_socks ?w a = Some ?s" "is_local ?s" using ab a(2) by (simp_all add: link_def)
  have "wf_upto {} (w\<lparr>w_socks := (w_socks w)(a \<mapsto> plain_local s)\<rparr>)" by (rule wf_plain_local [OF u a(1,2)])
  then have "wf_upto {} (link a (plain_local s) b t (w\<lparr>w_socks := (w_socks w)(a \<mapsto> plain_local s)\<rparr>))"
    using ab a b plain_local_local [OF a(2)] by (intro wf_link) auto
  then have "wf_upto {} (link a (plain_local s) b t w)" by (simp add: link_def)
  moreover have "?w\<lparr>w_socks := (w_socks ?w)(a \<mapsto> plain_local ?s)\<rparr> = link a (plain_local s) b t w"
    using ab by (simp add: link_def plain_local_peer fun_upd_twist)
  moreover have "unlocked (link a (plain_local s) b t w)" using lock by (simp add: unlocked_def link_def)
  ultimately show ?thesis using ready_local_ok [OF s, of smart] by (simp add: wf_world_def)
qed

section \<open>Data on a local socket\<close>

text \<open>The bytes queued on a socket, in the order in which they will be written.\<close>

definition pending :: "apacket list \<Rightarrow> bytes" where
  "pending ps = concat (map p_bytes ps)"

lemma p_bytes_advance:
  assumes "queued_ok p"
  shows "p_bytes p = take n (p_bytes p) @ p_bytes (p_advance (min n (p_len p)) p)"
    and "queued_ok (p_advance (min n (p_len p)) p)"
proof -
  have "p_bytes (p_advance (min n (p_len p)) p) = drop (min n (p_len p)) (p_bytes p)"
    by (simp add: p_bytes_def p_advance_def drop_take add.commute)
  moreover have "length (p_bytes p) = p_len p" using assms by (auto simp: p_bytes_def queued_ok_def min_def)
  then have "drop (min n (p_len p)) (p_bytes p) = drop n (p_bytes p)" by (simp add: min_def)
  ultimately show "p_bytes p = take n (p_bytes p) @ p_bytes (p_advance (min n (p_len p)) p)" by simp
  show "queued_ok (p_advance (min n (p_len p)) p)" using assms by (simp add: p_advance_def queued_ok_def)
qed

definition drained :: "apacket list \<Rightarrow> drain_res \<times> apacket list \<times> bytes \<times> wres list \<Rightarrow> bool" where
  "drained ps = (\<lambda>(r, q, acc, ws). (\<forall>p \<in> set q. queued_ok p) \<and> pending ps = acc @ pending q \<and>
     (r = Drained \<longleftrightarrow> q = []) \<and> (q \<noteq> [] \<longrightarrow> ps \<noteq> []))"

lemma drain_ok:
  assumes "\<forall>p \<in> set ps. queued_ok p"
  shows "ok (drain ps ws) (drained ps)"
  using assms
proof (induction ps ws rule: drain.induct)
  case (1 ws)
  then show ?case by (simp add: drained_def)
next
  case (2 p ps ws)
  have q: "queued_ok p" "\<forall>p \<in> set ps. queued_ok p" using "2.prems" by auto
  have stop: "drained (p # ps) (r, p # ps, [], ws')" if "r \<noteq> Drained" for r ws'
    using "2.prems" that by (simp add: drained_def)
  show ?case
  proof (cases "p_len p = 0")
    case True
    then have "ok (drain ps ws) (drained ps)" using "2.IH"(1) q(2) by simp
    moreover have "pending (p # ps) = pending ps" using True by (simp add: pending_def p_bytes_def)
    ultimately have "ok (drain ps ws) (drained (p # ps))" by (elim ok_mono) (auto simp: drained_def)
    then show ?thesis using True by simp
  next
    case len: False
    show ?thesis
    proof (cases ws)
      case Nil
      then show ?thesis using len by simp
    next
      case (Cons c ws')
      show ?thesis
      proof (cases c)
        case (WErr e)
        then show ?thesis using Cons len stop "2.IH"(3) "2.prems" by auto
      next
        case (WOk n)
        show ?thesis
        proof (cases "n = 0")
          case True
          then show ?thesis using Cons WOk len stop by simp
        next
          case False
          let ?p = "p_advance (min n (p_len p)) p"
          have in_buf: "\<not> length (p_data p) < p_ptr p + p_len p" using q(1) by (simp add: queued_ok_def)
          have "ok (drain (?p # ps) ws') (drained (?p # ps))"
            using "2.IH"(2) [OF len Cons WOk False in_buf] p_bytes_advance(2) [OF q(1), of n] q(2) by simp
          moreover have "pending (p # ps) = take n (p_bytes p) @ pending (?p # ps)"
            using p_bytes_advance(1) [OF q(1), of n] by (simp add: pending_def)
          ultimately have "ok (ebind (drain (?p # ps) ws') (\<lambda>(r, q, acc, ws'').
              Inr (r, q, take n (p_bytes p) @ acc, ws''))) (drained (p # ps))"
            by (elim ok_ebind) (auto simp: drained_def)
          then show ?thesis using Cons WOk len False in_buf by simp
        qed
      qed
    qed
  qed
qed

lemma read_avail_ok: "ok (read_avail n rs r) (\<lambda>(d, _). length d \<le> n)"
proof (induction n rs r rule: read_avail.induct)
  case (2 avail bs rs r)
  then show ?case by (auto elim!: ok_ebind)
qed auto

text \<open>A stream: a local socket connected to a remote one, or a closing one that still has data
  to write.\<close>

definition streaming :: "world \<Rightarrow> addr \<Rightarrow> bool" where
  "streaming w a \<longleftrightarrow> (\<exists>s. w_socks w a = Some s \<and> is_local s \<and>
     (s_closing s \<or> (\<exists>b t. s_peer s = Some b \<and> w_socks w b = Some t \<and> is_remote t)))"

lemma streaming_quiet: "quiet w w' \<Longrightarrow> streaming w' a = streaming w a"
  by (simp add: streaming_def quiet_def)

text \<open>A step that leaves the sockets well-formed and can only change and free them.\<close>

definition settled :: "world \<Rightarrow> world \<Rightarrow> bool" where
  "settled w w' \<longleftrightarrow> wf_world w' \<and> (\<exists>X. shrinks X w w')"

lemma settled_trans: "settled w w' \<Longrightarrow> settled w' w'' \<Longrightarrow> settled w w''"
  unfolding settled_def using shrinks_trans by blast

lemma settled_refl: "wf_world w \<Longrightarrow> settled w w"
  unfolding settled_def wf_world_def using shrinks_refl by blast

lemma settled_quiet: "wf_world w \<Longrightarrow> quiet w w' \<Longrightarrow> settled w w'"
  unfolding settled_def using wf_quiet quiet_shrinks [of "{}" w w'] by (metis wf_world_def)

lemma settled_wf: "settled w w' \<Longrightarrow> wf_world w'"
  by (simp add: settled_def)

lemma sock_close_settled:
  assumes "wf_world w" and "w_socks w a = Some s"
  shows "ok (sock_close a w) (settled w)"
  by (rule ok_mono [OF sock_close_ok [OF assms]]) (auto simp: settled_def closed_post_def)

lemma close_after_ok:
  assumes "settled W w" and "w_socks w a = Some s"
  shows "ok (ebind (sock_close a w) (\<lambda>w. Inr (False, w))) (\<lambda>(go, w'). settled W w' \<and> (go \<longrightarrow> streaming w' a))"
  by (rule ok_ebind [OF sock_close_settled [OF settled_wf [OF assms(1)] assms(2)]])
    (use settled_trans [OF assms(1)] in simp)

lemma notify_peer_ok:
  assumes W: "settled W w" and s: "w_socks w a = Some s" "is_local s"
    and b: "s_peer s = Some b" "w_socks w b = Some t" "is_remote t"
  shows "ok (ebind (on_fdev (fdevent_del (FSock a) FDE_WRITE) w) (\<lambda>w. ebind (get_sock a w) (\<lambda>s.
      ebind (the_peer s) (\<lambda>b. ebind (sready smart b w) (\<lambda>w. Inr (True, w))))))
    (\<lambda>(go, w'). settled W w' \<and> (go \<longrightarrow> streaming w' a))"
proof -
  obtain w3 where w3: "on_fdev (fdevent_del (FSock a) FDE_WRITE) w = Inr w3" "wf_world w3" "shrinks {} w w3"
    using event_add_ok(2) [OF settled_wf [OF W] s] by blast
  then have W3: "settled W w3" using settled_trans [OF W, of w3] by (auto simp: settled_def)
  have socks: "w_socks w3 = w_socks w" using w3(3) by (auto simp: shrinks_def)
  have u: "wf_upto {} w3" using w3(2) by (simp add: wf_world_def)
  have t3: "w_socks w3 b = Some t" "w_socks w3 a = Some s" using b(2) s(1) by (simp_all add: socks)
  have "s_peer t = Some a" using peerD [OF u t3(2) b(1)] t3(1) by auto
  then have "ok (remote_socket_ready b w3) (quiet w3)" using remote_socket_ready_ok [OF u t3(1) b(3) _ t3(2)] by simp
  moreover have "streaming w3 a" using t3 b s(2) by (auto simp: streaming_def)
  ultimately have "ok (ebind (remote_socket_ready b w3) (\<lambda>w. Inr (True, w)))
      (\<lambda>(go, w'). settled W w' \<and> (go \<longrightarrow> streaming w' a))"
    by (elim ok_ebind) (use settled_trans [OF W3 settled_quiet [OF w3(2)]] in \<open>simp add: streaming_quiet\<close>)
  moreover have "s_ready t = Remote_ready" using b(3) by (simp add: is_remote_def)
  ultimately show ?thesis
    using w3(1) t3 b(1) by (simp add: get_sock_Some the_peer_def sready_def)
qed

lemma write_event_ok:
  assumes wf: "wf_world w" and st: "streaming w a"
  shows "ok (local_socket_write_event smart a fd w) (\<lambda>(go, w'). settled w w' \<and> (go \<longrightarrow> streaming w' a))"
proof -
  from st obtain s where s: "w_socks w a = Some s" "is_local s"
    and peer: "s_closing s \<or> (\<exists>b t. s_peer s = Some b \<and> w_socks w b = Some t \<and> is_remote t)"
    unfolding streaming_def by blast
  have queued: "\<forall>p \<in> set (s_pkts s). queued_ok p" by (rule wf_queue [OF wf s])
  show ?thesis
    unfolding local_socket_write_event_def get_sock_Some [OF s(1)] ebind_simps
  proof (rule ok_ebind [OF drain_ok [OF queued]])
    fix x
    assume dr: "drained (s_pkts s) x"
    obtain r q acc ws where x: "x = (r, q, acc, ws)" by (cases x)
    have q: "\<forall>p \<in> set q. queued_ok p" using dr by (simp add: x drained_def)
    let ?w1 = "w\<lparr>w_ws := (w_ws w)(fd := ws), w_out := (w_out w)(fd := w_out w fd @ acc)\<rparr>"
    let ?w = "?w1\<lparr>w_socks := (w_socks w)(a \<mapsto> s\<lparr>s_pkts := q\<rparr>)\<rparr>" and ?s = "s\<lparr>s_pkts := q\<rparr>"
    have "quiet w ?w1" by (simp add: quiet_def w_dis_def fun_eq_iff sends_only_refl)
    then have wf1: "wf_world ?w1" using wf_quiet wf by blast
    have "s_closing s \<or> s_peer s \<noteq> None" using peer by auto
    then have "settled ?w1 ?w" unfolding settled_def using wf_set_pkts [OF wf1, of a s q] s q by auto
    then have W: "settled w ?w" using settled_trans [OF settled_quiet [OF wf \<open>quiet w ?w1\<close>]] by blast
    have s2: "w_socks ?w a = Some ?s" "is_local ?s" using s(2) by (simp_all add: is_local_def)
    have mod: "mod_sock a (\<lambda>s. s\<lparr>s_pkts := q\<rparr>) ?w1 = Inr ?w" using s(1) by (simp add: mod_sock_def get_sock_Some)
    have "ok (ebind (on_fdev (fdevent_del (FSock a) FDE_WRITE) ?w) (\<lambda>w. ebind (get_sock a w) (\<lambda>s.
        ebind (the_peer s) (\<lambda>b. ebind (sready smart b w) (\<lambda>w. Inr (True, w))))))
        (\<lambda>(go, w'). settled w w' \<and> (go \<longrightarrow> streaming w' a))" if nc: "\<not> s_closing s"
    proof -
      obtain b t where b: "s_peer s = Some b" "w_socks w b = Some t" "is_remote t" using peer nc by blast
      have "a \<noteq> b" using b s kinds_disjoint(2) [OF b(3)] by auto
      then show ?thesis using notify_peer_ok [OF W s2, of b t smart] b by simp
    qed
    then show "ok (case x of (r, q, acc, ws) \<Rightarrow> ebind (mod_sock a (\<lambda>s. s\<lparr>s_pkts := q\<rparr>)
        (w\<lparr>w_ws := (w_ws w)(fd := ws), w_out := (w_out w)(fd := w_out w fd @ acc)\<rparr>)) (\<lambda>w.
        case r of Drained \<Rightarrow> if s_closing s then ebind (sock_close a w) (\<lambda>w. Inr (False, w))
            else ebind (on_fdev (fdevent_del (FSock a) FDE_WRITE) w) (\<lambda>w. ebind (get_sock a w) (\<lambda>s.
                ebind (the_peer s) (\<lambda>b. ebind (sready smart b w) (\<lambda>w. Inr (True, w)))))
        | Drain_again \<Rightarrow> Inr (False, w)
        | Drain_failed \<Rightarrow> ebind (sock_close a w) (\<lambda>w. Inr (False, w))))
      (\<lambda>(go, w'). settled w w' \<and> (go \<longrightarrow> streaming w' a))"
      unfolding x prod.case mod ebind_simps
      using W close_after_ok [OF W s2(1)] by (cases r) simp_all
  qed
qed

lemma wf_get_fde:
  assumes "wf_world w" and "w_socks w a = Some s" "is_local s"
  obtains e where "get_fde (FSock a) (w_fdev w) = Inr e"
proof -
  have "owned (w_fdev w) (FSock a)"
    using wf_events(2) [of "{}" w a] assms by (auto simp: wf_world_def)
  then obtain e where "fdes (w_fdev w) (FSock a) = Some e" by (auto simp: owned_def)
  then show ?thesis using that by (simp add: get_fde_def)
qed

text \<open>The end of the readable part: the socket is closed at end of file or on an error.\<close>

lemma read_last_ok:
  assumes W: "settled W w" and s: "w_socks w a = Some s" "is_local s"
  shows "ok (ebind (get_fde (FSock a) (w_fdev w)) (\<lambda>e.
    if (fde_force_eof e \<and> r = (0::int)) \<or> eof then sock_close a w else Inr w)) (settled W)"
proof -
  obtain e where "get_fde (FSock a) (w_fdev w) = Inr e" by (rule wf_get_fde [OF settled_wf [OF W] s])
  moreover have "ok (sock_close a w) (settled W)"
    by (rule ok_mono [OF sock_close_settled [OF settled_wf [OF W] s(1)]]) (rule settled_trans [OF W])
  ultimately show ?thesis using W by simp
qed

lemma read_event_ok:
  assumes wf: "wf_world w" and st: "streaming w a"
  shows "ok (local_socket_read_event smart a fd w) (settled w)"
  unfolding local_socket_read_event_def
proof (rule ok_ebind [OF read_avail_ok])
  fix x :: "bytes \<times> bool \<times> int \<times> rres list"
  assume len: "case x of (d, _) \<Rightarrow> length d \<le> MAX_PAYLOAD"
  obtain d eof r rs where x: "x = (d, eof, r, rs)" by (cases x)
  let ?w = "w\<lparr>w_rs := (w_rs w)(fd := rs)\<rparr>"
  have q: "quiet w ?w" by (simp add: quiet_def w_dis_def fun_eq_iff sends_only_refl)
  then have W1: "settled w ?w" by (rule settled_quiet [OF wf])
  note wf1 = settled_wf [OF W1]
  from st obtain s where s: "w_socks ?w a = Some s" "is_local s"
    and peer: "s_closing s \<or> (\<exists>b t. s_peer s = Some b \<and> w_socks w b = Some t \<and> is_remote t)"
    unfolding streaming_def by auto
  let ?last = "\<lambda>(r::int) w. ebind (get_fde (FSock a) (w_fdev w)) (\<lambda>e.
    if (fde_force_eof e \<and> r = 0) \<or> eof then sock_close a w else Inr w)"
  have enq: "ok (ebind (senqueue smart b (get_apacket\<lparr>p_data := d, p_len := length d\<rparr>) ?w) (\<lambda>(r, w).
      if r < 0 then Inr w else if 0 < r then ebind (on_fdev (fdevent_del (FSock a) FDE_READ) w) (?last r)
      else ?last r w)) (settled w)" if b: "s_peer s = Some b" for b
  proof -
    have u: "wf_upto {} ?w" using wf1 by (simp add: wf_world_def)
    have "\<not> s_closing s" using u s b unfolding wf_upto_def lists_inv_def by fastforce
    then obtain t where t: "w_socks ?w b = Some t" "is_remote t" using peer b by auto
    have pt: "s_peer t = Some a" using peerD [OF u s(1) b] t(1) by auto
    have "senqueue smart b (get_apacket\<lparr>p_data := d, p_len := length d\<rparr>) ?w =
        remote_socket_enqueue b (get_apacket\<lparr>p_data := d, p_len := length d\<rparr>) ?w"
      using t by (simp add: senqueue_def get_sock_Some is_remote_def)
    moreover have "ok (remote_socket_enqueue b (get_apacket\<lparr>p_data := d, p_len := length d\<rparr>) ?w)
        (\<lambda>(r, w'). r = 1 \<and> quiet ?w w')"
      by (rule remote_socket_enqueue_ok [OF u t pt s(1)]) (use len x in auto)
    moreover have "ok (ebind (on_fdev (fdevent_del (FSock a) FDE_READ) w2) (?last 1)) (settled w)" if "quiet ?w w2" for w2
    proof -
      have W2: "settled w w2" by (rule settled_trans [OF W1 settled_quiet [OF wf1 that]])
      have s2: "w_socks w2 a = Some s" and "wf_world w2" using that s(1) settled_wf [OF W2] by (simp_all add: quiet_def)
      then obtain w3 where w3: "on_fdev (fdevent_del (FSock a) FDE_READ) w2 = Inr w3" "wf_world w3" "shrinks {} w2 w3"
        using event_add_ok(2) s(2) by blast
      then have W3: "settled w w3" using settled_trans [OF W2, of w3] by (auto simp: settled_def)
      have "w_socks w3 a = Some s" using w3(3) s2 by (simp add: shrinks_def)
      then show ?thesis using read_last_ok [OF W3 _ s(2), where r = "1::int"] w3(1) by simp
    qed
    ultimately show ?thesis by (auto elim!: ok_ebind)
  qed
  show "ok (case x of (d, eof, r, rs) \<Rightarrow> let w = w\<lparr>w_rs := (w_rs w)(fd := rs)\<rparr>;
      last = (\<lambda>r w. ebind (get_fde (FSock a) (w_fdev w)) (\<lambda>e.
        if (fde_force_eof e \<and> r = 0) \<or> eof then sock_close a w else Inr w))
    in ebind (get_sock a w) (\<lambda>s. if d = [] \<or> s_peer s = None then last r w
      else ebind (the_peer s) (\<lambda>b. ebind (senqueue smart b (get_apacket\<lparr>p_data := d, p_len := length d\<rparr>) w) (\<lambda>(r, w).
        if r < 0 then Inr w else if 0 < r then ebind (on_fdev (fdevent_del (FSock a) FDE_READ) w) (last r)
        else last r w)))) (settled w)"
    unfolding x prod.case Let_def get_sock_Some [OF s(1)] ebind_simps
    using read_last_ok [OF W1 s, of r eof] enq by (cases "s_peer s") (simp_all add: the_peer_def)
qed

lemma local_socket_event_ok:
  assumes "wf_world w" and "streaming w a"
  shows "ok (local_socket_event_func smart a fd ev w) (settled w)"
proof -
  have "ok (if ev AND FDE_WRITE \<noteq> 0 then local_socket_write_event smart a fd w else Inr (True, w))
      (\<lambda>(go, w'). settled w w' \<and> (go \<longrightarrow> streaming w' a))"
    using write_event_ok [OF assms, of smart fd] assms settled_refl by simp
  then show ?thesis unfolding local_socket_event_func_def
    by (rule ok_ebind) (auto intro!: ok_mono [OF read_event_ok] settled_wf intro: settled_trans)
qed



section \<open>A running server\<close>

text \<open>One device at address 0, whose stream 9 is connected to the local socket 1 on descriptor 5.\<close>

definition stream_fdev :: fdev where
  "stream_fdev = (case fdevent_install (FSock 1) 5 Local_socket_event_func fdev_init of Inr f \<Rightarrow> f | _ \<Rightarrow> fdev_init)"

definition sample_stream :: world where
  "sample_stream = \<lparr>w_HOST = True, w_auth_enabled = False,
     w_socks = [1 \<mapsto> (local_asocket 1 5)\<lparr>s_peer := Some 2\<rparr>, 2 \<mapsto> (remote_asocket 9 0)\<lparr>s_peer := Some 1\<rparr>],
     w_trans = [0 \<mapsto> sample_transport\<lparr>t_disconnects := [Dis_remote 2]\<rparr>], w_listeners = Map.empty, w_next = 3,
     w_local = [1], w_closing = [], w_next_id = 2, w_socket_list_lock = False, w_transport_list = [0],
     w_pending_list = [], w_transport_lock = False, w_trackers = [], w_listener_list = [],
     w_local_transports = replicate 64 None, w_local_transports_lock = False,
     w_registration_send = 3, w_tmsgs = [], w_usbs = Map.empty, w_handle_list = [],
     w_usb_lock = False, w_key_list = [], w_fdev = stream_fdev,
     w_ws = (\<lambda>_. replicate 8 (WOk 4096)), w_rs = (\<lambda>_. [RData ''ls'', RErr EAGAIN]), w_out = (\<lambda>_. []),
     w_newfds = [6, 7], w_newthreads = [True, True], w_log = []\<rparr>"

lemma stream_fdev_inv: "fdev_inv stream_fdev" "owned stream_fdev = (\<lambda>x. x = FSock 1)"
proof -
  have free: "free_fd fdev_init 5" and none: "owned fdev_init = (\<lambda>_. False)"
    by (simp_all add: free_fd_def FD_LIMIT_def active_def fdev_init_def owned_def fun_eq_iff)
  then obtain f where "fdevent_install (FSock 1) 5 Local_socket_event_func fdev_init = Inr f" "fdev_inv f"
      "owned f = (owned fdev_init)(FSock 1 := True)"
    using ev.install_law [OF fdev_init_inv free, of "FSock 1"] by auto
  then show "fdev_inv stream_fdev" "owned stream_fdev = (\<lambda>x. x = FSock 1)"
    using none by (auto simp: stream_fdev_def fun_eq_iff)
qed

lemma sample_stream_dis: "w_dis sample_stream = [0 \<mapsto> [Dis_remote 2]]"
  by (simp add: sample_stream_def w_dis_def fun_eq_iff)

lemma sample_stream_wf: "wf_world sample_stream"
proof -
  have "kinds_inv sample_stream" "lists_inv sample_stream" "peers_inv {} sample_stream"
    "locals_inv {} sample_stream" "trackers_inv {} sample_stream"
    by (auto simp: wf_parts sample_stream_def kind_defs local_asocket_def remote_asocket_def split: if_splits)
  moreover have "remotes_inv sample_stream"
    unfolding remotes_inv_def sample_stream_dis
    by (auto simp: sample_stream_def kind_defs local_asocket_def remote_asocket_def split: if_splits)
  moreover have "events_inv sample_stream"
    unfolding events_inv_def sample_stream_dis
    by (auto simp: sample_stream_def kind_defs local_asocket_def remote_asocket_def stream_fdev_inv FD_LIMIT_def
        split: if_splits)
  ultimately show ?thesis by (simp add: wf_world_def wf_upto_def unlocked_def sample_stream_def)
qed

lemma sample_streaming: "streaming sample_stream 1"
  unfolding streaming_def by (simp add: sample_stream_def)



section \<open>The byte stream of a local socket\<close>

text \<open>C29: \<open>local_socket_enqueue\<close> neither loses, repeats nor reorders data: unless the write failed
  and the socket was closed, what the descriptor has accepted followed by what is queued is what
  it was before, followed by the packet; nothing is written to another descriptor, and the
  result tells whether everything has been written.\<close>

theorem local_socket_enqueue_appends:
  assumes wf: "wf_world w" and a: "w_socks w a = Some s" "is_local s" "s_peer s \<noteq> None"
    and p: "p_len p \<le> length (p_data p)" "length (p_data p) \<le> MAX_PAYLOAD"
    and run: "local_socket_enqueue a p w = Inr (r, w')" and a': "w_socks w' a = Some s'" "\<not> s_closing s'"
  shows "w_out w' (s_fd s) @ pending (s_pkts s') =
      w_out w (s_fd s) @ pending (s_pkts s) @ take (p_len p) (p_data p) \<and>
    (\<forall>fd. fd \<noteq> s_fd s \<longrightarrow> w_out w' fd = w_out w fd) \<and> (r = 0 \<longleftrightarrow> s_pkts s' = [])"
proof (cases "s_pkts s = []")
  case False
  with a run obtain f where "w' = w\<lparr>w_socks := (w_socks w)(a \<mapsto> s\<lparr>s_pkts := s_pkts s @ [p\<lparr>p_ptr := 0\<rparr>]\<rparr>), w_fdev := f\<rparr>" "r = 1"
    by (auto simp: local_socket_enqueue_def Let_def get_sock_Some mod_sock_def on_fdev_def ebind_eq_Inr)
  then show ?thesis using a' by (auto simp: pending_def p_bytes_def)
next
  case True
  let ?bs = "take (p_len p) (p_data p)"
  have bs: "buf_read (p_len p) (p_data p) = Inr ?bs" using p by (simp add: buf_read_def)
  with a run True obtain e acc ws where loop: "enqueue_loop ?bs (w_ws w (s_fd s)) = Inr (e, acc, ws)"
    by (auto simp: local_socket_enqueue_def Let_def get_sock_Some ebind_eq_Inr)
  let ?w = "w\<lparr>w_ws := (w_ws w)(s_fd s := ws), w_out := (w_out w)(s_fd s := w_out w (s_fd s) @ acc)\<rparr>"
  let ?p = "p_advance (length acc) (p\<lparr>p_ptr := 0\<rparr>)"
  have tail: "(if e then ebind (sock_close a ?w) (\<lambda>w. Inr (1, w)) else if p_len ?p = 0 then Inr (0, ?w)
      else ebind (mod_sock a (\<lambda>s. s\<lparr>s_pkts := [?p]\<rparr>) ?w) (\<lambda>w.
        ebind (on_fdev (fdevent_add (FSock a) FDE_WRITE) w) (\<lambda>w. Inr (1, w)))) = Inr (r, w')"
    using run a(1) True bs loop by (simp add: local_socket_enqueue_def Let_def get_sock_Some)
  obtain rest where rest: "?bs = acc @ rest" using enqueue_loop_ok [of ?bs "w_ws w (s_fd s)"] loop by auto
  have left: "p_bytes ?p = rest" and len: "p_len ?p = length rest"
    using rest p(1) by (simp_all add: p_bytes_def p_advance_def)
      (metis append_eq_conv_conj drop_take, metis add_diff_cancel_left' length_append length_take min.absorb2)
  have "quiet w ?w" by (simp add: quiet_def w_dis_def fun_eq_iff sends_only_refl)
  then have "wf_world ?w" using wf_quiet wf by blast
  then have closed: "sock_close a ?w = Inr w' \<Longrightarrow> closed_in a w'"
    using sock_close_ok [of ?w a s] a(1) by (auto simp: closed_post_def)
  have e: "\<not> e" using tail closed a' by (auto simp: ebind_eq_Inr closed_in_def)
  show ?thesis
  proof (cases "p_len ?p = 0")
    case True
    then have "rest = []" using len by simp
    then show ?thesis using tail e True \<open>s_pkts s = []\<close> a(1) a' rest by (auto simp: pending_def)
  next
    case False
    with tail e a(1) obtain f where "w' = ?w\<lparr>w_socks := (w_socks w)(a \<mapsto> s\<lparr>s_pkts := [?p]\<rparr>), w_fdev := f\<rparr>" "r = 1"
      by (auto simp: get_sock_Some mod_sock_def on_fdev_def ebind_eq_Inr)
    then show ?thesis using a' left rest \<open>s_pkts s = []\<close> by (auto simp: pending_def)
  qed
qed

theorem local_socket_enqueue_appends_witness:
  "\<exists>s w'. w_socks sample_stream 1 = Some s \<and>
     local_socket_enqueue 1 (get_apacket\<lparr>p_data := ''hello'', p_len := 5\<rparr>) sample_stream = Inr (0, w') \<and>
     w_out w' 5 = ''hello''"
proof -
  let ?p = "get_apacket\<lparr>p_data := ''hello'', p_len := 5\<rparr>"
  let ?s = "(local_asocket 1 5)\<lparr>s_peer := Some 2\<rparr>"
  let ?w = "sample_stream\<lparr>w_ws := (w_ws sample_stream)(5 := replicate 7 (WOk 4096)),
    w_out := (w_out sample_stream)(5 := ''hello'')\<rparr>"
  have s: "w_socks sample_stream 1 = Some ?s" by (simp add: sample_stream_def)
  have fd: "s_fd ?s = 5" by (simp add: local_asocket_def)
  have "enqueue_loop ''hello'' (replicate 8 (WOk 4096)) = Inr (False, ''hello'', replicate 7 (WOk 4096))"
    by (simp add: numeral_eq_Suc)
  then have run: "local_socket_enqueue 1 ?p sample_stream = Inr (0, ?w)"
    unfolding local_socket_enqueue_def Let_def get_sock_Some [OF s]
    by (simp add: sample_stream_def local_asocket_def buf_read_def MAX_PAYLOAD_def p_advance_def get_apacket_def)
  have "w_out ?w (s_fd ?s) @ pending (s_pkts ?s) = w_out sample_stream (s_fd ?s) @ pending (s_pkts ?s) @ take (p_len ?p) (p_data ?p)"
    using local_socket_enqueue_appends [OF sample_stream_wf s _ _ _ _ run, of ?s] by (simp add: sample_stream_def MAX_PAYLOAD_def)
  then have "w_out ?w 5 = ''hello''" by (simp add: pending_def sample_stream_def)
  with s run show ?thesis by blast
qed

text \<open>C30: Writing the queue of a local socket out, with any pattern of short writes, interruptions
  and errors, keeps the stream: the bytes accepted followed by the bytes still queued are the
  bytes that were queued; the queue is empty exactly when the loop reports it drained; and no
  byte outside a packet's data is read.\<close>

theorem drain_keeps_stream:
  assumes "\<forall>p \<in> set ps. queued_ok p"
  shows "ok (drain ps ws) (\<lambda>(r, q, acc, _). pending ps = acc @ pending q \<and> (r = Drained \<longleftrightarrow> q = []) \<and>
    (\<forall>p \<in> set q. queued_ok p))"
  by (rule ok_mono [OF drain_ok [OF assms]]) (auto simp: drained_def)

theorem drain_keeps_stream_witness:
  "\<exists>q acc ws. drain [get_apacket\<lparr>p_data := ''abc'', p_len := 3\<rparr>] [WOk 2, WErr EINTR, WErr EAGAIN] = Inr (Drain_again, q, acc, ws) \<and>
     ''abc'' = acc @ pending q \<and> acc = ''ab''"
proof -
  let ?ps = "[get_apacket\<lparr>p_data := ''abc'', p_len := 3\<rparr>]" and ?ws = "[WOk 2, WErr EINTR, WErr EAGAIN]"
  have "\<forall>p \<in> set ?ps. queued_ok p" by (simp add: queued_ok_def get_apacket_def MAX_PAYLOAD_def)
  note th = drain_keeps_stream [OF this, of ?ws]
  obtain q where d: "drain ?ps ?ws = Inr (Drain_again, q, ''ab'', [])"
    by (auto simp: p_bytes_def p_advance_def get_apacket_def)
  have "pending ?ps = ''ab'' @ pending q" using th unfolding d by simp
  then have "''abc'' = ''ab'' @ pending q" by (simp add: pending_def p_bytes_def get_apacket_def)
  with d show ?thesis by blast
qed

end
