(* ===== verification/Adb_Listeners.thy ===== *)
theory Adb_Listeners
  imports Adb_Socket_Safety
begin

text \<open>
  Port forwarding (adb.c): the listeners, their installation, removal and listing, the callbacks
  that accept a connection, and the callbacks a transport runs when it goes offline
  (\<open>run_transport_disconnects\<close>), which close the remote sockets and free the listeners that
  depend on it. The invariant of the sockets is extended to the listeners.
\<close>

section \<open>Freeing a listener\<close>

definition free_listener :: "addr \<Rightarrow> world \<Rightarrow> err + world" where
  "free_listener l w =
     ebind (get_listener l w) (\<lambda>x.
     ebind (on_fdev (fdevent_remove (FListener l)) (w\<lparr>w_listener_list := remove1 l (w_listener_list w)\<rparr>)) (\<lambda>w.
     ebind (if l_transport x \<noteq> None
            then remove_transport_disconnect (l_transport x) (Dis_listener l) w else Inr w) (\<lambda>w.
       Inr (w\<lparr>w_listeners := (w_listeners w)(l := None), w_fdev := fde_free (FListener l) (w_fdev w)\<rparr>))))"

definition listener_disconnect :: "addr \<Rightarrow> world \<Rightarrow> err + world" where
  "listener_disconnect l w = free_listener l w"

section \<open>Disconnect callbacks\<close>

definition remote_socket_disconnect :: "addr \<Rightarrow> world \<Rightarrow> err + world" where
  "remote_socket_disconnect a w =
     ebind (get_sock a w) (\<lambda>s.
     ebind (case s_peer s of
              None \<Rightarrow> Inr w
            | Some b \<Rightarrow> ebind (mod_sock b (\<lambda>ps. ps\<lparr>s_peer := None\<rparr>) w) (\<lambda>w. sclose CLOSE_FUEL b w)) (\<lambda>w.
     ebind (get_sock a w) (\<lambda>s.
     ebind (remove_transport_disconnect (s_transport s) (Dis_remote a) w) (\<lambda>w.
       Inr (free_sock a w)))))"

text \<open>The \<open>adisconnect\<close> node lies inside the object that its function is called on.\<close>

definition node_alive :: "disconnect \<Rightarrow> world \<Rightarrow> err + unit" where
  "node_alive d w =
     (case d of
        Dis_remote a \<Rightarrow> ebind (get_sock a w) (\<lambda>_. Inr ())
      | Dis_listener l \<Rightarrow> ebind (get_listener l w) (\<lambda>_. Inr ()))"

definition dis_func :: "disconnect \<Rightarrow> world \<Rightarrow> err + world" where
  "dis_func d w =
     (case d of Dis_remote a \<Rightarrow> remote_socket_disconnect a w | Dis_listener l \<Rightarrow> listener_disconnect l w)"

fun disconnects_loop :: "nat \<Rightarrow> addr \<Rightarrow> disconnect option \<Rightarrow> world \<Rightarrow> err + world" where
  "disconnects_loop n t None w = Inr w"
| "disconnects_loop 0 t (Some d) w = Inl OutOfFuel"
| "disconnects_loop (Suc n) t (Some d) w =
     ebind (node_alive d w) (\<lambda>_.
     ebind (get_trans t w) (\<lambda>x.
       let nxt = successor d (t_disconnects x) in
       ebind (dis_func d w) (disconnects_loop n t nxt)))"

definition run_transport_disconnects :: "addr \<Rightarrow> world \<Rightarrow> err + world" where
  "run_transport_disconnects t w =
     ebind (get_trans t w) (\<lambda>x.
       disconnects_loop (length (t_disconnects x)) t (list_head (t_disconnects x)) w)"

section \<open>Listing\<close>

text \<open>\<open>l->connect_to[0] == '*'\<close>\<close>

definition special :: "alistener \<Rightarrow> bool" where
  "special x \<longleftrightarrow> l_connect_to x \<noteq> [] \<and> hd (l_connect_to x) = CHR ''*''"

text \<open>\<open>format_listener\<close>: the line and its length. The serial number is read whatever the
  transport is.\<close>

definition format_listener :: "alistener \<Rightarrow> world \<Rightarrow> err + string" where
  "format_listener l w =
     (case l_transport l of
        None \<Rightarrow> Inl NullDeref
      | Some t \<Rightarrow> ebind (get_trans t w) (\<lambda>x.
          case t_serial x of
            None \<Rightarrow> Inl NullDeref
          | Some sn \<Rightarrow> Inr (sn @ '' '' @ l_local_name l @ '' '' @ l_connect_to l @ [CHR 0x0A])))"

text \<open>\<open>format_listeners\<close>: the text (as if the buffer were long enough) and the length returned.
  The buffer, where there is one, is given by its capacity and the size that the code believes
  to be left, which is a \<open>size_t\<close>.\<close>

fun format_listeners :: "addr list \<Rightarrow> (nat \<times> nat) option \<Rightarrow> string \<Rightarrow> world \<Rightarrow> err + string" where
  "format_listeners [] buf acc w = Inr acc"
| "format_listeners (l # ls) buf acc w =
     ebind (get_listener l w) (\<lambda>x.
       if special x then format_listeners ls buf acc w
       else
         ebind (format_listener x w) (\<lambda>line.
           case buf of
             None \<Rightarrow> format_listeners ls None (acc @ line) w
           | Some (cap, buflen) \<Rightarrow>
               ebind (bounded_print cap (length acc) buflen line) (\<lambda>len.
                 let buflen = size_sub buflen len in
                 if buflen = 0 then Inr (acc @ line)
                 else format_listeners ls (Some (cap, buflen)) (acc @ line) w)))"

section \<open>Removal and installation\<close>

text \<open>The walk of the list by \<open>remove_listener\<close> and \<open>install_listener\<close>.\<close>

fun find_listener :: "string \<Rightarrow> addr list \<Rightarrow> world \<Rightarrow> err + addr option" where
  "find_listener name [] w = Inr None"
| "find_listener name (l # ls) w =
     ebind (get_listener l w) (\<lambda>x. if l_local_name x = name then Inr (Some l) else find_listener name ls w)"

definition remove_listener :: "string \<Rightarrow> world \<Rightarrow> err + (int \<times> world)" where
  "remove_listener local_name w =
     ebind (find_listener local_name (w_listener_list w) w) (\<lambda>r.
       case r of
         None \<Rightarrow> Inr (-1, w)
       | Some l \<Rightarrow> ebind (listener_disconnect l w) (\<lambda>w. Inr (0, w)))"

text \<open>\<open>remove_all_listeners\<close>: the successor is read before the listener is freed.\<close>

fun remove_all_loop :: "nat \<Rightarrow> addr option \<Rightarrow> world \<Rightarrow> err + world" where
  "remove_all_loop n None w = Inr w"
| "remove_all_loop 0 (Some l) w = Inl OutOfFuel"
| "remove_all_loop (Suc n) (Some l) w =
     ebind (get_listener l w) (\<lambda>x.
       let nxt = successor l (w_listener_list w) in
       if special x then remove_all_loop n nxt w
       else ebind (listener_disconnect l w) (remove_all_loop n nxt))"

definition remove_all_listeners :: "world \<Rightarrow> err + world" where
  "remove_all_listeners w = remove_all_loop (length (w_listener_list w)) (list_head (w_listener_list w)) w"

datatype install_status_t = INSTALL_STATUS_OK | INSTALL_STATUS_INTERNAL_ERROR
  | INSTALL_STATUS_CANNOT_BIND | INSTALL_STATUS_CANNOT_REBIND

text \<open>\<open>local_name_to_fd\<close>: the name chooses the kind of server socket; the call that opens it
  may fail.\<close>

definition local_name_to_fd :: "string \<Rightarrow> world \<Rightarrow> err + (int option \<times> world)" where
  "local_name_to_fd name w =
     (if starts_with ''tcp:'' name \<or> starts_with ''local:'' name \<or> starts_with ''localabstract:'' name \<or>
         starts_with ''localfilesystem:'' name
      then open_fd w else Inr (None, w))"

definition rebind_listener :: "addr \<Rightarrow> alistener \<Rightarrow> string \<Rightarrow> addr option \<Rightarrow> world \<Rightarrow> err + world" where
  "rebind_listener l x connect_to transport w =
     (let w = w\<lparr>w_listeners := (w_listeners w)(l \<mapsto> x\<lparr>l_connect_to := connect_to\<rparr>)\<rparr> in
      if l_transport x = transport then Inr w
      else
        ebind (remove_transport_disconnect (l_transport x) (Dis_listener l) w) (\<lambda>w.
        let w = w\<lparr>w_listeners := (w_listeners w)(l \<mapsto> x\<lparr>l_connect_to := connect_to, l_transport := transport\<rparr>)\<rparr> in
        case transport of
          None \<Rightarrow> Inl NullDeref
        | Some t \<Rightarrow> add_transport_disconnect t (Dis_listener l) w))"

definition new_listener :: "string \<Rightarrow> string \<Rightarrow> addr option \<Rightarrow> world \<Rightarrow> err + (install_status_t \<times> world)" where
  "new_listener local_name connect_to transport w =
     ebind (local_name_to_fd local_name w) (\<lambda>(fd, w).
       case fd of
         None \<Rightarrow> Inr (INSTALL_STATUS_CANNOT_BIND, w)
       | Some fd \<Rightarrow>
           let l = w_next w;
               func = (if connect_to = ''*smartsocket*'' then Ss_listener_event_func else Listener_event_func);
               w = w\<lparr>w_next := Suc l\<rparr>
           in
           ebind (on_fdev (fdevent_install (FListener l) fd func) w) (\<lambda>w.
           ebind (on_fdev (fdevent_set (FListener l) FDE_READ) w) (\<lambda>w.
           let w = w\<lparr>w_listeners := (w_listeners w)(l \<mapsto> \<lparr>l_fd = fd, l_local_name = local_name,
                       l_connect_to = connect_to, l_transport = transport\<rparr>),
                     w_listener_list := w_listener_list w @ [l]\<rparr>
           in
           ebind (case transport of None \<Rightarrow> Inr w | Some t \<Rightarrow> add_transport_disconnect t (Dis_listener l) w) (\<lambda>w.
             Inr (INSTALL_STATUS_OK, w)))))"

definition install_listener :: "string \<Rightarrow> string \<Rightarrow> addr option \<Rightarrow> bool \<Rightarrow> world \<Rightarrow> err + (install_status_t \<times> world)" where
  "install_listener local_name connect_to transport no_rebind w =
     ebind (find_listener local_name (w_listener_list w) w) (\<lambda>r.
       case r of
         Some l \<Rightarrow>
           ebind (get_listener l w) (\<lambda>x.
             if special x then Inr (INSTALL_STATUS_INTERNAL_ERROR, w)
             else if no_rebind then Inr (INSTALL_STATUS_CANNOT_REBIND, w)
             else ebind (rebind_listener l x connect_to transport w) (\<lambda>w. Inr (INSTALL_STATUS_OK, w)))
       | None \<Rightarrow> new_listener local_name connect_to transport w)"

section \<open>Events\<close>

definition ss_listener_event_func :: "enqueue_op \<Rightarrow> u16 \<Rightarrow> world \<Rightarrow> err + world" where
  "ss_listener_event_func smart ev w =
     (if ev AND FDE_READ \<noteq> 0 then
        ebind (open_fd w) (\<lambda>(fd, w).
          case fd of
            None \<Rightarrow> Inr w
          | Some fd \<Rightarrow> ebind (create_local_socket fd w) (\<lambda>(a, w). connect_to_smartsocket smart a w))
      else Inr w)"

definition listener_event_func :: "addr \<Rightarrow> u16 \<Rightarrow> world \<Rightarrow> err + world" where
  "listener_event_func l ev w =
     (if ev AND FDE_READ \<noteq> 0 then
        ebind (open_fd w) (\<lambda>(fd, w).
          case fd of
            None \<Rightarrow> Inr w
          | Some fd \<Rightarrow>
              ebind (create_local_socket fd w) (\<lambda>(a, w).
              ebind (get_listener l w) (\<lambda>x.
              ebind (mod_sock a (\<lambda>s. s\<lparr>s_transport := l_transport x\<rparr>) w) (\<lambda>w.
                connect_to_remote a (l_connect_to x) w))))
      else Inr w)"

section \<open>The invariant\<close>

text \<open>The listeners on the list are the allocated ones, each has its event record and a name of
  its own, and a listener that belongs to a transport is registered with it and nothing else is.
  Only special listeners, which accept the clients of the server, belong to no transport.\<close>

definition registered :: "world \<Rightarrow> addr \<Rightarrow> addr \<Rightarrow> bool" where
  "registered w t l \<longleftrightarrow> (\<exists>ds. w_dis w t = Some ds \<and> Dis_listener l \<in> set ds)"

definition listeners_inv :: "world \<Rightarrow> bool" where
  "listeners_inv w \<longleftrightarrow> distinct (w_listener_list w) \<and>
     (\<forall>l. l \<in> set (w_listener_list w) \<longleftrightarrow> w_listeners w l \<noteq> None) \<and>
     (\<forall>l. w_listeners w l \<noteq> None \<longrightarrow> l < w_next w) \<and>
     (\<forall>l. owned (w_fdev w) (FListener l) \<longleftrightarrow> w_listeners w l \<noteq> None) \<and>
     (\<forall>l t. registered w t l \<longleftrightarrow> (\<exists>x. w_listeners w l = Some x \<and> l_transport x = Some t)) \<and>
     (\<forall>l x. w_listeners w l = Some x \<and> l_transport x = None \<longrightarrow> special x) \<and>
     (\<forall>l l' x x'. w_listeners w l = Some x \<and> w_listeners w l' = Some x' \<and> l_local_name x = l_local_name x' \<longrightarrow> l = l')"

definition wf_server :: "world \<Rightarrow> bool" where
  "wf_server w \<longleftrightarrow> wf_world w \<and> listeners_inv w"

lemma listeners_frame:
  assumes "w_listeners w' = w_listeners w" "w_listener_list w' = w_listener_list w" "w_next w' = w_next w"
    "\<And>l. owned (w_fdev w') (FListener l) = owned (w_fdev w) (FListener l)" "registered w' = registered w"
  shows "listeners_inv w' = listeners_inv w"
  unfolding listeners_inv_def assms ..

lemma listeners_shrinks:
  assumes "listeners_inv w" and "shrinks X w w'"
  shows "listeners_inv w'"
proof -
  have eq: "w_listeners w' = w_listeners w" "w_listener_list w' = w_listener_list w" "w_next w' = w_next w"
    "\<And>l. owned (w_fdev w') (FListener l) = owned (w_fdev w) (FListener l)"
    using assms(2) by (simp_all add: shrinks_def)
  have reg: "registered w' = registered w"
    using assms(2) by (auto simp: registered_def shrinks_def live_def fun_eq_iff)
  show ?thesis using assms(1) unfolding listeners_inv_def eq reg .
qed

text \<open>What the operations of this theory leave alone.\<close>

definition keeps :: "world \<Rightarrow> world \<Rightarrow> bool" where
  "keeps w w' \<longleftrightarrow> sends_only w w' \<and> w_transport_list w' = w_transport_list w \<and>
     w_pending_list w' = w_pending_list w \<and> w_HOST w' = w_HOST w \<and> w_auth_enabled w' = w_auth_enabled w \<and>
     w_newfds w' = w_newfds w \<and> w_key_list w' = w_key_list w \<and> w_next w' = w_next w \<and> w_next_id w' = w_next_id w"

lemma keeps_trans: "keeps w w' \<Longrightarrow> keeps w' w'' \<Longrightarrow> keeps w w''"
  unfolding keeps_def using sends_only_trans by auto

lemma keeps_refl [simp]: "keeps w w"
  by (simp add: keeps_def sends_only_refl)

lemma shrinks_keeps: "shrinks X w w' \<Longrightarrow> keeps w w'"
  by (simp add: shrinks_def keeps_def)

lemma quiet_keeps: "quiet w w' \<Longrightarrow> keeps w w'"
  by (simp add: quiet_def keeps_def)

lemma listeners_quiet: "quiet w w' \<Longrightarrow> listeners_inv w' = listeners_inv w"
  by (simp add: quiet_def listeners_inv_def registered_def)

lemma server_quiet: "quiet w w' \<Longrightarrow> wf_server w' = wf_server w"
  by (simp add: wf_server_def wf_quiet listeners_quiet)

section \<open>Freeing\<close>

text \<open>The sockets stay well-formed when only listeners come or go in the registrations.\<close>

definition same_remotes :: "world \<Rightarrow> world \<Rightarrow> bool" where
  "same_remotes w w' \<longleftrightarrow> (\<forall>t. case w_dis w t of None \<Rightarrow> w_dis w' t = None
     | Some ds \<Rightarrow> \<exists>ds'. w_dis w' t = Some ds' \<and> (distinct ds \<longrightarrow> distinct ds') \<and>
         (\<forall>a. Dis_remote a \<in> set ds' \<longleftrightarrow> Dis_remote a \<in> set ds))"

lemma same_remotes_inv:
  assumes r: "remotes_inv w" and d: "same_remotes w w'" and s: "w_socks w' = w_socks w"
  shows "remotes_inv w'"
proof -
  have fwd: "\<exists>ds'. w_dis w' t = Some ds' \<and> (\<forall>a. Dis_remote a \<in> set ds' \<longleftrightarrow> Dis_remote a \<in> set ds)"
    if "w_dis w t = Some ds" for t ds
    using d [unfolded same_remotes_def, rule_format, of t] that by auto
  have bwd: "\<exists>ds. w_dis w t = Some ds \<and> (distinct ds \<longrightarrow> distinct ds') \<and> (\<forall>a. Dis_remote a \<in> set ds' \<longleftrightarrow> Dis_remote a \<in> set ds)"
    if "w_dis w' t = Some ds'" for t ds'
    using d [unfolded same_remotes_def, rule_format, of t] that by (cases "w_dis w t") auto
  have "\<exists>t ds. s_transport s = Some t \<and> w_dis w' t = Some ds \<and> Dis_remote a \<in> set ds"
    if a: "w_socks w' a = Some s" "is_remote s" for a s
    using remotesD(1) [OF r a(1) [unfolded s] a(2)] fwd by blast
  moreover have "distinct ds' \<and> (\<forall>a. Dis_remote a \<in> set ds' \<longrightarrow>
      (\<exists>s. w_socks w' a = Some s \<and> is_remote s \<and> s_transport s = Some t))" if ds': "w_dis w' t = Some ds'" for t ds'
    using bwd [OF ds'] remotesD(2,3) [OF r] unfolding s by blast
  ultimately show ?thesis unfolding remotes_inv_def by blast
qed

lemma wf_world_remotes:
  assumes wf: "wf_world w" and d: "same_remotes w w'" and w': "w_socks w' = w_socks w" "w_next w \<le> w_next w'"
    "w_local w' = w_local w" "w_closing w' = w_closing w" "w_trackers w' = w_trackers w"
    "fdev_inv (w_fdev w')" "\<And>a. owned (w_fdev w') (FSock a) = owned (w_fdev w) (FSock a)"
    "set (w_newfds w') \<subseteq> set (w_newfds w)" "w_transport_list w' = w_transport_list w"
    "w_socket_list_lock w' = w_socket_list_lock w" "w_transport_lock w' = w_transport_lock w"
  shows "wf_world w'"
proof -
  have u: "kinds_inv w" "lists_inv w" "peers_inv {} w" "locals_inv {} w" "remotes_inv w" "trackers_inv {} w" "events_inv w"
    using wf by (auto simp: wf_world_def wf_upto_def)
  have "\<forall>t \<in> set (w_transport_list w). w_dis w t \<noteq> None" using u(7) by (simp add: events_inv_def)
  then have "w_dis w' t \<noteq> None" if "t \<in> set (w_transport_list w)" for t
    using d [unfolded same_remotes_def, rule_format, of t] that by fastforce
  then have "events_inv w'" using u(7) w' unfolding events_inv_def by auto
  moreover have "kinds_inv w'" using u(1) w'(1,2) unfolding kinds_inv_def by fastforce
  moreover have "lists_inv w' = lists_inv w" "peers_inv {} w' = peers_inv {} w" "locals_inv {} w' = locals_inv {} w"
    "trackers_inv {} w' = trackers_inv {} w"
    by (simp_all add: lists_inv_def peers_inv_def locals_inv_def trackers_inv_def w')
  moreover have "remotes_inv w'" by (rule same_remotes_inv [OF u(5) d w'(1)])
  ultimately show ?thesis using wf u w'(10,11) by (simp add: wf_world_def wf_upto_def unlocked_def)
qed

text \<open>A change of one registration of a listener.\<close>

lemma same_remotes_update:
  assumes "w_trans w t = Some x" and "w_trans w' = (w_trans w)(t \<mapsto> x\<lparr>t_disconnects := ds\<rparr>)"
    and "distinct (t_disconnects x) \<Longrightarrow> distinct ds"
    and "\<And>a. Dis_remote a \<in> set ds \<longleftrightarrow> Dis_remote a \<in> set (t_disconnects x)"
  shows "same_remotes w w'"
  using assms by (auto simp: same_remotes_def w_dis_def split: option.splits)

lemma same_remotes_refl: "w_dis w' = w_dis w \<Longrightarrow> same_remotes w w'"
  by (auto simp: same_remotes_def split: option.splits)

lemma sends_only_update:
  assumes "w_trans w t = Some x" and "w_trans w' = (w_trans w)(t \<mapsto> x\<lparr>t_disconnects := ds\<rparr>)"
  shows "sends_only w w'"
proof -
  have same: "\<exists>ds ps. y = y\<lparr>t_disconnects := ds, t_to_remote := t_to_remote y @ ps\<rparr>" for y :: atransport
    by (intro exI [of _ "t_disconnects y"] exI [of _ "[]"]) simp
  have new: "\<exists>ds' ps. x\<lparr>t_disconnects := ds\<rparr> = x\<lparr>t_disconnects := ds', t_to_remote := t_to_remote x @ ps\<rparr>"
    by (intro exI [of _ ds] exI [of _ "[]"]) simp
  show ?thesis using assms same new by (auto simp: sends_only_def split: option.split)
qed

text \<open>The state after a listener is gone.\<close>

definition without_listener :: "addr \<Rightarrow> world \<Rightarrow> world \<Rightarrow> bool" where
  "without_listener l w w' \<longleftrightarrow> w_listeners w' = (w_listeners w)(l := None) \<and>
     w_listener_list w' = remove1 l (w_listener_list w) \<and> w_socks w' = w_socks w \<and>
     w_dis w' = (\<lambda>t. map_option (remove1 (Dis_listener l)) (w_dis w t)) \<and> keeps w w'"

lemma listenersD:
  assumes "listeners_inv w"
  shows "distinct (w_listener_list w)" and "l \<in> set (w_listener_list w) \<longleftrightarrow> w_listeners w l \<noteq> None"
    and "w_listeners w l \<noteq> None \<Longrightarrow> l < w_next w" and "owned (w_fdev w) (FListener l) \<longleftrightarrow> w_listeners w l \<noteq> None"
    and "registered w t l \<longleftrightarrow> (\<exists>x. w_listeners w l = Some x \<and> l_transport x = Some t)"
    and "w_listeners w l = Some x \<Longrightarrow> l_transport x = None \<Longrightarrow> special x"
    and "w_listeners w l = Some x \<Longrightarrow> w_listeners w l' = Some x' \<Longrightarrow> l_local_name x = l_local_name x' \<Longrightarrow> l = l'"
  using assms unfolding listeners_inv_def by blast+

lemma listenersI:
  assumes "distinct (w_listener_list w)" and "\<And>l. l \<in> set (w_listener_list w) \<longleftrightarrow> w_listeners w l \<noteq> None"
    and "\<And>l. w_listeners w l \<noteq> None \<Longrightarrow> l < w_next w" and "\<And>l. owned (w_fdev w) (FListener l) \<longleftrightarrow> w_listeners w l \<noteq> None"
    and "\<And>t l. registered w t l \<longleftrightarrow> (\<exists>x. w_listeners w l = Some x \<and> l_transport x = Some t)"
    and "\<And>l x. w_listeners w l = Some x \<Longrightarrow> l_transport x = None \<Longrightarrow> special x"
    and "\<And>l x l' x'. w_listeners w l = Some x \<Longrightarrow> w_listeners w l' = Some x' \<Longrightarrow> l_local_name x = l_local_name x' \<Longrightarrow> l = l'"
  shows "listeners_inv w"
  unfolding listeners_inv_def
proof (intro conjI allI impI)
  fix l l' x x'
  assume "w_listeners w l = Some x \<and> w_listeners w l' = Some x' \<and> l_local_name x = l_local_name x'"
  then show "l = l'" using assms(7) by blast
next
  fix l x
  assume "w_listeners w l = Some x \<and> l_transport x = None"
  then show "special x" using assms(6) by blast
qed (use assms(1-5) in \<open>simp_all\<close>)

lemma server_disD: "wf_server w \<Longrightarrow> w_dis w t = Some ds \<Longrightarrow> distinct ds"
  using remotesD(2) [of w t ds] by (simp add: wf_server_def wf_world_def wf_upto_def)

lemma without_listener_inv:
  assumes inv: "wf_server w" and wo: "without_listener l w w'"
    and own: "\<And>k. owned (w_fdev w') (FListener k) \<longleftrightarrow> owned (w_fdev w) (FListener k) \<and> k \<noteq> l"
  shows "listeners_inv w'"
proof -
  have li: "listeners_inv w" using inv by (simp add: wf_server_def)
  note L = listenersD [OF li]
  have "registered w' t k \<longleftrightarrow> registered w t k \<and> k \<noteq> l" for t k
    using wo server_disD [OF inv, of t] by (cases "w_dis w t") (auto simp: registered_def without_listener_def)
  then show ?thesis
    using L(1-5) L(6) L(7) wo own unfolding listeners_inv_def without_listener_def keeps_def
    by (auto simp: fun_upd_def split: if_splits)
qed

lemma free_listener_ok:
  assumes inv: "wf_server w" and l: "w_listeners w l = Some x"
  shows "\<exists>w'. free_listener l w = Inr w' \<and> wf_server w' \<and> without_listener l w w'"
proof -
  have wf: "wf_world w" and li: "listeners_inv w" using inv by (auto simp: wf_server_def)
  have fi: "fdev_inv (w_fdev w)" using wf wf_events(1) [of "{}" w] by (simp add: wf_world_def)
  have "owned (w_fdev w) (FListener l)" using listenersD(4) [OF li] l by simp
  then obtain f where f: "fdevent_remove (FListener l) (w_fdev w) = Inr f" "fdev_inv (fde_free (FListener l) f)"
    "owned (fde_free (FListener l) f) = (owned (w_fdev w))(FListener l := False)"
    using ev.destroy [OF fi] by blast
  let ?w = "\<lambda>tr. w\<lparr>w_listener_list := remove1 l (w_listener_list w), w_listeners := (w_listeners w)(l := None),
    w_trans := tr, w_fdev := fde_free (FListener l) f\<rparr>"
  obtain tr where run: "free_listener l w = Inr (?w tr)"
    and dis: "w_dis (?w tr) = (\<lambda>t. map_option (remove1 (Dis_listener l)) (w_dis w t))"
    and same: "same_remotes w (?w tr)" and so: "sends_only w (?w tr)"
  proof (cases "l_transport x")
    case None
    have "Dis_listener l \<notin> set ds" if "w_dis w t = Some ds" for t ds
      using listenersD(5) [OF li, of t l] None l that by (auto simp: registered_def)
    then have id: "map_option (remove1 (Dis_listener l)) (w_dis w t) = w_dis w t" for t
      by (cases "w_dis w t") (auto simp: remove1_idem)
    show ?thesis
    proof (rule that [of "w_trans w"])
      show "free_listener l w = Inr (?w (w_trans w))"
        using f(1) l None by (simp add: free_listener_def get_listener_def on_fdev_def)
      show "w_dis (?w (w_trans w)) = (\<lambda>t. map_option (remove1 (Dis_listener l)) (w_dis w t))"
        unfolding id by (simp add: w_dis_def fun_eq_iff)
    qed (simp_all add: same_remotes_refl w_dis_def sends_only_refl fun_eq_iff)
  next
    case (Some t)
    have "registered w t l" using listenersD(5) [OF li, of t l] l Some by blast
    then obtain y where y: "w_trans w t = Some y" "Dis_listener l \<in> set (t_disconnects y)"
      by (auto simp: registered_def w_dis_def)
    have other: "Dis_listener l \<notin> set (t_disconnects z)" if "w_trans w u = Some z" "u \<noteq> t" for u z
      using listenersD(5) [OF li, of u l] l Some that by (auto simp: registered_def w_dis_def)
    let ?tr = "(w_trans w)(t \<mapsto> y\<lparr>t_disconnects := remove1 (Dis_listener l) (t_disconnects y)\<rparr>)"
    show ?thesis
    proof (rule that [of ?tr])
      show "free_listener l w = Inr (?w ?tr)"
        using f(1) l Some y(1) by (simp add: free_listener_def get_listener_def on_fdev_def
            remove_transport_disconnect_def mod_trans_def get_trans_def)
      show "w_dis (?w ?tr) = (\<lambda>t. map_option (remove1 (Dis_listener l)) (w_dis w t))"
      proof
        fix u
        show "w_dis (?w ?tr) u = map_option (remove1 (Dis_listener l)) (w_dis w u)"
          using y(1) other [of u] by (cases "w_trans w u") (auto simp: w_dis_def remove1_idem)
      qed
      show "same_remotes w (?w ?tr)" by (rule same_remotes_update [OF y(1), where ds = "remove1 (Dis_listener l) (t_disconnects y)"]) auto
      show "sends_only w (?w ?tr)" by (rule sends_only_update [OF y(1), where ds = "remove1 (Dis_listener l) (t_disconnects y)"]) simp
    qed
  qed
  have wo: "without_listener l w (?w tr)" using dis so by (simp add: without_listener_def keeps_def)
  have "wf_world (?w tr)" by (rule wf_world_remotes [OF wf same]) (simp_all add: f(2,3))
  moreover have "listeners_inv (?w tr)" by (rule without_listener_inv [OF inv wo]) (simp add: f(3))
  ultimately show ?thesis using run wo by (auto simp: wf_server_def)
qed

section \<open>Running the callbacks\<close>

text \<open>A remote socket goes, and the local socket it was connected to is closed with it.\<close>

lemma remote_socket_disconnect_ok:
  assumes inv: "wf_server w" and a: "w_socks w a = Some s" "is_remote s"
  shows "ok (remote_socket_disconnect a w) (\<lambda>w'. wf_server w' \<and> w_socks w' a = None \<and> keeps w w' \<and>
    shrinks (insert a (peer_set s)) w w')"
proof -
  have wf: "wf_upto {} w" "unlocked w" and li: "listeners_inv w" using inv by (auto simp: wf_server_def wf_world_def)
  have k: "s_close s = Remote_close" using a(2) by (simp add: is_remote_def)
  have eq: "remote_socket_disconnect a w = sclose (Suc CLOSE_FUEL) a w"
    unfolding sclose_eqs(3) [OF a(1) k] remote_socket_disconnect_def get_sock_Some [OF a(1)] by simp
  have "ok (sclose (Suc CLOSE_FUEL) a w) (closed_post a s w)"
    using sclose_closed [OF wf(1) a(1) wf(2), of 2] by (simp add: CLOSE_FUEL_def numeral_eq_Suc del: sclose.simps)
  then have run: "ok (remote_socket_disconnect a w) (closed_post a s w)" unfolding eq .
  have gone: "remote_socket_disconnect a w = Inr w' \<Longrightarrow> w_socks w' a = None" for w'
    by (auto simp: remote_socket_disconnect_def ebind_eq_Inr free_sock_def)
  show ?thesis
  proof (cases "remote_socket_disconnect a w")
    case (Inl e)
    then show ?thesis using run by simp
  next
    case (Inr w')
    then have sh: "shrinks (insert a (peer_set s)) w w'" and wf': "wf_upto {} w'"
      using run by (auto simp: closed_post_def)
    have "unlocked w'" using sh wf(2) by (simp add: unlocked_def shrinks_def)
    then show ?thesis
      using Inr gone wf' listeners_shrinks [OF li sh] shrinks_keeps [OF sh] sh by (simp add: wf_server_def wf_world_def)
  qed
qed

text \<open>One callback takes exactly its own registration away from the transport; the ones that
  follow stay valid.\<close>

lemma dis_func_ok:
  assumes inv: "wf_server w" and ds: "w_dis w t = Some (d # ds)"
  shows "ok (dis_func d w) (\<lambda>w'. wf_server w' \<and> w_dis w' t = Some ds \<and> keeps w w')"
proof (cases d)
  case (Dis_listener l)
  have li: "listeners_inv w" using inv by (simp add: wf_server_def)
  obtain x where x: "w_listeners w l = Some x"
    using listenersD(5) [OF li, of t l] ds Dis_listener by (auto simp: registered_def)
  then obtain w' where "free_listener l w = Inr w'" "wf_server w'" "without_listener l w w'"
    using free_listener_ok [OF inv x] by blast
  then show ?thesis using ds Dis_listener by (simp add: dis_func_def listener_disconnect_def without_listener_def)
next
  case (Dis_remote a)
  have r: "remotes_inv w" and u: "wf_upto {} w" using inv by (auto simp: wf_server_def wf_world_def wf_upto_def)
  obtain s where s: "w_socks w a = Some s" "is_remote s"
    using remotesD(3) [OF r ds, of a] Dis_remote by auto
  have "distinct (d # ds)" by (rule server_disD [OF inv ds])
  have live': "live w' e" if sh: "shrinks (insert a (peer_set s)) w w'" and e: "e \<in> set ds" for w' e
  proof (cases e)
    case (Dis_remote c)
    obtain sc where sc: "w_socks w c = Some sc" "is_remote sc" using remotesD(3) [OF r ds, of c] Dis_remote e by auto
    have "c \<notin> peer_set s"
    proof
      assume "c \<in> peer_set s"
      then have p: "s_peer s = Some c" by (simp add: peer_set_def)
      show False using peerD [OF u s(1) p] sc s(2) kinds_disjoint(2) by auto
    qed
    moreover have "c \<noteq> a" using \<open>distinct (d # ds)\<close> e Dis_remote \<open>d = Dis_remote a\<close> by auto
    ultimately show ?thesis using sh sc(1) Dis_remote by (simp add: shrinks_def live_def)
  qed (simp add: live_def)
  have "w_dis w' t = Some ds" if "shrinks (insert a (peer_set s)) w w'" "w_socks w' a = None" for w'
  proof -
    have "\<not> live w' d" using that(2) Dis_remote by (simp add: live_def)
    moreover have "filter (live w') ds = ds" using live' [OF that(1)] by (simp add: filter_id_conv)
    ultimately show ?thesis using that(1) ds by (simp add: shrinks_def)
  qed
  then have "ok (remote_socket_disconnect a w) (\<lambda>w'. wf_server w' \<and> w_dis w' t = Some ds \<and> keeps w w')"
    using remote_socket_disconnect_ok [OF inv s] by (elim ok_mono) auto
  then show ?thesis using Dis_remote by (simp add: dis_func_def)
qed

lemma disconnects_loop_ok:
  assumes "wf_server w" and "w_dis w t = Some ds"
  shows "ok (disconnects_loop (length ds) t (list_head ds) w)
    (\<lambda>w'. wf_server w' \<and> w_dis w' t = Some [] \<and> keeps w w')"
  using assms
proof (induction ds arbitrary: w)
  case Nil
  then show ?case by (simp add: list_head_def)
next
  case (Cons d ds)
  obtain x where x: "w_trans w t = Some x" "t_disconnects x = d # ds" using Cons.prems(2) by (auto simp: w_dis_def)
  have r: "remotes_inv w" and li: "listeners_inv w"
    using Cons.prems(1) by (auto simp: wf_server_def wf_world_def wf_upto_def)
  have "registered w t l" if "d = Dis_listener l" for l using Cons.prems(2) that by (auto simp: registered_def)
  then have alive: "node_alive d w = Inr ()"
    using remotesD(3) [OF r Cons.prems(2)] listenersD(5) [OF li, of t]
    by (cases d) (fastforce simp: node_alive_def get_sock_def get_listener_def)+
  have "ok (ebind (dis_func d w) (disconnects_loop (length ds) t (list_head ds)))
      (\<lambda>w'. wf_server w' \<and> w_dis w' t = Some [] \<and> keeps w w')"
  proof (rule ok_ebind [OF dis_func_ok [OF Cons.prems]])
    fix w1
    assume w1: "wf_server w1 \<and> w_dis w1 t = Some ds \<and> keeps w w1"
    then have "ok (disconnects_loop (length ds) t (list_head ds) w1)
        (\<lambda>w'. wf_server w' \<and> w_dis w' t = Some [] \<and> keeps w1 w')" using Cons.IH by blast
    then show "ok (disconnects_loop (length ds) t (list_head ds) w1)
        (\<lambda>w'. wf_server w' \<and> w_dis w' t = Some [] \<and> keeps w w')"
      by (rule ok_mono) (use w1 keeps_trans in blast)
  qed
  then show ?case using x alive by (simp add: list_head_def get_trans_def split: list.split)
qed

lemma run_transport_disconnects_ok:
  assumes "wf_server w" and "w_trans w t = Some x"
  shows "ok (run_transport_disconnects t w) (\<lambda>w'. wf_server w' \<and> w_dis w' t = Some [] \<and> keeps w w')"
  using disconnects_loop_ok [OF assms(1), of t "t_disconnects x"] assms(2)
  by (simp add: run_transport_disconnects_def get_trans_def w_dis_def)

text \<open>C6: When a transport goes offline, its callbacks run without touching freed memory whatever
  they free on the way; afterwards no remote socket and no port forwarding belongs to the
  transport any more, and the state is well-formed.\<close>

theorem run_transport_disconnects_clears:
  assumes "wf_server w" and "w_trans w t = Some x"
  shows "ok (run_transport_disconnects t w) (\<lambda>w'. wf_server w' \<and>
    (\<forall>a s. w_socks w' a = Some s \<longrightarrow> is_remote s \<longrightarrow> s_transport s \<noteq> Some t) \<and>
    (\<forall>l y. w_listeners w' l = Some y \<longrightarrow> l_transport y \<noteq> Some t))"
proof (rule ok_mono [OF run_transport_disconnects_ok [OF assms]], elim conjE, intro conjI allI impI)
  fix w'
  assume w': "wf_server w'" "w_dis w' t = Some []"
  have r: "remotes_inv w'" and li: "listeners_inv w'"
    using w'(1) by (auto simp: wf_server_def wf_world_def wf_upto_def)
  show "wf_server w'" by (rule w'(1))
  show "s_transport s \<noteq> Some t" if "w_socks w' a = Some s" "is_remote s" for a s
    using remotesD(1) [OF r that] w'(2) by auto
  show "l_transport y \<noteq> Some t" if "w_listeners w' l = Some y" for l y
    using listenersD(5) [OF li, of t l] that w'(2) by (auto simp: registered_def)
qed

lemma sample_stream_server: "wf_server sample_stream"
proof -
  have "\<not> registered sample_stream t l" for t l by (simp add: registered_def sample_stream_dis)
  moreover have "\<not> owned (w_fdev sample_stream) (FListener l)" for l by (simp add: sample_stream_def stream_fdev_inv)
  ultimately show ?thesis
    using sample_stream_wf by (simp add: wf_server_def listeners_inv_def) (simp add: sample_stream_def)
qed

theorem run_transport_disconnects_clears_witness:
  "w_socks sample_stream 2 \<noteq> None \<and>
   ok (run_transport_disconnects 0 sample_stream) (\<lambda>w'. wf_server w' \<and>
    (\<forall>a s. w_socks w' a = Some s \<longrightarrow> is_remote s \<longrightarrow> s_transport s \<noteq> Some 0))"
proof -
  have "w_trans sample_stream 0 = Some (sample_transport\<lparr>t_disconnects := [Dis_remote 2]\<rparr>)"
    by (simp add: sample_stream_def)
  from ok_mono [OF run_transport_disconnects_clears [OF sample_stream_server this]]
  show ?thesis by (simp add: sample_stream_def)
qed

section \<open>Installing\<close>

text \<open>The forwarding table: what the name of a listener leads to.\<close>

definition forwards :: "world \<Rightarrow> string \<Rightarrow> (string \<times> addr option) option" where
  "forwards w name = (case find_listener name (w_listener_list w) w of
      Inr (Some l) \<Rightarrow> map_option (\<lambda>x. (l_connect_to x, l_transport x)) (w_listeners w l)
    | _ \<Rightarrow> None)"

lemma forwards_frame:
  assumes "w_listeners w' = w_listeners w" and "w_listener_list w' = w_listener_list w"
  shows "forwards w' = forwards w"
proof -
  have "find_listener n ls w' = find_listener n ls w" for n ls
  proof (induction ls)
    case (Cons l ls)
    have "get_listener l w' = get_listener l w" by (simp add: get_listener_def assms)
    then show ?case by (simp add: Cons.IH cong: if_cong)
  qed simp
  then show ?thesis unfolding forwards_def assms by simp
qed

lemma find_listener_ok:
  assumes "\<forall>l \<in> set ls. w_listeners w l \<noteq> None"
  shows "\<exists>r. find_listener name ls w = Inr r \<and>
    (\<forall>l. r = Some l \<longrightarrow> l \<in> set ls \<and> (\<exists>x. w_listeners w l = Some x \<and> l_local_name x = name)) \<and>
    (r = None \<longrightarrow> (\<forall>l \<in> set ls. \<forall>x. w_listeners w l = Some x \<longrightarrow> l_local_name x \<noteq> name))"
  using assms
proof (induction ls)
  case (Cons l ls)
  then obtain x where "w_listeners w l = Some x" by auto
  with Cons show ?case by (auto simp: get_listener_def)
qed simp

lemma forwards_eq:
  assumes li: "listeners_inv w"
  shows "forwards w name = Some c \<longleftrightarrow>
    (\<exists>l x. w_listeners w l = Some x \<and> l_local_name x = name \<and> c = (l_connect_to x, l_transport x))"
proof -
  note L = listenersD [OF li]
  have all: "\<forall>l \<in> set (w_listener_list w). w_listeners w l \<noteq> None" using L(2) by simp
  obtain r where r: "find_listener name (w_listener_list w) w = Inr r"
    and some: "\<And>l. r = Some l \<Longrightarrow> \<exists>x. w_listeners w l = Some x \<and> l_local_name x = name"
    and none: "r = None \<Longrightarrow> \<forall>l \<in> set (w_listener_list w). \<forall>x. w_listeners w l = Some x \<longrightarrow> l_local_name x \<noteq> name"
    using find_listener_ok [OF all, of name] by blast
  show ?thesis
  proof (cases r)
    case None
    have "l_local_name x \<noteq> name" if "w_listeners w l = Some x" for l x
      using none [OF None] L(2) [of l] that by simp
    then show ?thesis using r None by (auto simp: forwards_def)
  next
    case (Some l)
    then obtain x where x: "w_listeners w l = Some x" "l_local_name x = name" using some by blast
    have "l' = l" if "w_listeners w l' = Some x'" "l_local_name x' = name" for l' x'
      using L(7) [OF that(1) x(1)] that(2) x(2) by simp
    then have "(\<exists>l x. w_listeners w l = Some x \<and> l_local_name x = name \<and> c = (l_connect_to x, l_transport x)) \<longleftrightarrow>
        c = (l_connect_to x, l_transport x)" using x by (metis option.inject)
    then show ?thesis using r Some x(1) by (auto simp: forwards_def)
  qed
qed

text \<open>Adding or replacing a listener.\<close>

lemma set_listener:
  assumes li: "listeners_inv w" and L': "w_listeners w' = (w_listeners w)(l \<mapsto> x)"
    and list: "w_listener_list w' = (if l \<in> set (w_listener_list w) then w_listener_list w else w_listener_list w @ [l])"
    and nx: "l < w_next w'" "w_next w \<le> w_next w'"
    and own: "\<And>k. owned (w_fdev w') (FListener k) \<longleftrightarrow> k = l \<or> owned (w_fdev w) (FListener k)"
    and reg: "\<And>t k. registered w' t k \<longleftrightarrow> (if k = l then l_transport x = Some t else registered w t k)"
    and name: "\<And>k y. w_listeners w k = Some y \<Longrightarrow> l_local_name y = l_local_name x \<Longrightarrow> k = l"
    and old: "\<And>y. w_listeners w l = Some y \<Longrightarrow> l_local_name y = l_local_name x"
    and sp: "l_transport x = None \<Longrightarrow> special x"
  shows "listeners_inv w'" and "forwards w' = (forwards w)(l_local_name x \<mapsto> (l_connect_to x, l_transport x))"
proof -
  note L = listenersD [OF li]
  have 1: "distinct (w_listener_list w')" using L(1) by (simp add: list)
  have 2: "k \<in> set (w_listener_list w') \<longleftrightarrow> w_listeners w' k \<noteq> None" for k using L(2) by (simp add: list L')
  have 3: "k < w_next w'" if "w_listeners w' k \<noteq> None" for k
    using L(3) [of k] nx that by (cases "k = l") (auto simp: L')
  have 4: "owned (w_fdev w') (FListener k) \<longleftrightarrow> w_listeners w' k \<noteq> None" for k using L(4) own by (simp add: L')
  have 5: "registered w' t k \<longleftrightarrow> (\<exists>y. w_listeners w' k = Some y \<and> l_transport y = Some t)" for t k
    using L(5) by (simp add: reg L')
  have 6: "special y" if "w_listeners w' k = Some y" "l_transport y = None" for k y
    using L(6) [of k y] sp that by (auto simp: L' split: if_splits)
  have 7: "k = k'" if "w_listeners w' k = Some y" "w_listeners w' k' = Some y'" "l_local_name y = l_local_name y'" for k y k' y'
  proof -
    consider "k = l" "k' = l" | "k = l" "k' \<noteq> l" | "k \<noteq> l" "k' = l" | "k \<noteq> l" "k' \<noteq> l" by blast
    then show ?thesis
    proof cases
      case 2
      then show ?thesis using name [of k' y'] that by (simp add: L')
    next
      case 3
      then show ?thesis using name [of k y] that by (simp add: L')
    next
      case 4
      then show ?thesis using L(7) [of k y k' y'] that by (simp add: L')
    qed simp
  qed
  show inv': "listeners_inv w'"
    by (rule listenersI [OF 1 2 3 4 5 6 7])
  show "forwards w' = (forwards w)(l_local_name x \<mapsto> (l_connect_to x, l_transport x))"
  proof
    fix n
    show "forwards w' n = ((forwards w)(l_local_name x \<mapsto> (l_connect_to x, l_transport x))) n"
    proof (cases "n = l_local_name x")
      case True
      have "forwards w' n = Some (l_connect_to x, l_transport x)" using True by (subst forwards_eq [OF inv']) (auto simp: L')
      then show ?thesis using True by simp
    next
      case False
      have "(w_listeners w' k = Some y \<and> l_local_name y = n) \<longleftrightarrow> (w_listeners w k = Some y \<and> l_local_name y = n)" for k y
        using False old [of y] by (auto simp: L')
      then have "forwards w' n = Some c \<longleftrightarrow> forwards w n = Some c" for c
        unfolding forwards_eq [OF inv'] forwards_eq [OF li] conj_assoc [symmetric] by simp
      then have "forwards w' n = forwards w n" by (metis option.exhaust)
      then show ?thesis using False by simp
    qed
  qed
qed

lemma fdevent_set_owned:
  assumes "fdev_inv f" and "owned f x"
  shows "\<exists>f'. fdevent_set x ev f = Inr f' \<and> fdev_inv f' \<and> owned f' = owned f"
proof -
  obtain e where "fdes f x = Some e" using assms(2) by (auto simp: owned_def)
  from fdevent_set_inv [OF assms(1) this, of ev] this show ?thesis by (auto simp: owned_def fun_eq_iff)
qed

lemma open_fd_server:
  assumes inv: "wf_server w"
  shows "ok (open_fd w) (\<lambda>(fd, w'). wf_server w' \<and> forwards w' = forwards w \<and> w_trans w' = w_trans w \<and>
    w_listeners w' = w_listeners w \<and> w_listener_list w' = w_listener_list w \<and> w_next w' = w_next w \<and>
    (\<forall>d. fd = Some d \<longrightarrow> free_fd (w_fdev w') d))"
proof (cases "w_newfds w")
  case Nil
  then show ?thesis by (simp add: open_fd_def)
next
  case (Cons fd fds)
  let ?w = "w\<lparr>w_newfds := fds\<rparr>"
  have wf: "wf_world w" and li: "listeners_inv w" using inv by (auto simp: wf_server_def)
  have "wf_world ?w" by (rule wf_world_frame [OF wf]) (use Cons in \<open>auto simp: w_dis_def fun_eq_iff\<close>)
  moreover have "registered ?w = registered w" by (simp add: registered_def w_dis_def fun_eq_iff)
  then have "listeners_inv ?w" using listeners_frame [of ?w w] li by simp
  moreover have "forwards ?w = forwards w" by (rule forwards_frame) simp_all
  moreover have "free_fd (w_fdev w) fd" if "0 \<le> fd" "\<not> fd_in_use (w_fdev w) fd"
    using open_fd_free(1) [OF wf, of fd ?w] Cons that by (simp add: open_fd_def)
  ultimately show ?thesis using Cons by (simp add: open_fd_def wf_server_def)
qed

lemma add_transport_disconnect_eq:
  assumes "\<not> w_transport_lock w" and "w_trans w t = Some y"
  shows "add_transport_disconnect t d w =
    Inr (w\<lparr>w_trans := (w_trans w)(t \<mapsto> y\<lparr>t_disconnects := t_disconnects y @ [d]\<rparr>)\<rparr>)"
  using assms by (simp add: add_transport_disconnect_def lock_transports_def mod_trans_def get_trans_def unlock_transports_def)

lemma local_name_to_fd_ok:
  assumes inv: "wf_server w"
  shows "ok (local_name_to_fd name w) (\<lambda>(fd, w'). wf_server w' \<and> forwards w' = forwards w \<and> w_trans w' = w_trans w \<and>
    w_listeners w' = w_listeners w \<and> w_listener_list w' = w_listener_list w \<and> w_next w' = w_next w \<and>
    (\<forall>d. fd = Some d \<longrightarrow> free_fd (w_fdev w') d))"
  using open_fd_server [OF inv] inv by (simp add: local_name_to_fd_def)

text \<open>A new listener on the free descriptor \<open>fd\<close>.\<close>

lemma add_listener_ok:
  assumes inv: "wf_server w" and fd: "free_fd (w_fdev w) fd" and t: "w_trans w t = Some y"
    and name: "\<And>k z. w_listeners w k = Some z \<Longrightarrow> l_local_name z \<noteq> l_local_name x" and x: "l_transport x = Some t"
  shows "\<exists>f g. fdevent_install (FListener (w_next w)) fd func (w_fdev w) = Inr f \<and>
    fdevent_set (FListener (w_next w)) FDE_READ f = Inr g \<and>
    (let w' = w\<lparr>w_next := Suc (w_next w), w_fdev := g, w_listeners := (w_listeners w)(w_next w \<mapsto> x),
       w_listener_list := w_listener_list w @ [w_next w],
       w_trans := (w_trans w)(t \<mapsto> y\<lparr>t_disconnects := t_disconnects y @ [Dis_listener (w_next w)]\<rparr>)\<rparr>
     in wf_server w' \<and> forwards w' = (forwards w)(l_local_name x \<mapsto> (l_connect_to x, Some t)))"
proof -
  let ?l = "w_next w"
  have wf: "wf_world w" and li: "listeners_inv w" using inv by (auto simp: wf_server_def)
  note L = listenersD [OF li]
  have fi: "fdev_inv (w_fdev w)" using wf wf_events(1) [of "{}" w] by (simp add: wf_world_def)
  have new: "w_listeners w ?l = None" using L(3) [of ?l] by (cases "w_listeners w ?l") auto
  then have un: "\<not> owned (w_fdev w) (FListener ?l)" "?l \<notin> set (w_listener_list w)" using L(2,4) by simp_all
  have nreg: "\<not> registered w u ?l" for u using L(5) [of u ?l] new by simp
  obtain f where f: "fdevent_install (FListener ?l) fd func (w_fdev w) = Inr f" "fdev_inv f"
    "owned f = (owned (w_fdev w))(FListener ?l := True)" using ev.install_law [OF fi fd un(1)] by blast
  obtain g where g: "fdevent_set (FListener ?l) FDE_READ f = Inr g" "fdev_inv g" "owned g = owned f"
    using fdevent_set_owned [OF f(2), of "FListener ?l"] f(3) by auto
  let ?ds = "t_disconnects y @ [Dis_listener ?l]"
  define w' where "w' = w\<lparr>w_next := Suc ?l, w_fdev := g, w_listeners := (w_listeners w)(?l \<mapsto> x),
    w_listener_list := w_listener_list w @ [?l], w_trans := (w_trans w)(t \<mapsto> y\<lparr>t_disconnects := ?ds\<rparr>)\<rparr>"
  have "Dis_listener ?l \<notin> set (t_disconnects y)" using nreg [of t] t by (auto simp: registered_def w_dis_def)
  then have "same_remotes w w'"
    by (intro same_remotes_update [OF t, where ds = ?ds]) (auto simp: w'_def)
  then have wf': "wf_world w'"
    by (rule wf_world_remotes [OF wf]) (simp_all add: w'_def f(3) g(2,3))
  have reg: "registered w' u k \<longleftrightarrow> (if k = ?l then l_transport x = Some u else registered w u k)" for u k
    using nreg [of u] t x by (auto simp: registered_def w_dis_def w'_def)
  have "listeners_inv w'" "forwards w' = (forwards w)(l_local_name x \<mapsto> (l_connect_to x, l_transport x))"
    by (rule set_listener [OF li, where l = ?l and x = x]; use un new reg name x in \<open>simp add: w'_def f(3) g(3)\<close>)+
  then show ?thesis using f(1) g(1) wf' x unfolding w'_def by (auto simp: wf_server_def)
qed

lemma new_listener_ok:
  assumes inv: "wf_server w" and t: "w_trans w t = Some y"
    and name: "\<And>k z. w_listeners w k = Some z \<Longrightarrow> l_local_name z \<noteq> local_name"
  shows "ok (new_listener local_name connect_to (Some t) w) (\<lambda>(st, w'). wf_server w' \<and>
    forwards w' = (if st = INSTALL_STATUS_OK then (forwards w)(local_name \<mapsto> (connect_to, Some t)) else forwards w))"
  unfolding new_listener_def
proof (rule ok_ebind [OF local_name_to_fd_ok [OF inv]], clarify)
  fix fd w1
  assume w1: "wf_server w1" "forwards w1 = forwards w" "w_trans w1 = w_trans w" "w_listeners w1 = w_listeners w"
    "w_next w1 = w_next w" "\<forall>d. fd = Some d \<longrightarrow> free_fd (w_fdev w1) d"
  let ?func = "if connect_to = ''*smartsocket*'' then Ss_listener_event_func else Listener_event_func"
  let ?P = "\<lambda>(st, w'). wf_server w' \<and>
    forwards w' = (if st = INSTALL_STATUS_OK then (forwards w)(local_name \<mapsto> (connect_to, Some t)) else forwards w)"
  have lock: "\<not> w_transport_lock w1" using w1(1) by (simp add: wf_server_def wf_world_def unlocked_def)
  show "ok (case fd of None \<Rightarrow> Inr (INSTALL_STATUS_CANNOT_BIND, w1)
     | Some fd \<Rightarrow> let l = w_next w1; func = ?func; w = w1\<lparr>w_next := Suc l\<rparr>
         in ebind (on_fdev (fdevent_install (FListener l) fd func) w) (\<lambda>w.
            ebind (on_fdev (fdevent_set (FListener l) FDE_READ) w) (\<lambda>w.
            let w = w\<lparr>w_listeners := (w_listeners w)(l \<mapsto> \<lparr>l_fd = fd, l_local_name = local_name,
                   l_connect_to = connect_to, l_transport = Some t\<rparr>), w_listener_list := w_listener_list w @ [l]\<rparr>
            in ebind (case Some t of None \<Rightarrow> Inr w | Some t \<Rightarrow> add_transport_disconnect t (Dis_listener l) w)
                 (\<lambda>w. Inr (INSTALL_STATUS_OK, w))))) ?P"
  proof (cases fd)
    case None
    then show ?thesis using w1 by simp
  next
    case (Some d)
    let ?x = "\<lparr>l_fd = d, l_local_name = local_name, l_connect_to = connect_to, l_transport = Some t\<rparr>"
    have "w_trans w1 t = Some y" using t w1(3) by simp
    then obtain f g where "fdevent_install (FListener (w_next w1)) d ?func (w_fdev w1) = Inr f"
      "fdevent_set (FListener (w_next w1)) FDE_READ f = Inr g"
      "let w' = w1\<lparr>w_next := Suc (w_next w1), w_fdev := g, w_listeners := (w_listeners w1)(w_next w1 \<mapsto> ?x),
         w_listener_list := w_listener_list w1 @ [w_next w1],
         w_trans := (w_trans w1)(t \<mapsto> y\<lparr>t_disconnects := t_disconnects y @ [Dis_listener (w_next w1)]\<rparr>)\<rparr>
       in wf_server w' \<and> forwards w' = (forwards w1)(l_local_name ?x \<mapsto> (l_connect_to ?x, Some t))"
      using add_listener_ok [OF w1(1), of d t y ?x ?func] w1(4,6) Some name by auto
    then show ?thesis
      using Some t w1(2,3) lock by (simp add: Let_def on_fdev_def add_transport_disconnect_eq)
  qed
qed

lemma rebind_listener_ok:
  assumes inv: "wf_server w" and l: "w_listeners w l = Some x" "\<not> special x" and t: "w_trans w t = Some y"
  shows "ok (rebind_listener l x connect_to (Some t) w) (\<lambda>w'. wf_server w' \<and>
    forwards w' = (forwards w)(l_local_name x \<mapsto> (connect_to, Some t)))"
proof -
  have wf: "wf_world w" and li: "listeners_inv w" using inv by (auto simp: wf_server_def)
  note L = listenersD [OF li]
  have lock: "\<not> w_transport_lock w" using wf by (simp add: wf_world_def unlocked_def)
  have fi: "fdev_inv (w_fdev w)" using wf wf_events(1) [of "{}" w] by (simp add: wf_world_def)
  have on: "l \<in> set (w_listener_list w)" "l < w_next w" "owned (w_fdev w) (FListener l)"
    using L(2-4) [of l] l(1) by simp_all
  obtain u where u: "l_transport x = Some u" using L(6) [OF l(1)] l(2) by (cases "l_transport x") auto
  let ?x = "x\<lparr>l_connect_to := connect_to, l_transport := Some t\<rparr>"
  have done1: "wf_server w' \<and> forwards w' = (forwards w)(l_local_name x \<mapsto> (connect_to, Some t))"
    if w': "w' = w\<lparr>w_listeners := (w_listeners w)(l \<mapsto> ?x), w_trans := tr\<rparr>" and same: "same_remotes w w'"
      and reg: "\<And>v k. registered w' v k \<longleftrightarrow> (if k = l then v = t else registered w v k)" for w' tr
  proof -
    have "wf_world w'" by (rule wf_world_remotes [OF wf same]) (use w' fi in simp_all)
    moreover have s: "w_listeners w' = (w_listeners w)(l \<mapsto> ?x)" "l < w_next w'" "w_next w \<le> w_next w'"
      "w_listener_list w' = (if l \<in> set (w_listener_list w) then w_listener_list w else w_listener_list w @ [l])"
      using w' on by simp_all
    have own: "owned (w_fdev w') (FListener k) \<longleftrightarrow> k = l \<or> owned (w_fdev w) (FListener k)" for k using w' on(3) by auto
    have reg': "registered w' v k \<longleftrightarrow> (if k = l then l_transport ?x = Some v else registered w v k)" for v k using reg by auto
    have nm: "k = l" if "w_listeners w k = Some z" "l_local_name z = l_local_name ?x" for k z
      using L(7) [OF that(1) l(1)] that(2) by simp
    have old: "l_local_name z = l_local_name ?x" if "w_listeners w l = Some z" for z using that l(1) by simp
    have sp: "l_transport ?x = None \<Longrightarrow> special ?x" by simp
    note set_listener [OF li s(1,4,2,3) own reg' nm old sp]
    ultimately show ?thesis by (simp add: wf_server_def)
  qed
  show ?thesis
  proof (cases "u = t")
    case True
    let ?w = "w\<lparr>w_listeners := (w_listeners w)(l \<mapsto> ?x), w_trans := w_trans w\<rparr>"
    have x': "?x = x\<lparr>l_connect_to := connect_to\<rparr>" using u True by (cases x) simp
    have eq: "rebind_listener l x connect_to (Some t) w = Inr ?w"
      unfolding x' using u True by (simp add: rebind_listener_def)
    have "same_remotes w ?w" by (rule same_remotes_refl) (simp add: w_dis_def fun_eq_iff)
    moreover have "registered ?w v k \<longleftrightarrow> (if k = l then v = t else registered w v k)" for v k
      using L(5) [of v l] l(1) u True by (auto simp: registered_def w_dis_def)
    ultimately show ?thesis unfolding eq ok_Inr by (intro done1 [OF refl])
  next
    case False
    have "registered w u l" using L(5) [of u l] l(1) u by simp
    then obtain z where z: "w_trans w u = Some z" by (auto simp: registered_def w_dis_def)
    let ?z = "z\<lparr>t_disconnects := remove1 (Dis_listener l) (t_disconnects z)\<rparr>"
    let ?y = "y\<lparr>t_disconnects := t_disconnects y @ [Dis_listener l]\<rparr>"
    let ?w = "w\<lparr>w_listeners := (w_listeners w)(l \<mapsto> ?x), w_trans := (w_trans w)(u \<mapsto> ?z, t \<mapsto> ?y)\<rparr>"
    have eq: "rebind_listener l x connect_to (Some t) w = Inr ?w"
      using u False z t lock by (simp add: rebind_listener_def Let_def remove_transport_disconnect_def mod_trans_def
          get_trans_def add_transport_disconnect_eq)
    have nl: "Dis_listener l \<notin> set (t_disconnects y)"
      using L(5) [of t l] l(1) u False t by (auto simp: registered_def w_dis_def)
    have dz: "distinct (t_disconnects z)" using server_disD [OF inv, of u] z by (simp add: w_dis_def)
    have "same_remotes w ?w"
      using z t nl False by (auto simp: same_remotes_def w_dis_def split: option.splits)
    moreover have "registered ?w v k \<longleftrightarrow> (if k = l then v = t else registered w v k)" for v k
      using L(5) [of v l] l(1) u False z t dz by (auto simp: registered_def w_dis_def)
    ultimately show ?thesis unfolding eq ok_Inr by (intro done1 [OF refl])
  qed
qed

lemma wf_find_listener:
  assumes "wf_server w"
  obtains (found) l x where "find_listener name (w_listener_list w) w = Inr (Some l)" "w_listeners w l = Some x" "l_local_name x = name"
  | (absent) "find_listener name (w_listener_list w) w = Inr None" "\<And>k z. w_listeners w k = Some z \<Longrightarrow> l_local_name z \<noteq> name"
proof -
  have li: "listeners_inv w" using assms by (simp add: wf_server_def)
  have all: "\<forall>l \<in> set (w_listener_list w). w_listeners w l \<noteq> None" using listenersD(2) [OF li] by simp
  obtain r where r: "find_listener name (w_listener_list w) w = Inr r"
    and some: "\<And>l. r = Some l \<Longrightarrow> \<exists>x. w_listeners w l = Some x \<and> l_local_name x = name"
    and none: "r = None \<Longrightarrow> \<forall>l \<in> set (w_listener_list w). \<forall>x. w_listeners w l = Some x \<longrightarrow> l_local_name x \<noteq> name"
    using find_listener_ok [OF all, of name] by blast
  show ?thesis
  proof (cases r)
    case None
    have "l_local_name z \<noteq> name" if "w_listeners w k = Some z" for k z
      using none [OF None] listenersD(2) [OF li, of k] that by simp
    then show ?thesis using absent r None by blast
  next
    case (Some l)
    then show ?thesis using found r some by blast
  qed
qed

lemma install_listener_ok:
  assumes inv: "wf_server w" and t: "w_trans w t = Some y"
  shows "ok (install_listener local_name connect_to (Some t) no_rebind w) (\<lambda>(st, w'). wf_server w' \<and>
    forwards w' = (if st = INSTALL_STATUS_OK then (forwards w)(local_name \<mapsto> (connect_to, Some t)) else forwards w) \<and>
    (no_rebind \<and> forwards w local_name \<noteq> None \<longrightarrow> st \<noteq> INSTALL_STATUS_OK) \<and>
    (\<forall>c. forwards w local_name = Some (c, None) \<longrightarrow> st \<noteq> INSTALL_STATUS_OK))"
  using inv
proof (cases rule: wf_find_listener [where name = local_name])
  case absent
  have li: "listeners_inv w" using inv by (simp add: wf_server_def)
  have "forwards w local_name \<noteq> Some c" for c unfolding forwards_eq [OF li] using absent(2) by blast
  then have "forwards w local_name = None" by (cases "forwards w local_name") auto
  then show ?thesis using new_listener_ok [OF inv t absent(2)] absent(1)
    by (auto simp: install_listener_def elim!: ok_mono)
next
  case (found l x)
  have li: "listeners_inv w" using inv by (simp add: wf_server_def)
  have fw: "forwards w local_name = Some (l_connect_to x, l_transport x)"
    unfolding forwards_eq [OF li] using found by blast
  show ?thesis
  proof (cases "special x \<or> no_rebind")
    case True
    then show ?thesis using found inv by (auto simp: install_listener_def get_listener_def)
  next
    case False
    then have "l_transport x \<noteq> None" using listenersD(6) [OF li found(2)] by blast
    with False show ?thesis using rebind_listener_ok [OF inv found(2) _ t, of connect_to] found fw
      by (auto simp: install_listener_def get_listener_def elim!: ok_ebind)
  qed
qed

text \<open>C7: \<open>install_listener\<close> implements an update of the forwarding table: with status OK the local
  name leads to the given destination on the given device and every other name is as before;
  with any other status the table is unchanged, an existing forwarding is never replaced under
  \<open>no_rebind\<close>, and the name of the server's own listener is never taken over. No freed listener
  or transport is touched and the state stays well-formed.\<close>

theorem install_listener_refines:
  assumes inv: "wf_server w" and t: "w_trans w t = Some y"
  shows "ok (install_listener local_name connect_to (Some t) no_rebind w) (\<lambda>(st, w'). wf_server w' \<and>
    forwards w' = (if st = INSTALL_STATUS_OK then (forwards w)(local_name \<mapsto> (connect_to, Some t)) else forwards w) \<and>
    (no_rebind \<and> forwards w local_name \<noteq> None \<longrightarrow> st \<noteq> INSTALL_STATUS_OK) \<and>
    (\<forall>c. forwards w local_name = Some (c, None) \<longrightarrow> st \<noteq> INSTALL_STATUS_OK))"
  by (rule install_listener_ok [OF assms])

lemma remove_listener_ok:
  assumes inv: "wf_server w"
  shows "\<exists>r w'. remove_listener name w = Inr (r, w') \<and> wf_server w' \<and> forwards w' = (forwards w)(name := None) \<and>
    (r = 0 \<longleftrightarrow> forwards w name \<noteq> None) \<and> keeps w w'"
  using inv
proof (cases rule: wf_find_listener [where name = name])
  case absent
  have li: "listeners_inv w" using inv by (simp add: wf_server_def)
  have "forwards w name \<noteq> Some c" for c unfolding forwards_eq [OF li] using absent(2) by blast
  then have "forwards w name = None" by (cases "forwards w name") auto
  then show ?thesis using absent(1) inv by (simp add: remove_listener_def fun_upd_idem)
next
  case (found l x)
  have li: "listeners_inv w" using inv by (simp add: wf_server_def)
  obtain w' where w': "free_listener l w = Inr w'" "wf_server w'" "without_listener l w w'"
    using free_listener_ok [OF inv found(2)] by blast
  have li': "listeners_inv w'" using w'(2) by (simp add: wf_server_def)
  have L': "w_listeners w' = (w_listeners w)(l := None)" using w'(3) by (simp add: without_listener_def)
  have "forwards w' n = ((forwards w)(name := None)) n" for n
  proof (cases "n = name")
    case True
    have "forwards w' n \<noteq> Some c" for c
      unfolding forwards_eq [OF li'] L' using True listenersD(7) [OF li _ found(2)] found(3) by (auto split: if_splits)
    then show ?thesis using True by (cases "forwards w' n") auto
  next
    case False
    have "(w_listeners w' k = Some z \<and> l_local_name z = n) \<longleftrightarrow> (w_listeners w k = Some z \<and> l_local_name z = n)" for k z
      using False found(2,3) by (auto simp: L')
    then have "forwards w' n = Some c \<longleftrightarrow> forwards w n = Some c" for c
      unfolding forwards_eq [OF li'] forwards_eq [OF li] conj_assoc [symmetric] by simp
    then have "forwards w' n = forwards w n" by (metis option.exhaust)
    then show ?thesis using False by simp
  qed
  moreover have "forwards w name \<noteq> None"
    using forwards_eq [OF li, of name "(l_connect_to x, l_transport x)"] found by auto
  ultimately show ?thesis using found(1) w' by (auto simp: remove_listener_def listener_disconnect_def without_listener_def)
qed

section \<open>The table as an interface\<close>

text \<open>What the requests of a client rely on: an update that may be refused, and a removal.\<close>

locale keyed_table =
  fixes inv :: "'w \<Rightarrow> bool"
    and valid :: "'w \<Rightarrow> 'v \<Rightarrow> bool"
    and lookup :: "'w \<Rightarrow> 'k \<Rightarrow> 'v option"
    and put :: "'k \<Rightarrow> 'v \<Rightarrow> 'w \<Rightarrow> err + (bool \<times> 'w)"
    and del :: "'k \<Rightarrow> 'w \<Rightarrow> err + (bool \<times> 'w)"
  assumes put_law: "inv w \<Longrightarrow> valid w v \<Longrightarrow>
      ok (put k v w) (\<lambda>(r, w'). inv w' \<and> lookup w' = (if r then (lookup w)(k \<mapsto> v) else lookup w))"
    and del_law: "inv w \<Longrightarrow>
      ok (del k w) (\<lambda>(r, w'). inv w' \<and> lookup w' = (lookup w)(k := None) \<and> (r \<longleftrightarrow> lookup w k \<noteq> None))"
begin

lemma put_del:
  assumes "inv w" and "valid w v"
  shows "ok (ebind (put k v w) (\<lambda>(r, w). ebind (del k w) (\<lambda>(r', w). Inr (r, r', w))))
    (\<lambda>(r, r', w'). inv w' \<and> lookup w' = (lookup w)(k := None) \<and> (r \<longrightarrow> r'))"
proof (rule ok_ebind [OF put_law [OF assms, of k]], clarify)
  fix r w1
  assume w1: "inv w1" "lookup w1 = (if r then (lookup w)(k \<mapsto> v) else lookup w)"
  show "ok (ebind (del k w1) (\<lambda>(r', w). Inr (r, r', w)))
    (\<lambda>(r, r', w'). inv w' \<and> lookup w' = (lookup w)(k := None) \<and> (r \<longrightarrow> r'))"
    by (rule ok_ebind [OF del_law [OF w1(1), of k]]) (use w1(2) in \<open>auto split: if_splits\<close>)
qed

text \<open>Removing a name does not disturb another one.\<close>

lemma del_other:
  assumes "inv w" and "k' \<noteq> k"
  shows "ok (del k w) (\<lambda>(_, w'). lookup w' k' = lookup w k')"
  by (rule ok_mono [OF del_law [OF assms(1), of k]]) (use assms(2) in auto)

end

definition forward :: "bool \<Rightarrow> string \<Rightarrow> string \<times> addr option \<Rightarrow> world \<Rightarrow> err + (bool \<times> world)" where
  "forward no_rebind name v w =
     ebind (install_listener name (fst v) (snd v) no_rebind w) (\<lambda>(st, w). Inr (st = INSTALL_STATUS_OK, w))"

definition unforward :: "string \<Rightarrow> world \<Rightarrow> err + (bool \<times> world)" where
  "unforward name w = ebind (remove_listener name w) (\<lambda>(r, w). Inr (r = 0, w))"

definition on_device :: "world \<Rightarrow> string \<times> addr option \<Rightarrow> bool" where
  "on_device w v \<longleftrightarrow> (\<exists>t. snd v = Some t \<and> w_trans w t \<noteq> None)"

interpretation fw: keyed_table wf_server on_device forwards "forward no_rebind" unforward for no_rebind
proof
  fix w :: world and v :: "string \<times> addr option" and k :: string
  assume inv: "wf_server w"
  show "ok (unforward k w) (\<lambda>(r, w'). wf_server w' \<and> forwards w' = (forwards w)(k := None) \<and> (r \<longleftrightarrow> forwards w k \<noteq> None))"
    using remove_listener_ok [OF inv, of k] by (auto simp: unforward_def)
  assume "on_device w v"
  then obtain t y where t: "snd v = Some t" "w_trans w t = Some y" by (auto simp: on_device_def)
  then obtain c where v: "v = (c, Some t)" by (cases v) auto
  show "ok (forward no_rebind k v w) (\<lambda>(r, w'). wf_server w' \<and>
      forwards w' = (if r then (forwards w)(k \<mapsto> v) else forwards w))"
    unfolding forward_def v fst_conv snd_conv
    by (rule ok_ebind [OF install_listener_ok [OF inv t(2), of k c no_rebind]]) auto
qed

text \<open>C31: A forwarding that a client installs and then removes is gone, whatever was there before,
  the removal succeeds whenever the installation did, and every other forwarding is as it was.\<close>

theorem forward_kill_roundtrip:
  assumes "wf_server w" and "w_trans w t = Some y"
  shows "ok (ebind (install_listener name c (Some t) no_rebind w) (\<lambda>(st, w).
      ebind (remove_listener name w) (\<lambda>(r, w). Inr (st, r, w))))
    (\<lambda>(st, r, w'). wf_server w' \<and> forwards w' = (forwards w)(name := None) \<and> (st = INSTALL_STATUS_OK \<longrightarrow> r = 0))"
proof -
  have "on_device w (c, Some t)" using assms(2) by (simp add: on_device_def)
  note law = fw.put_del [OF assms(1) this, of no_rebind name, unfolded forward_def unforward_def fst_conv snd_conv]
  show ?thesis
  proof (cases "install_listener name c (Some t) no_rebind w")
    case (Inl e)
    then show ?thesis using law by simp
  next
    case (Inr p)
    obtain st w1 where p: "p = (st, w1)" by (cases p)
    show ?thesis using law unfolding Inr p by (cases "remove_listener name w1") auto
  qed
qed

section \<open>Removing all, and listing\<close>

lemma remove_all_loop_ok:
  assumes "wf_server w" and "w_listener_list w = pre @ ls" and "length ls \<le> n"
  shows "ok (remove_all_loop n (list_head ls) w) (\<lambda>w'. wf_server w' \<and> w_listeners w' = (\<lambda>l.
    if l \<in> set ls \<and> (\<exists>x. w_listeners w l = Some x \<and> \<not> special x) then None else w_listeners w l))"
  using assms
proof (induction ls arbitrary: n w pre)
  case Nil
  then show ?case by (simp add: list_head_def)
next
  case (Cons l ls)
  then obtain m where n: "n = Suc m" "length ls \<le> m" by (cases n) auto
  have li: "listeners_inv w" using Cons.prems(1) by (simp add: wf_server_def)
  have dist: "distinct (pre @ l # ls)" using listenersD(1) [OF li] Cons.prems(2) by simp
  have succ: "successor l (w_listener_list w) = list_head ls" using successor_append [OF dist] Cons.prems(2) by simp
  obtain x where x: "w_listeners w l = Some x" using listenersD(2) [OF li, of l] Cons.prems(2) by auto
  have head: "remove_all_loop n (list_head (l # ls)) w = (if special x then remove_all_loop m (list_head ls) w
      else ebind (listener_disconnect l w) (remove_all_loop m (list_head ls)))"
    by (simp add: n(1) list_head_def get_listener_def x succ [unfolded list_head_def])
  show ?case
  proof (cases "special x")
    case True
    have "ok (remove_all_loop m (list_head ls) w) (\<lambda>w'. wf_server w' \<and> w_listeners w' = (\<lambda>l.
        if l \<in> set ls \<and> (\<exists>x. w_listeners w l = Some x \<and> \<not> special x) then None else w_listeners w l))"
      using Cons.IH [of w "pre @ [l]" m] Cons.prems(1,2) n(2) by simp
    then show ?thesis unfolding head using True x
      by (auto elim!: ok_mono simp: fun_eq_iff)
  next
    case False
    obtain w1 where w1: "free_listener l w = Inr w1" "wf_server w1" "without_listener l w w1"
      using free_listener_ok [OF Cons.prems(1) x] by blast
    have L1: "w_listeners w1 = (w_listeners w)(l := None)" and "w_listener_list w1 = pre @ ls"
      using w1(3) Cons.prems(2) dist by (auto simp: without_listener_def remove1_append)
    then have "ok (remove_all_loop m (list_head ls) w1) (\<lambda>w'. wf_server w' \<and> w_listeners w' = (\<lambda>l.
        if l \<in> set ls \<and> (\<exists>x. w_listeners w1 l = Some x \<and> \<not> special x) then None else w_listeners w1 l))"
      using Cons.IH [of w1 pre m] w1(2) n(2) by simp
    then show ?thesis unfolding head using False x w1(1) dist
      by (auto elim!: ok_mono simp: fun_eq_iff L1 listener_disconnect_def)
  qed
qed

text \<open>\<open>adb forward --remove-all\<close> frees every forwarding and only those: the listener that accepts
  the clients of the server stays, and the walk never follows a pointer of a listener it freed.\<close>

theorem remove_all_listeners_clears:
  assumes "wf_server w"
  shows "ok (remove_all_listeners w) (\<lambda>w'. wf_server w' \<and> (\<forall>l. w_listeners w' l =
    (case w_listeners w l of None \<Rightarrow> None | Some x \<Rightarrow> if special x then Some x else None)))"
proof -
  have li: "listeners_inv w" using assms by (simp add: wf_server_def)
  have "ok (remove_all_listeners w) (\<lambda>w'. wf_server w' \<and> w_listeners w' = (\<lambda>l.
      if l \<in> set (w_listener_list w) \<and> (\<exists>x. w_listeners w l = Some x \<and> \<not> special x) then None else w_listeners w l))"
    unfolding remove_all_listeners_def by (rule remove_all_loop_ok [OF assms, where pre = "[]"]) simp_all
  then show ?thesis
    by (rule ok_mono) (use listenersD(2) [OF li] in \<open>auto split: option.split\<close>)
qed

lemma format_listeners_extends:
  "format_listeners ls None acc w = Inr s \<Longrightarrow> length acc \<le> length s"
proof (induction ls arbitrary: acc)
  case (Cons l ls)
  then show ?case by (fastforce simp: ebind_eq_Inr split: if_splits)
qed simp

lemma format_listeners_fits:
  assumes "format_listeners ls None acc w = Inr s" and "length s < cap" and "length acc \<le> length s"
  shows "format_listeners ls (Some (cap, cap - length acc)) acc w = Inr s"
  using assms
proof (induction ls arbitrary: acc)
  case (Cons l ls)
  from Cons.prems(1) obtain x where x: "get_listener l w = Inr x" by (auto simp: ebind_eq_Inr)
  show ?case
  proof (cases "special x")
    case True
    then show ?thesis using Cons x by simp
  next
    case False
    with Cons.prems(1) x obtain line where line: "format_listener x w = Inr line"
      "format_listeners ls None (acc @ line) w = Inr s" by (auto simp: ebind_eq_Inr)
    have pre: "length (acc @ line) \<le> length s" using format_listeners_extends [OF line(2)] .
    have "bounded_print cap (length acc) (cap - length acc) line = Inr (length line)"
      using pre Cons.prems(2) by (simp add: bounded_print_def)
    moreover have "size_sub (cap - length acc) (length line) = cap - length (acc @ line)"
      using pre Cons.prems(2) by (simp add: size_sub_def)
    moreover have "cap - length (acc @ line) \<noteq> 0" using pre Cons.prems(2) by simp
    ultimately show ?thesis
      using False x line(1) Cons.IH [OF line(2) Cons.prems(2) pre] by (simp add: Let_def)
  qed
qed simp

section \<open>On the running server\<close>

lemma sample_stream_device: "w_trans sample_stream 0 = Some (sample_transport\<lparr>t_disconnects := [Dis_remote 2]\<rparr>)"
  by (simp add: sample_stream_def)

theorem install_listener_refines_witness:
  "wf_server sample_stream \<and> ok (install_listener ''tcp:6000'' ''tcp:80'' (Some 0) True sample_stream) (\<lambda>(st, w').
     st = INSTALL_STATUS_OK \<longrightarrow> forwards w' ''tcp:6000'' = Some (''tcp:80'', Some 0))"
  using ok_mono [OF install_listener_refines [OF sample_stream_server sample_stream_device, of "''tcp:6000''" "''tcp:80''" True],
      of "\<lambda>(st, w'). st = INSTALL_STATUS_OK \<longrightarrow> forwards w' ''tcp:6000'' = Some (''tcp:80'', Some 0)"]
    sample_stream_server by auto

theorem forward_kill_roundtrip_witness:
  "ok (ebind (install_listener ''tcp:6000'' ''tcp:80'' (Some 0) False sample_stream) (\<lambda>(st, w).
      ebind (remove_listener ''tcp:6000'' w) (\<lambda>(r, w). Inr (st, r, w))))
    (\<lambda>(st, r, w'). wf_server w' \<and> forwards w' = (forwards sample_stream)(''tcp:6000'' := None) \<and>
       (st = INSTALL_STATUS_OK \<longrightarrow> r = 0))"
  by (rule forward_kill_roundtrip [OF sample_stream_server sample_stream_device])

theorem remove_all_listeners_clears_witness:
  "ok (remove_all_listeners sample_stream) (\<lambda>w'. wf_server w' \<and> w_listeners w' 0 = None)"
  using ok_mono [OF remove_all_listeners_clears [OF sample_stream_server], of "\<lambda>w'. wf_server w' \<and> w_listeners w' 0 = None"]
  by (simp add: sample_stream_def)

end
