(* ===== verification/Adb_Transport.thy ===== *)
theory Adb_Transport
  imports Adb_Listeners
begin

text \<open>
  Transports (transport.c, transport\_local.c, transport\_usb.c, and the list of USB handles of
  usb\_linux.c): registration and removal through the registration socket, the reference count
  of the two threads, kicking, the two threads themselves, and the table of emulators.

  A thread runs from its start to its end as one operation. It shares with the main thread the
  packets in the socket pair and what the locks protect.
\<close>

section \<open>The table of emulators\<close>

definition ADB_LOCAL_TRANSPORT_MAX :: nat where
  "ADB_LOCAL_TRANSPORT_MAX = 64"

definition lock_local_transports :: "world \<Rightarrow> err + world" where
  "lock_local_transports w =
     (if w_local_transports_lock w then Inl Deadlock else Inr (w\<lparr>w_local_transports_lock := True\<rparr>))"

definition unlock_local_transports :: "world \<Rightarrow> world" where
  "unlock_local_transports w = w\<lparr>w_local_transports_lock := False\<rparr>"

text \<open>\<open>find_emulator_transport_by_adb_port_locked\<close> dereferences every entry that is not null.\<close>

fun find_emulator_locked :: "addr option list \<Rightarrow> int \<Rightarrow> world \<Rightarrow> err + addr option" where
  "find_emulator_locked [] adb_port w = Inr None"
| "find_emulator_locked (None # ts) adb_port w = find_emulator_locked ts adb_port w"
| "find_emulator_locked (Some t # ts) adb_port w =
     ebind (get_trans t w) (\<lambda>x.
       if t_adb_port x = adb_port then Inr (Some t) else find_emulator_locked ts adb_port w)"

definition find_emulator_transport_by_adb_port :: "int \<Rightarrow> world \<Rightarrow> err + (addr option \<times> world)" where
  "find_emulator_transport_by_adb_port adb_port w =
     ebind (lock_local_transports w) (\<lambda>w.
     ebind (find_emulator_locked (w_local_transports w) adb_port w) (\<lambda>r.
       Inr (r, unlock_local_transports w)))"

fun first_free :: "addr option list \<Rightarrow> nat \<Rightarrow> int" where
  "first_free [] i = -1"
| "first_free (None # ts) i = int i"
| "first_free (Some t # ts) i = first_free ts (Suc i)"

definition get_available_local_transport_index :: "world \<Rightarrow> err + (int \<times> world)" where
  "get_available_local_transport_index w =
     ebind (lock_local_transports w) (\<lambda>w.
       Inr (first_free (w_local_transports w) 0, unlock_local_transports w))"

text \<open>The loop of \<open>remote_kick\<close> that clears the entry of a transport.\<close>

fun clear_first :: "addr \<Rightarrow> addr option list \<Rightarrow> addr option list" where
  "clear_first t [] = []"
| "clear_first t (x # xs) = (if x = Some t then None # xs else x # clear_first t xs)"

section \<open>Lists of transports\<close>

text \<open>\<open>t->next->prev = t->prev; t->prev->next = t->next\<close> on whichever list \<open>t\<close> is. A transport
  that is on neither still has the addresses of its old neighbours; what the two assignments do
  to them is not modelled.\<close>

definition unlink_transport :: "addr \<Rightarrow> world \<Rightarrow> err + world" where
  "unlink_transport t w =
     (if t \<in> set (w_transport_list w) then Inr (w\<lparr>w_transport_list := remove1 t (w_transport_list w)\<rparr>)
      else if t \<in> set (w_pending_list w) then Inr (w\<lparr>w_pending_list := remove1 t (w_pending_list w)\<rparr>)
      else Inl StaleUnlink)"

text \<open>\<open>next\<close> and \<open>prev\<close> of the transport found stay as they are, so the loop that looks for the
  handle ends there.\<close>

fun unregister_usb_loop :: "addr list \<Rightarrow> addr \<Rightarrow> world \<Rightarrow> err + world" where
  "unregister_usb_loop [] usb w = Inr w"
| "unregister_usb_loop (t # ts) usb w =
     ebind (get_trans t w) (\<lambda>x.
       if t_usb x = Some usb \<and> t_connection_state x = CS_NOPERM then unlink_transport t w
       else unregister_usb_loop ts usb w)"

definition unregister_usb_transport :: "addr \<Rightarrow> world \<Rightarrow> err + world" where
  "unregister_usb_transport usb w =
     ebind (lock_transports w) (\<lambda>w.
     ebind (unregister_usb_loop (w_transport_list w) usb w) (\<lambda>w. Inr (unlock_transports w)))"

section \<open>USB handles\<close>

definition get_usb :: "addr \<Rightarrow> world \<Rightarrow> err + usb_handle" where
  "get_usb h w = (case w_usbs w h of None \<Rightarrow> Inl UseAfterFree | Some u \<Rightarrow> Inr u)"

definition put_usb :: "addr \<Rightarrow> usb_handle \<Rightarrow> world \<Rightarrow> world" where
  "put_usb h u w = w\<lparr>w_usbs := (w_usbs w)(h \<mapsto> u)\<rparr>"

definition lock_usb :: "world \<Rightarrow> err + world" where
  "lock_usb w = (if w_usb_lock w then Inl Deadlock else Inr (w\<lparr>w_usb_lock := True\<rparr>))"

definition unlock_usb :: "world \<Rightarrow> world" where
  "unlock_usb w = w\<lparr>w_usb_lock := False\<rparr>"

text \<open>\<open>usb_kick\<close>; the signal to the thread that waits and the cancellation of its transfers are
  seen by that thread as the end of its wait with the handle dead.\<close>

definition usb_kick :: "addr \<Rightarrow> world \<Rightarrow> err + world" where
  "usb_kick h w =
     ebind (get_usb h w) (\<lambda>u.
       if uh_dead u then Inr w
       else let u = u\<lparr>uh_dead := True\<rparr> in
         if uh_writeable u then Inr (put_usb h (u\<lparr>uh_urb_in_busy := False, uh_urb_out_busy := False\<rparr>) w)
         else unregister_usb_transport h (put_usb h u w))"

definition usb_close :: "addr \<Rightarrow> world \<Rightarrow> err + world" where
  "usb_close h w =
     ebind (lock_usb w) (\<lambda>w.
     ebind (get_usb h w) (\<lambda>u.
       if h \<notin> set (w_handle_list w) then Inl StaleUnlink
       else let w = log_io (Close_fd (uh_desc u)) (w\<lparr>w_handle_list := remove1 h (w_handle_list w)\<rparr>);
                w = unlock_usb w
            in Inr (w\<lparr>w_usbs := (w_usbs w)(h := None)\<rparr>)))"

fun find_usb_name :: "addr list \<Rightarrow> string \<Rightarrow> world \<Rightarrow> err + addr option" where
  "find_usb_name [] dev_name w = Inr None"
| "find_usb_name (h # hs) dev_name w =
     ebind (get_usb h w) (\<lambda>u. if uh_fname u = dev_name then Inr (Some h) else find_usb_name hs dev_name w)"

definition known_device :: "string \<Rightarrow> world \<Rightarrow> err + (bool \<times> world)" where
  "known_device dev_name w =
     ebind (lock_usb w) (\<lambda>w.
     ebind (find_usb_name (w_handle_list w) dev_name w) (\<lambda>r.
       case r of
         None \<Rightarrow> Inr (False, unlock_usb w)
       | Some h \<Rightarrow> ebind (get_usb h w) (\<lambda>u. Inr (True, unlock_usb (put_usb h (u\<lparr>uh_mark := True\<rparr>) w)))))"

fun kick_unmarked :: "addr list \<Rightarrow> world \<Rightarrow> err + world" where
  "kick_unmarked [] w = Inr w"
| "kick_unmarked (h # hs) w =
     ebind (get_usb h w) (\<lambda>u.
     ebind (if uh_mark u then Inr (put_usb h (u\<lparr>uh_mark := False\<rparr>) w) else usb_kick h w) (kick_unmarked hs))"

definition kick_disconnected_devices :: "world \<Rightarrow> err + world" where
  "kick_disconnected_devices w =
     ebind (lock_usb w) (\<lambda>w.
     ebind (kick_unmarked (w_handle_list w) w) (\<lambda>w. Inr (unlock_usb w)))"

section \<open>Kicking and closing\<close>

definition local_remote_kick :: "addr \<Rightarrow> world \<Rightarrow> err + world" where
  "local_remote_kick t w =
     ebind (get_trans t w) (\<lambda>x.
       let w = w\<lparr>w_trans := (w_trans w)(t \<mapsto> x\<lparr>t_sfd := -1\<rparr>)\<rparr>;
           w = log_io (Close_fd (t_sfd x)) (log_io (Shutdown_fd (t_sfd x)) w)
       in if w_HOST w then
            ebind (lock_local_transports w) (\<lambda>w.
              Inr (unlock_local_transports (w\<lparr>w_local_transports := clear_first t (w_local_transports w)\<rparr>)))
          else Inr w)"

definition local_remote_close :: "addr \<Rightarrow> world \<Rightarrow> err + world" where
  "local_remote_close t w = ebind (get_trans t w) (\<lambda>x. Inr (log_io (Close_fd (t_fd x)) w))"

definition usb_remote_kick :: "addr \<Rightarrow> world \<Rightarrow> err + world" where
  "usb_remote_kick t w =
     ebind (get_trans t w) (\<lambda>x. case t_usb x of None \<Rightarrow> Inl NullDeref | Some h \<Rightarrow> usb_kick h w)"

definition usb_remote_close :: "addr \<Rightarrow> world \<Rightarrow> err + world" where
  "usb_remote_close t w =
     ebind (get_trans t w) (\<lambda>x. case t_usb x of
         None \<Rightarrow> Inl NullDeref
       | Some h \<Rightarrow> ebind (usb_close h w) (mod_trans t (\<lambda>x. x\<lparr>t_usb := None\<rparr>)))"

text \<open>\<open>t->kick(t)\<close> and \<open>t->close(t)\<close>: the pointers are set together with the type.\<close>

definition transport_kick :: "addr \<Rightarrow> world \<Rightarrow> err + world" where
  "transport_kick t w =
     ebind (get_trans t w) (\<lambda>x.
       case t_type x of
         kTransportUsb \<Rightarrow> usb_remote_kick t w
       | kTransportLocal \<Rightarrow> local_remote_kick t w
       | _ \<Rightarrow> Inl NullDeref)"

definition transport_close :: "addr \<Rightarrow> world \<Rightarrow> err + world" where
  "transport_close t w =
     ebind (get_trans t w) (\<lambda>x.
       case t_type x of
         kTransportUsb \<Rightarrow> usb_remote_close t w
       | kTransportLocal \<Rightarrow> local_remote_close t w
       | _ \<Rightarrow> Inl NullDeref)"

text \<open>\<open>if (!t->kicked) { t->kicked = 1; t->kick(t); }\<close>\<close>

definition kick_once :: "addr \<Rightarrow> world \<Rightarrow> err + world" where
  "kick_once t w =
     ebind (get_trans t w) (\<lambda>x.
       if t_kicked x then Inr w
       else ebind (mod_trans t (\<lambda>x. x\<lparr>t_kicked := True\<rparr>) w) (transport_kick t))"

definition kick_transport :: "addr \<Rightarrow> world \<Rightarrow> err + world" where
  "kick_transport t w =
     ebind (get_trans t w) (\<lambda>x.
       if t_kicked x then Inr w
       else
         ebind (lock_transports w) (\<lambda>w.
         ebind (get_trans t w) (\<lambda>x.
         let kicked = t_kicked x in
         ebind (if kicked then Inr w else mod_trans t (\<lambda>x. x\<lparr>t_kicked := True\<rparr>) w) (\<lambda>w.
         let w = unlock_transports w in
           if kicked then Inr w else transport_kick t w))))"

section \<open>The registration socket\<close>

definition sizeof_tmsg :: nat where
  "sizeof_tmsg = 16"

text \<open>\<open>transport_write_action\<close> of the message \<open>m\<close>, which then is in the socket.\<close>

definition transport_write_action :: "addr \<times> nat \<Rightarrow> world \<Rightarrow> err + (bool \<times> world)" where
  "transport_write_action m w =
     (let fd = w_registration_send w in
      ebind (write_ptr_loop sizeof_tmsg (w_ws w fd)) (\<lambda>(r, ws).
        Inr (r, w\<lparr>w_ws := (w_ws w)(fd := ws), w_tmsgs := (if r then w_tmsgs w @ [m] else w_tmsgs w)\<rparr>)))"

definition register_transport :: "addr \<Rightarrow> world \<Rightarrow> err + world" where
  "register_transport t w =
     ebind (transport_write_action (t, 1) w) (\<lambda>(r, w).
       if r then Inr w else Inl (Fatal (''cannot write transport registration socket'' @ [CHR 0x0A])))"

definition remove_transport :: "addr \<Rightarrow> world \<Rightarrow> err + world" where
  "remove_transport t w =
     ebind (transport_write_action (t, 0) w) (\<lambda>(r, w).
       if r then Inr w else Inl (Fatal (''cannot write transport registration socket'' @ [CHR 0x0A])))"

definition transport_unref_locked :: "addr \<Rightarrow> world \<Rightarrow> err + world" where
  "transport_unref_locked t w =
     ebind (mod_trans t (\<lambda>x. x\<lparr>t_ref_count := t_ref_count x - 1\<rparr>) w) (\<lambda>w.
     ebind (get_trans t w) (\<lambda>x.
       if t_ref_count x = 0 then
         ebind (kick_once t w) (\<lambda>w.
         ebind (transport_close t w) (remove_transport t))
       else Inr w))"

definition transport_unref :: "addr \<Rightarrow> world \<Rightarrow> err + world" where
  "transport_unref t w =
     ebind (lock_transports w) (\<lambda>w.
     ebind (transport_unref_locked t w) (\<lambda>w. Inr (unlock_transports w)))"

text \<open>The removal of a transport by the main thread.\<close>

definition free_transport :: "addr \<Rightarrow> world \<Rightarrow> world" where
  "free_transport t w =
     w\<lparr>w_trans := (w_trans w)(t := None), w_fdev := fde_free (FTransport t) (w_fdev w)\<rparr>"

definition remove_registered :: "enqueue_op \<Rightarrow> addr \<Rightarrow> world \<Rightarrow> err + world" where
  "remove_registered smart t w =
     ebind (get_trans t w) (\<lambda>x.
     ebind (on_fdev (fdevent_remove (FTransport t)) w) (\<lambda>w.
     ebind (lock_transports (log_io (Close_fd (t_fd x)) w)) (\<lambda>w.
     ebind (unlink_transport t w) (\<lambda>w.
     ebind (run_transport_disconnects t (unlock_transports w)) (\<lambda>w.
       update_transports smart (free_transport t w))))))"

text \<open>\<open>adb_socketpair\<close>: two new descriptors, or none.\<close>

definition adb_socketpair :: "world \<Rightarrow> err + ((int \<times> int) option \<times> world)" where
  "adb_socketpair w =
     ebind (open_fd w) (\<lambda>(s0, w).
       case s0 of
         None \<Rightarrow> Inr (None, w)
       | Some s0 \<Rightarrow>
           ebind (open_fd w) (\<lambda>(s1, w).
             case s1 of
               None \<Rightarrow> Inr (None, w)
             | Some s1 \<Rightarrow> if s1 = s0 then Inl Blocked else Inr (Some (s0, s1), w)))"

definition adb_thread_create :: "world \<Rightarrow> err + (bool \<times> world)" where
  "adb_thread_create w =
     (case w_newthreads w of [] \<Rightarrow> Inl Blocked | r # rs \<Rightarrow> Inr (r, w\<lparr>w_newthreads := rs\<rparr>))"

text \<open>A transport whose device can be used gets its socket pair, its event and its threads.\<close>

definition start_transport :: "addr \<Rightarrow> world \<Rightarrow> err + world" where
  "start_transport t w =
     ebind (mod_trans t (\<lambda>x. x\<lparr>t_ref_count := 2\<rparr>) w) (\<lambda>w.
     ebind (adb_socketpair w) (\<lambda>(s, w).
       case s of
         None \<Rightarrow> Inl (Fatal ''cannot open transport socketpair'')
       | Some (s0, s1) \<Rightarrow>
           ebind (mod_trans t (\<lambda>x. x\<lparr>t_transport_socket := s0, t_fd := s1\<rparr>) w) (\<lambda>w.
           ebind (on_fdev (fdevent_install (FTransport t) s0 Transport_socket_events) w) (\<lambda>w.
           ebind (on_fdev (fdevent_set (FTransport t) FDE_READ) w) (\<lambda>w.
           ebind (adb_thread_create w) (\<lambda>(r, w).
             if \<not> r then Inl (Fatal ''cannot create input thread'')
             else ebind (adb_thread_create w) (\<lambda>(r, w).
               if \<not> r then Inl (Fatal ''cannot create output thread'') else Inr w)))))))"

definition add_registered :: "enqueue_op \<Rightarrow> addr \<Rightarrow> world \<Rightarrow> err + world" where
  "add_registered smart t w =
     ebind (get_trans t w) (\<lambda>x.
     ebind (if t_connection_state x \<noteq> CS_NOPERM then start_transport t w else Inr w) (\<lambda>w.
     ebind (lock_transports w) (\<lambda>w.
     ebind (unlink_transport t w) (\<lambda>w.
     let w = unlock_transports (w\<lparr>w_transport_list := w_transport_list w @ [t]\<rparr>) in
     ebind (mod_trans t (\<lambda>x. x\<lparr>t_disconnects := []\<rparr>) w) (update_transports smart)))))"

definition transport_read_action :: "rres list \<Rightarrow> err + (bytes option \<times> rres list)" where
  "transport_read_action rs = readx sizeof_tmsg rs"

definition transport_registration_func :: "enqueue_op \<Rightarrow> int \<Rightarrow> u16 \<Rightarrow> world \<Rightarrow> err + world" where
  "transport_registration_func smart fd ev w =
     (if ev AND FDE_READ = 0 then Inr w
      else ebind (transport_read_action (w_rs w fd)) (\<lambda>(r, rs).
        let w = w\<lparr>w_rs := (w_rs w)(fd := rs)\<rparr> in
        case r of
          None \<Rightarrow> Inl (Fatal ''cannot read transport registration socket'')
        | Some _ \<Rightarrow>
            (case w_tmsgs w of
               [] \<Rightarrow> Inl Blocked
             | (t, action) # ms \<Rightarrow>
                 let w = w\<lparr>w_tmsgs := ms\<rparr> in
                 if action = 0 then remove_registered smart t w else add_registered smart t w)))"

definition init_transport_registration :: "world \<Rightarrow> err + world" where
  "init_transport_registration w =
     ebind (adb_socketpair w) (\<lambda>(s, w).
       case s of
         None \<Rightarrow> Inl (Fatal ''cannot open transport registration socketpair'')
       | Some (s0, s1) \<Rightarrow>
           ebind (on_fdev (fdevent_install FRegistration s1 Transport_registration_func) (w\<lparr>w_registration_send := s0\<rparr>))
             (on_fdev (fdevent_set FRegistration FDE_READ)))"

section \<open>New transports\<close>

definition blank_transport :: atransport where
  "blank_transport = \<lparr>t_fd = 0, t_transport_socket = 0, t_ref_count = 0, t_sync_token = 0,
     t_connection_state = 0, t_online = False, t_type = kTransportUsb, t_usb = None, t_sfd = 0,
     t_serial = None, t_product = None, t_model = None, t_device = None, t_devpath = None,
     t_adb_port = 0, t_kicked = False, t_disconnects = [], t_key = None, t_token = [],
     t_failed_auth_attempts = 0, t_to_remote = [], t_from_remote = []\<rparr>"

definition new_transport :: "atransport \<Rightarrow> world \<Rightarrow> addr \<times> world" where
  "new_transport x w = (w_next w, w\<lparr>w_trans := (w_trans w)(w_next w \<mapsto> x), w_next := Suc (w_next w)\<rparr>)"

text \<open>\<open>init_socket_transport\<close>: the result, and the new entry in the table of emulators.\<close>

definition init_socket_transport :: "addr \<Rightarrow> int \<Rightarrow> int \<Rightarrow> bool \<Rightarrow> world \<Rightarrow> err + (int \<times> world)" where
  "init_socket_transport t s adb_port loc w =
     ebind (mod_trans t (\<lambda>x. x\<lparr>t_sfd := s, t_sync_token := 1, t_connection_state := CS_OFFLINE,
              t_type := kTransportLocal, t_adb_port := 0\<rparr>) w) (\<lambda>w.
       if w_HOST w \<and> loc then
         ebind (lock_local_transports w) (\<lambda>w.
         ebind (mod_trans t (\<lambda>x. x\<lparr>t_adb_port := adb_port\<rparr>) w) (\<lambda>w.
         ebind (find_emulator_locked (w_local_transports w) adb_port w) (\<lambda>existing.
         let index = first_free (w_local_transports w) 0 in
           if existing \<noteq> None then Inr (-1, unlock_local_transports w)
           else if index < 0 then Inr (-1, unlock_local_transports w)
           else Inr (0, unlock_local_transports
                  (w\<lparr>w_local_transports := (w_local_transports w)[nat index := Some t]\<rparr>)))))
       else Inr (0, w))"

fun serial_listed :: "addr list \<Rightarrow> string \<Rightarrow> world \<Rightarrow> err + bool" where
  "serial_listed [] serial w = Inr False"
| "serial_listed (n # ns) serial w =
     ebind (get_trans n w) (\<lambda>x. if t_serial x = Some serial then Inr True else serial_listed ns serial w)"

definition free_new_transport :: "addr \<Rightarrow> world \<Rightarrow> world" where
  "free_new_transport t w = w\<lparr>w_trans := (w_trans w)(t := None)\<rparr>"

text \<open>Every caller gives a serial number, so the one made from the address is not needed.\<close>

definition register_socket_transport :: "int \<Rightarrow> string \<Rightarrow> int \<Rightarrow> bool \<Rightarrow> world \<Rightarrow> err + (int \<times> world)" where
  "register_socket_transport s serial port loc w =
     (let (t, w) = new_transport blank_transport w in
      ebind (init_socket_transport t s port loc w) (\<lambda>(r, w).
        if r < 0 then Inr (-1, free_new_transport t w)
        else
          ebind (lock_transports w) (\<lambda>w.
          ebind (serial_listed (w_pending_list w) serial w) (\<lambda>found.
            if found then Inr (-1, free_new_transport t (unlock_transports w))
            else
              ebind (serial_listed (w_transport_list w) serial w) (\<lambda>found.
                if found then Inr (-1, free_new_transport t (unlock_transports w))
                else
                  ebind (mod_trans t (\<lambda>x. x\<lparr>t_serial := Some serial\<rparr>)
                           (w\<lparr>w_pending_list := w_pending_list w @ [t]\<rparr>)) (\<lambda>w.
                  ebind (register_transport t (unlock_transports w)) (\<lambda>w. Inr (0, w))))))))"

definition init_usb_transport :: "addr \<Rightarrow> int \<Rightarrow> atransport \<Rightarrow> atransport" where
  "init_usb_transport h state x =
     x\<lparr>t_sync_token := 1, t_connection_state := state, t_type := kTransportUsb, t_usb := Some h\<rparr>"

text \<open>\<open>init_usb_transport\<close> also sets \<open>HOST\<close>.\<close>

definition register_usb_transport :: "addr \<Rightarrow> string option \<Rightarrow> string option \<Rightarrow> bool \<Rightarrow> world \<Rightarrow> err + world" where
  "register_usb_transport usb serial devpath writeable w =
     (let x = init_usb_transport usb (if writeable then CS_OFFLINE else CS_NOPERM) blank_transport;
          (t, w) = new_transport (x\<lparr>t_serial := serial, t_devpath := devpath\<rparr>) (w\<lparr>w_HOST := True\<rparr>)
      in ebind (lock_transports w) (\<lambda>w.
           register_transport t (unlock_transports (w\<lparr>w_pending_list := w_pending_list w @ [t]\<rparr>))))"

text \<open>The opening of a device node: read and write, or else only to read. \<open>claim\<close> says whether the
  interface could be claimed.\<close>

definition open_usb :: "bool \<Rightarrow> world \<Rightarrow> err + ((int \<times> bool) option \<times> world)" where
  "open_usb claim w =
     ebind (open_fd w) (\<lambda>(fd, w).
       case fd of
         Some fd \<Rightarrow> Inr (if claim then (Some (fd, True), w) else (None, log_io (Close_fd fd) w))
       | None \<Rightarrow>
           ebind (open_fd w) (\<lambda>(fd, w). Inr (map_option (\<lambda>fd. (fd, False)) fd, w)))"

text \<open>\<open>kern\<close> is the kernel's side of the new handle, \<open>langs\<close> and \<open>ask\<close> the answers to the
  requests for the serial number.\<close>

definition register_device :: "usb_handle \<Rightarrow> bool \<Rightarrow> bytes option \<Rightarrow> (nat \<Rightarrow> bytes option) \<Rightarrow>
    string \<Rightarrow> string option \<Rightarrow> usb_match \<Rightarrow> world \<Rightarrow> err + world" where
  "register_device kern claim langs ask dev_name devpath m w =
     ebind (lock_usb w) (\<lambda>w.
     ebind (find_usb_name (w_handle_list w) dev_name w) (\<lambda>known.
     let w = unlock_usb w in
     if known \<noteq> None then Inr w
     else
       ebind (open_usb claim w) (\<lambda>(r, w).
         case r of
           None \<Rightarrow> Inr w
         | Some (fd, writeable) \<Rightarrow>
             let usb = w_next w;
                 u = kern\<lparr>uh_fname := dev_name, uh_desc := fd, uh_ep_in := um_ep_in m, uh_ep_out := um_ep_out m,
                       uh_zero_mask := um_zero_mask m, uh_writeable := writeable, uh_urb_in_busy := False,
                       uh_urb_out_busy := False, uh_dead := False, uh_mark := True\<rparr>;
                 serial = read_serial (um_serial_index m) langs ask;
                 w = (put_usb usb u w)\<lparr>w_next := Suc (w_next w)\<rparr>
             in ebind (lock_usb w) (\<lambda>w.
                  register_usb_transport usb (Some serial) devpath writeable
                    (unlock_usb (w\<lparr>w_handle_list := w_handle_list w @ [usb]\<rparr>))))))"

text \<open>What the directories under \<open>/dev/bus/usb\<close> hold, and what a device node gives: \<open>dn_desc\<close> is
  \<open>None\<close> when the node cannot be opened, and otherwise the result of the read; \<open>dn_link\<close> is the
  target of the link in \<open>/sys\<close>. The other fields are the arguments of \<open>register_device\<close>.\<close>

record dev_node =
  dn_name :: string
  dn_desc :: "bytes option option"
  dn_link :: "string option"
  dn_kern :: usb_handle
  dn_claim :: bool
  dn_langs :: "bytes option"
  dn_ask :: "nat \<Rightarrow> bytes option"

fun find_devices :: "nat \<Rightarrow> int list \<Rightarrow> string \<Rightarrow> dev_node list \<Rightarrow> world \<Rightarrow> err + world" where
  "find_devices fuel vendorIds busname [] w = Inr w"
| "find_devices fuel vendorIds busname (n # ns) w =
     (if badname (dn_name n) then find_devices fuel vendorIds busname ns w
      else let devname = snprintf 32 (busname @ ''/'' @ dn_name n) in
        ebind (known_device devname w) (\<lambda>(known, w).
          if known then find_devices fuel vendorIds busname ns w
          else case dn_desc n of
            None \<Rightarrow> find_devices fuel vendorIds busname ns w
          | Some r \<Rightarrow>
              ebind (scan_device fuel vendorIds r) (\<lambda>m.
              ebind (case m of
                  None \<Rightarrow> Inr w
                | Some m \<Rightarrow> register_device (dn_kern n) (dn_claim n) (dn_langs n) (dn_ask n) devname (usb_devpath (dn_link n)) m w)
                (find_devices fuel vendorIds busname ns))))"

text \<open>A bus directory that cannot be opened is \<open>None\<close>.\<close>

fun find_usb_device :: "nat \<Rightarrow> int list \<Rightarrow> string \<Rightarrow> (string \<times> dev_node list option) list \<Rightarrow> world \<Rightarrow> err + world" where
  "find_usb_device fuel vendorIds base [] w = Inr w"
| "find_usb_device fuel vendorIds base ((name, devs) # bs) w =
     (if badname name then find_usb_device fuel vendorIds base bs w
      else case devs of
        None \<Rightarrow> find_usb_device fuel vendorIds base bs w
      | Some ns \<Rightarrow>
          ebind (find_devices fuel vendorIds (snprintf 32 (base @ ''/'' @ name)) ns w) (find_usb_device fuel vendorIds base bs))"

text \<open>One round of \<open>device_poll_thread\<close>.\<close>

definition device_poll :: "nat \<Rightarrow> int list \<Rightarrow> (string \<times> dev_node list option) list \<Rightarrow> world \<Rightarrow> err + world" where
  "device_poll fuel vendorIds bs w =
     ebind (find_usb_device fuel vendorIds ''/dev/bus/usb'' bs w) kick_disconnected_devices"

section \<open>Lookup and unregistration\<close>

fun find_transport_in :: "addr list \<Rightarrow> string \<Rightarrow> world \<Rightarrow> err + addr option" where
  "find_transport_in [] serial w = Inr None"
| "find_transport_in (t # ts) serial w =
     ebind (get_trans t w) (\<lambda>x. if t_serial x = Some serial then Inr (Some t) else find_transport_in ts serial w)"

definition find_transport :: "string \<Rightarrow> world \<Rightarrow> err + (addr option \<times> world)" where
  "find_transport serial w =
     ebind (lock_transports w) (\<lambda>w.
     ebind (find_transport_in (w_transport_list w) serial w) (\<lambda>r. Inr (r, unlock_transports w)))"

definition unregister_transport :: "addr \<Rightarrow> world \<Rightarrow> err + world" where
  "unregister_transport t w =
     ebind (lock_transports w) (\<lambda>w.
     ebind (get_trans t w) (\<lambda>_.
     ebind (unlink_transport t w) (\<lambda>w.
     ebind (kick_transport t (unlock_transports w)) (transport_unref t))))"

text \<open>\<open>unregister_all_tcp_transports\<close> reads \<open>next\<close> before it unlinks a transport, and nothing it
  calls changes the list otherwise.\<close>

fun unregister_tcp_loop :: "addr list \<Rightarrow> world \<Rightarrow> err + world" where
  "unregister_tcp_loop [] w = Inr w"
| "unregister_tcp_loop (t # ts) w =
     ebind (get_trans t w) (\<lambda>x.
       if t_type x = kTransportLocal \<and> t_adb_port x = 0 then
         ebind (unlink_transport t w) (\<lambda>w.
         ebind (kick_once t w) (\<lambda>w.
         ebind (transport_unref_locked t w) (unregister_tcp_loop ts)))
       else unregister_tcp_loop ts w)"

definition unregister_all_tcp_transports :: "world \<Rightarrow> err + world" where
  "unregister_all_tcp_transports w =
     ebind (lock_transports w) (\<lambda>w.
     ebind (unregister_tcp_loop (w_transport_list w) w) (\<lambda>w. Inr (unlock_transports w)))"

fun close_usb_loop :: "addr list \<Rightarrow> world \<Rightarrow> err + world" where
  "close_usb_loop [] w = Inr w"
| "close_usb_loop (t # ts) w = ebind (kick_once t w) (close_usb_loop ts)"

definition close_usb_devices :: "world \<Rightarrow> err + world" where
  "close_usb_devices w =
     ebind (lock_transports w) (\<lambda>w.
     ebind (close_usb_loop (w_transport_list w) w) (\<lambda>w. Inr (unlock_transports w)))"

section \<open>The threads of a transport\<close>

definition read_from_remote :: "addr \<Rightarrow> world \<Rightarrow> err + (apacket option \<times> world)" where
  "read_from_remote t w =
     ebind (get_trans t w) (\<lambda>x.
       case t_type x of
         kTransportLocal \<Rightarrow>
           ebind (local_remote_read get_apacket (w_rs w (t_sfd x))) (\<lambda>(r, rs).
             Inr (r, w\<lparr>w_rs := (w_rs w)(t_sfd x := rs)\<rparr>))
       | kTransportUsb \<Rightarrow>
           (case t_usb x of
              None \<Rightarrow> Inl NullDeref
            | Some h \<Rightarrow>
                ebind (get_usb h w) (\<lambda>u.
                ebind (usb_remote_read get_apacket u) (\<lambda>(r, u). Inr (r, put_usb h u w))))
       | _ \<Rightarrow> Inl NullDeref)"

definition write_to_remote :: "apacket \<Rightarrow> addr \<Rightarrow> world \<Rightarrow> err + world" where
  "write_to_remote p t w =
     ebind (get_trans t w) (\<lambda>x.
       case t_type x of
         kTransportLocal \<Rightarrow>
           (let fd = t_sfd x in
            ebind (local_remote_write p (w_ws w fd)) (\<lambda>(_, acc, ws).
              Inr (w\<lparr>w_ws := (w_ws w)(fd := ws), w_out := (w_out w)(fd := w_out w fd @ acc)\<rparr>)))
       | kTransportUsb \<Rightarrow>
           (case t_usb x of
              None \<Rightarrow> Inl NullDeref
            | Some h \<Rightarrow>
                ebind (get_usb h w) (\<lambda>u.
                ebind (usb_remote_write p u) (\<lambda>(_, u). Inr (put_usb h u w))))
       | _ \<Rightarrow> Inl NullDeref)"

text \<open>\<open>write_packet(t->fd, ...)\<close>: the packet is then in the socket pair, on its way to the main
  thread.\<close>

definition post_packet :: "addr \<Rightarrow> apacket \<Rightarrow> world \<Rightarrow> err + (bool \<times> world)" where
  "post_packet t p w =
     ebind (get_trans t w) (\<lambda>x.
     ebind (write_packet (w_ws w (t_fd x))) (\<lambda>(r, ws).
       let w = w\<lparr>w_ws := (w_ws w)(t_fd x := ws)\<rparr> in
       if r then ebind (mod_trans t (\<lambda>x. x\<lparr>t_from_remote := t_from_remote x @ [p]\<rparr>) w) (\<lambda>w. Inr (True, w))
       else Inr (False, w)))"

definition sync_packet :: "u32 \<Rightarrow> u32 \<Rightarrow> apacket" where
  "sync_packet arg0 arg1 =
     get_apacket\<lparr>p_msg := zero_msg\<lparr>m_command := A_SYNC, m_arg0 := arg0, m_arg1 := arg1,
       m_magic := A_SYNC XOR 0xffffffff\<rparr>\<rparr>"

text \<open>The data pump: packets are read and posted until a read fails (\<open>True\<close>) or a post fails
  (\<open>False\<close>, the jump to the end). The fuel bounds the number of packets.\<close>

fun output_loop :: "nat \<Rightarrow> ('s \<Rightarrow> err + (apacket option \<times> 's)) \<Rightarrow> (apacket \<Rightarrow> 's \<Rightarrow> err + (bool \<times> 's)) \<Rightarrow>
    's \<Rightarrow> err + (bool \<times> 's)" where
  "output_loop 0 rd post s = Inl OutOfFuel"
| "output_loop (Suc k) rd post s =
     ebind (rd s) (\<lambda>(p, s).
       case p of
         None \<Rightarrow> Inr (True, s)
       | Some p \<Rightarrow> ebind (post p s) (\<lambda>(r, s). if r then output_loop k rd post s else Inr (False, s)))"

definition output_thread :: "nat \<Rightarrow> addr \<Rightarrow> world \<Rightarrow> err + world" where
  "output_thread fuel t w =
     ebind (mod_trans t (\<lambda>x. x\<lparr>t_sync_token := t_sync_token x + 1\<rparr>) w) (\<lambda>w.
     ebind (get_trans t w) (\<lambda>x.
     ebind (post_packet t (sync_packet 1 (t_sync_token x)) w) (\<lambda>(r, w).
     ebind (if r then output_loop fuel (read_from_remote t) (post_packet t) w else Inr (False, w)) (\<lambda>(r, w).
     ebind (if r then ebind (post_packet t (sync_packet 0 0) w) (\<lambda>(_, w). Inr w) else Inr w) (\<lambda>w.
     ebind (kick_transport t w) (transport_unref t))))))"

text \<open>The loop of the input thread. Each round takes a packet out of the socket pair.\<close>

fun input_loop :: "nat \<Rightarrow> bool \<Rightarrow> addr \<Rightarrow> world \<Rightarrow> err + world" where
  "input_loop 0 act t w = Inl OutOfFuel"
| "input_loop (Suc k) act t w =
     ebind (get_trans t w) (\<lambda>x.
     ebind (readx ptr_size (w_rs w (t_fd x))) (\<lambda>(r, rs).
     let w = w\<lparr>w_rs := (w_rs w)(t_fd x := rs)\<rparr> in
     case r of
       None \<Rightarrow> Inr w
     | Some _ \<Rightarrow>
         (case t_to_remote x of
            [] \<Rightarrow> Inl Blocked
          | p # ps \<Rightarrow>
              ebind (mod_trans t (\<lambda>x. x\<lparr>t_to_remote := ps\<rparr>) w) (\<lambda>w.
              if m_command (p_msg p) = A_SYNC then
                if m_arg0 (p_msg p) = 0 then Inr w
                else input_loop k (act \<or> m_arg1 (p_msg p) = t_sync_token x) t w
              else if act then ebind (write_to_remote p t w) (input_loop k act t)
              else input_loop k act t w))))"

definition input_thread :: "addr \<Rightarrow> world \<Rightarrow> err + world" where
  "input_thread t w =
     ebind (get_trans t w) (\<lambda>x.
     ebind (input_loop (Suc (length (t_to_remote x))) False t w) (\<lambda>w.
     ebind (close_all_sockets t w) (\<lambda>w.
     ebind (kick_transport t w) (transport_unref t))))"

section \<open>Emulators\<close>

text \<open>\<open>local_connect_arbitrary_ports\<close>: \<open>host\<close> says whether \<open>ADBHOST\<close> is set; each attempt to
  connect is a call that opens a descriptor.\<close>

definition local_connect_arbitrary_ports :: "bool \<Rightarrow> int \<Rightarrow> int \<Rightarrow> world \<Rightarrow> err + (int \<times> world)" where
  "local_connect_arbitrary_ports host console_port adb_port w =
     ebind (if host then open_fd w else Inr (None, w)) (\<lambda>(fd, w).
     ebind (case fd of Some fd \<Rightarrow> Inr (Some fd, w) | None \<Rightarrow> open_fd w) (\<lambda>(fd, w).
       case fd of
         None \<Rightarrow> Inr (-1, w)
       | Some fd \<Rightarrow>
           ebind (register_socket_transport fd (snprintf 64 (''emulator-'' @ show_int console_port)) adb_port True w)
             (\<lambda>(_, w). Inr (0, w))))"

definition local_connect :: "bool \<Rightarrow> int \<Rightarrow> world \<Rightarrow> err + (int \<times> world)" where
  "local_connect host port w = local_connect_arbitrary_ports host (port - 1) port w"

definition DEFAULT_ADB_LOCAL_TRANSPORT_PORT :: int where
  "DEFAULT_ADB_LOCAL_TRANSPORT_PORT = 5555"

fun client_socket_loop :: "nat \<Rightarrow> bool \<Rightarrow> int \<Rightarrow> world \<Rightarrow> err + world" where
  "client_socket_loop 0 host port w = Inr w"
| "client_socket_loop (Suc count) host port w =
     ebind (local_connect host port w) (\<lambda>(_, w). client_socket_loop count host (port + 2) w)"

definition client_socket_thread :: "bool \<Rightarrow> world \<Rightarrow> err + world" where
  "client_socket_thread host w =
     client_socket_loop ADB_LOCAL_TRANSPORT_MAX host DEFAULT_ADB_LOCAL_TRANSPORT_PORT w"

section \<open>The data pump\<close>

text \<open>What the output thread relies on: a source of packets, and a way to post them that has room
  for so many. The client lemma says that the pump hands on every packet, in order.\<close>

locale packet_pump = packet_source rp pending_bytes good
  for rp :: "'s \<Rightarrow> err + (apacket option \<times> 's)" and pending_bytes :: "'s \<Rightarrow> bytes" and good :: "'s \<Rightarrow> bool" +
  fixes post :: "apacket \<Rightarrow> 's \<Rightarrow> err + (bool \<times> 's)"
    and posted :: "'s \<Rightarrow> apacket list"
    and room :: "'s \<Rightarrow> nat"
  assumes post_law: "good s \<Longrightarrow> 0 < room s \<Longrightarrow> \<exists>s'. post p s = Inr (True, s') \<and> good s' \<and>
      pending_bytes s' = pending_bytes s \<and> posted s' = posted s @ [p] \<and> room s' = room s - 1"
    and rp_frame: "rp s = Inr (r, s') \<Longrightarrow> posted s' = posted s \<and> room s' = room s"
begin

lemma pump:
  assumes "good s" and "\<forall>p \<in> set ps. valid_packet p" and "pending_bytes s = concat (map wire ps) @ rest"
    and "length ps \<le> room s"
  shows "\<exists>s'. output_loop (length ps + k) rp post s = output_loop k rp post s' \<and> good s' \<and>
    pending_bytes s' = rest \<and> posted s' = posted s @ map received ps \<and> room s' = room s - length ps"
  using assms
proof (induction ps arbitrary: s)
  case Nil
  then show ?case by (intro exI [of _ s]) simp
next
  case (Cons p ps)
  obtain s1 where s1: "rp s = Inr (Some (received p), s1)" "good s1" "pending_bytes s1 = concat (map wire ps) @ rest"
    using rp_packet [OF Cons.prems(1), of p "concat (map wire ps) @ rest"] Cons.prems by auto
  have f: "posted s1 = posted s" "room s1 = room s" using rp_frame [OF s1(1)] by auto
  then obtain s2 where s2: "post (received p) s1 = Inr (True, s2)" "good s2" "pending_bytes s2 = concat (map wire ps) @ rest"
      "posted s2 = posted s @ [received p]" "room s2 = room s - 1"
    using post_law [OF s1(2), of "received p"] Cons.prems(4) s1(3) by auto
  have le: "length ps \<le> room s2" using Cons.prems(4) s2(5) by simp
  obtain s' where "output_loop (length ps + k) rp post s2 = output_loop k rp post s'" "good s'" "pending_bytes s' = rest"
      "posted s' = posted s2 @ map received ps" "room s' = room s2 - length ps"
    using Cons.IH [OF s2(2) _ s2(3) le] Cons.prems(2) by auto
  then show ?case using s1(1) s2 by (intro exI [of _ s']) simp
qed

end

text \<open>A connection that delivers its bytes and then ends.\<close>

definition until_eof :: "rres list \<Rightarrow> bool" where
  "until_eof rs \<longleftrightarrow> (\<exists>rs0. rs = rs0 @ [RData []] \<and> healthy rs0)"

lemma readx_append: "readx n rs = Inr (Some bs, rs') \<Longrightarrow> readx n (rs @ tail) = Inr (Some bs, rs' @ tail)"
  by (induction n rs arbitrary: bs rs' rule: readx.induct) (auto simp: ebind_eq_Inr split: if_splits)

lemma stream_append [simp]: "stream (xs @ ys) = stream xs @ stream ys"
  by (induction xs rule: stream.induct) auto

lemma local_remote_read_append:
  assumes "local_remote_read p rs = Inr (Some q, rs')"
  shows "local_remote_read p (rs @ tail) = Inr (Some q, rs' @ tail)"
proof -
  obtain h s1 where h: "readx sizeof_amessage rs = Inr (Some h, s1)"
    using assms by (auto simp: local_remote_read_def ebind_eq_Inr split: option.splits)
  let ?p = "p\<lparr>p_msg := dec_msg h\<rparr>"
  have c: "check_header ?p = 0"
    using assms h by (auto simp: local_remote_read_def Let_def split: if_splits)
  obtain d s2 where d: "readx_data (unat (m_data_length (p_msg ?p))) s1 = Inr (Some d, s2)"
    using assms h c by (auto simp: local_remote_read_def Let_def ebind_eq_Inr split: option.splits)
  then have "readx_data (unat (m_data_length (p_msg ?p))) (s1 @ tail) = Inr (Some d, s2 @ tail)"
    by (auto simp: readx_data_def readx_append split: if_splits)
  moreover have "s2 = rs'" using assms h c d by (auto simp: local_remote_read_def Let_def ebind_eq_Inr)
  ultimately show ?thesis using assms h c d readx_append [OF h, of tail]
    by (auto simp: local_remote_read_def Let_def ebind_eq_Inr)
qed

lemma until_eof_packet:
  assumes "until_eof rs" and "valid_packet p" and "stream rs = wire p @ rest"
  shows "\<exists>rs'. local_remote_read get_apacket rs = Inr (Some (received p), rs') \<and> until_eof rs' \<and> stream rs' = rest"
proof -
  obtain rs0 where rs0: "rs = rs0 @ [RData []]" "healthy rs0" using assms(1) by (auto simp: until_eof_def)
  then obtain rs1 where rs1: "local_remote_read get_apacket rs0 = Inr (Some (received p), rs1)" "healthy rs1" "stream rs1 = rest"
    using local_remote_read_packet [OF rs0(2) assms(2), of rest] assms(3) by auto
  then have "local_remote_read get_apacket rs = Inr (Some (received p), rs1 @ [RData []])"
    unfolding rs0(1) by (intro local_remote_read_append)
  then show ?thesis using rs1 by (auto simp: until_eof_def)
qed

lemma readx_eof: "healthy rs0 \<Longrightarrow> stream rs0 = [] \<Longrightarrow> 0 < n \<Longrightarrow> readx n (rs0 @ [RData []]) = Inr (None, [])"
  by (induction rs0 rule: healthy.induct) auto

lemma until_eof_end:
  assumes "until_eof rs" and "stream rs = []"
  shows "local_remote_read get_apacket rs = Inr (None, [])"
  using assms by (auto simp: until_eof_def local_remote_read_def readx_eof sizeof_amessage_def)

fun write_room :: "wres list \<Rightarrow> nat" where
  "write_room (WOk n # ws) = (if ptr_size \<le> n then Suc (write_room ws) else 0)"
| "write_room _ = 0"

lemma write_packet_room:
  "0 < write_room ws \<Longrightarrow> \<exists>ws'. write_packet ws = Inr (True, ws') \<and> write_room ws' = write_room ws - 1"
  by (cases ws rule: write_room.cases; cases "tl ws" rule: write_room.cases)
     (auto simp: write_packet_def ptr_size_def split: if_splits)

definition tcp_good :: "addr \<Rightarrow> world \<Rightarrow> bool" where
  "tcp_good t w \<longleftrightarrow> (\<exists>x. w_trans w t = Some x \<and> t_type x = kTransportLocal \<and> until_eof (w_rs w (t_sfd x)))"

definition tcp_pending :: "addr \<Rightarrow> world \<Rightarrow> bytes" where
  "tcp_pending t w = stream (w_rs w (t_sfd (the (w_trans w t))))"

definition usb_ready :: "addr \<Rightarrow> world \<Rightarrow> bool" where
  "usb_ready t w \<longleftrightarrow> (\<exists>x h u. w_trans w t = Some x \<and> t_type x = kTransportUsb \<and> t_usb x = Some h \<and>
     w_usbs w h = Some u \<and> usb_good u)"

definition usb_queue :: "addr \<Rightarrow> world \<Rightarrow> bytes" where
  "usb_queue t w = usb_pending (the (w_usbs w (the (t_usb (the (w_trans w t))))))"

definition t_posted :: "addr \<Rightarrow> world \<Rightarrow> apacket list" where
  "t_posted t w = t_from_remote (the (w_trans w t))"

definition t_room :: "addr \<Rightarrow> world \<Rightarrow> nat" where
  "t_room t w = write_room (w_ws w (t_fd (the (w_trans w t))))"

lemmas pump_defs = tcp_good_def tcp_pending_def usb_ready_def usb_queue_def t_posted_def t_room_def

lemma post_packet_room:
  assumes "w_trans w t = Some x" and "0 < t_room t w"
  shows "\<exists>ws. post_packet t p w = Inr (True, w\<lparr>w_ws := (w_ws w)(t_fd x := ws),
      w_trans := (w_trans w)(t \<mapsto> x\<lparr>t_from_remote := t_from_remote x @ [p]\<rparr>)\<rparr>) \<and> write_room ws = t_room t w - 1"
  using write_packet_room [of "w_ws w (t_fd x)"] assms
  by (auto simp: post_packet_def get_trans_def mod_trans_def t_room_def Let_def)

lemma read_from_remote_frame: "read_from_remote t w = Inr (r, w') \<Longrightarrow> w_trans w' = w_trans w \<and> w_ws w' = w_ws w"
proof -
  assume a: "read_from_remote t w = Inr (r, w')"
  then obtain x where x: "w_trans w t = Some x" by (auto simp: read_from_remote_def ebind_eq_Inr)
  show ?thesis
  proof (cases "t_type x")
    case kTransportUsb
    then show ?thesis using a x
      by (cases "t_usb x") (auto simp: read_from_remote_def get_trans_def put_usb_def ebind_eq_Inr)
  next
    case kTransportLocal
    then show ?thesis using a x by (auto simp: read_from_remote_def get_trans_def ebind_eq_Inr)
  qed (use a x in \<open>simp_all add: read_from_remote_def get_trans_def\<close>)
qed

interpretation tcp_pump: packet_pump "read_from_remote t" "tcp_pending t" "tcp_good t" "post_packet t" "t_posted t" "t_room t"
  for t
proof
  fix w p rest r w'
  show "\<exists>s'. read_from_remote t w = Inr (Some (received p), s') \<and> tcp_good t s' \<and> tcp_pending t s' = rest"
    if a: "tcp_good t w" "valid_packet p" "tcp_pending t w = wire p @ rest"
  proof -
    obtain x where x: "w_trans w t = Some x" "t_type x = kTransportLocal" "until_eof (w_rs w (t_sfd x))"
      using a(1) by (auto simp: tcp_good_def)
    then obtain rs' where "local_remote_read get_apacket (w_rs w (t_sfd x)) = Inr (Some (received p), rs')" "until_eof rs'" "stream rs' = rest"
      using until_eof_packet [OF x(3) a(2), of rest] a(3) x(1) by (auto simp: tcp_pending_def)
    then show ?thesis using x by (simp add: read_from_remote_def get_trans_def pump_defs)
  qed
  show "\<exists>s'. post_packet t p w = Inr (True, s') \<and> tcp_good t s' \<and> tcp_pending t s' = tcp_pending t w \<and>
      t_posted t s' = t_posted t w @ [p] \<and> t_room t s' = t_room t w - 1"
    if a: "tcp_good t w" "0 < t_room t w"
  proof -
    obtain x where x: "w_trans w t = Some x" "t_type x = kTransportLocal" "until_eof (w_rs w (t_sfd x))"
      using a(1) by (auto simp: tcp_good_def)
    from post_packet_room [OF x(1) a(2), of p] x show ?thesis by (auto simp: pump_defs)
  qed
  show "t_posted t w' = t_posted t w \<and> t_room t w' = t_room t w" if "read_from_remote t w = Inr (r, w')"
    using read_from_remote_frame [OF that] by (simp add: pump_defs)
qed

interpretation usb_pump: packet_pump "read_from_remote t" "usb_queue t" "usb_ready t" "post_packet t" "t_posted t" "t_room t"
  for t
proof
  fix w p rest r w'
  show "\<exists>s'. read_from_remote t w = Inr (Some (received p), s') \<and> usb_ready t s' \<and> usb_queue t s' = rest"
    if a: "usb_ready t w" "valid_packet p" "usb_queue t w = wire p @ rest"
  proof -
    obtain x h u where x: "w_trans w t = Some x" "t_type x = kTransportUsb" "t_usb x = Some h" "w_usbs w h = Some u" "usb_good u"
      using a(1) by (auto simp: usb_ready_def)
    then obtain u' where "usb_remote_read get_apacket u = Inr (Some (received p), u')" "usb_good u'" "usb_pending u' = rest"
      using usb_packets.rp_packet [OF x(5) a(2), of rest] a(3) x by (auto simp: usb_queue_def)
    then show ?thesis using x by (simp add: read_from_remote_def get_trans_def get_usb_def put_usb_def pump_defs)
  qed
  show "\<exists>s'. post_packet t p w = Inr (True, s') \<and> usb_ready t s' \<and> usb_queue t s' = usb_queue t w \<and>
      t_posted t s' = t_posted t w @ [p] \<and> t_room t s' = t_room t w - 1"
    if a: "usb_ready t w" "0 < t_room t w"
  proof -
    obtain x h u where x: "w_trans w t = Some x" "t_type x = kTransportUsb" "t_usb x = Some h" "w_usbs w h = Some u" "usb_good u"
      using a(1) by (auto simp: usb_ready_def)
    from post_packet_room [OF x(1) a(2), of p] x show ?thesis by (auto simp: pump_defs)
  qed
  show "t_posted t w' = t_posted t w \<and> t_room t w' = t_room t w" if "read_from_remote t w = Inr (r, w')"
    using read_from_remote_frame [OF that] by (simp add: pump_defs)
qed

text \<open>What the pump leaves alone.\<close>

lemma output_loop_inv:
  assumes "output_loop k rd post s = Inr (b, s')" and "Q s"
    and "\<And>s r s'. Q s \<Longrightarrow> rd s = Inr (r, s') \<Longrightarrow> Q s'"
    and "\<And>s p r s'. Q s \<Longrightarrow> post p s = Inr (r, s') \<Longrightarrow> Q s'"
  shows "Q s'"
  using assms(1,2)
proof (induction k arbitrary: s)
  case 0
  then show ?case by simp
next
  case (Suc k)
  obtain p s1 where rd: "rd s = Inr (p, s1)" using Suc.prems(1) by (auto simp: ebind_eq_Inr)
  then have "Q s1" using assms(3) Suc.prems(2) by blast
  show ?case
  proof (cases p)
    case None
    then show ?thesis using Suc.prems(1) rd \<open>Q s1\<close> by simp
  next
    case (Some q)
    then obtain r s2 where ps: "post q s1 = Inr (r, s2)" using Suc.prems(1) rd by (auto simp: ebind_eq_Inr)
    then have "Q s2" using assms(4) \<open>Q s1\<close> by blast
    then show ?thesis using Suc.IH [of s2] Suc.prems(1) rd Some ps by (cases r) auto
  qed
qed

definition pumped :: "addr \<Rightarrow> atransport \<Rightarrow> world \<Rightarrow> world \<Rightarrow> bool" where
  "pumped t x w w' \<longleftrightarrow> (\<exists>ps. w_trans w' t = Some (x\<lparr>t_from_remote := ps\<rparr>)) \<and>
     w_transport_lock w' = w_transport_lock w \<and> w_local_transports_lock w' = w_local_transports_lock w \<and>
     w_tmsgs w' = w_tmsgs w"

lemma pumped_post: "pumped t x w w1 \<Longrightarrow> post_packet t p w1 = Inr (r, w2) \<Longrightarrow> pumped t x w w2"
  by (auto simp: pumped_def post_packet_def mod_trans_def get_trans_def ebind_eq_Inr Let_def split: if_splits)

lemma read_from_remote_locks:
  assumes "read_from_remote t w = Inr (r, w')"
  shows "w_transport_lock w' = w_transport_lock w" and "w_local_transports_lock w' = w_local_transports_lock w"
    and "w_tmsgs w' = w_tmsgs w"
proof -
  obtain x where x: "w_trans w t = Some x" using assms by (auto simp: read_from_remote_def ebind_eq_Inr)
  have "w_transport_lock w' = w_transport_lock w \<and> w_local_transports_lock w' = w_local_transports_lock w \<and> w_tmsgs w' = w_tmsgs w"
  proof (cases "t_type x")
    case kTransportUsb
    then show ?thesis using assms x
      by (cases "t_usb x") (auto simp: read_from_remote_def get_trans_def put_usb_def ebind_eq_Inr)
  next
    case kTransportLocal
    then show ?thesis using assms x by (auto simp: read_from_remote_def get_trans_def ebind_eq_Inr)
  qed (use assms x in \<open>simp_all add: read_from_remote_def get_trans_def\<close>)
  then show "w_transport_lock w' = w_transport_lock w" "w_local_transports_lock w' = w_local_transports_lock w"
    "w_tmsgs w' = w_tmsgs w" by simp_all
qed

lemma pumped_read: "pumped t x w w1 \<Longrightarrow> read_from_remote t w1 = Inr (r, w2) \<Longrightarrow> pumped t x w w2"
  using read_from_remote_frame [of t w1 r w2] read_from_remote_locks [of t w1 r w2] by (simp add: pumped_def)

lemma kick_local:
  assumes "w_trans w t = Some x" and "t_type x = kTransportLocal" and "\<not> t_kicked x"
    and "\<not> w_transport_lock w" and "\<not> w_local_transports_lock w"
  obtains w' where "kick_transport t w = Inr w'" and "w_trans w' = (w_trans w)(t \<mapsto> x\<lparr>t_kicked := True, t_sfd := -1\<rparr>)"
    and "\<not> w_transport_lock w'" and "w_tmsgs w' = w_tmsgs w" and "w_registration_send w' = w_registration_send w"
    and "w_ws w' = w_ws w" and "\<not> w_local_transports_lock w'"
    and "w_local_transports w' = (if w_HOST w then clear_first t (w_local_transports w) else w_local_transports w)"
    and "w_HOST w' = w_HOST w"
proof (cases "w_HOST w")
  case True
  show thesis
    by (rule that [of "w\<lparr>w_transport_lock := False, w_trans := (w_trans w)(t \<mapsto> x\<lparr>t_kicked := True, t_sfd := -1\<rparr>),
        w_log := w_log w @ [Shutdown_fd (t_sfd x), Close_fd (t_sfd x)],
        w_local_transports := clear_first t (w_local_transports w), w_local_transports_lock := False\<rparr>"]) (use assms True in \<open>simp_all add: kick_transport_def get_trans_def mod_trans_def lock_transports_def
        unlock_transports_def transport_kick_def local_remote_kick_def lock_local_transports_def unlock_local_transports_def
        log_io_def Let_def\<close>)
next
  case False
  show thesis
    by (rule that [of "w\<lparr>w_transport_lock := False, w_trans := (w_trans w)(t \<mapsto> x\<lparr>t_kicked := True, t_sfd := -1\<rparr>),
        w_log := w_log w @ [Shutdown_fd (t_sfd x), Close_fd (t_sfd x)]\<rparr>"]) (use assms False in \<open>simp_all add: kick_transport_def get_trans_def mod_trans_def lock_transports_def
        unlock_transports_def transport_kick_def local_remote_kick_def log_io_def Let_def\<close>)
qed

lemma unref_alive:
  assumes "w_trans w t = Some x" and "t_ref_count x \<noteq> 1" and "\<not> w_transport_lock w"
  shows "transport_unref t w = Inr (w\<lparr>w_trans := (w_trans w)(t \<mapsto> x\<lparr>t_ref_count := t_ref_count x - 1\<rparr>)\<rparr>)"
  using assms
  by (simp add: transport_unref_def transport_unref_locked_def lock_transports_def unlock_transports_def mod_trans_def
      get_trans_def)

section \<open>Properties\<close>

text \<open>C15: The output thread of a TCP transport hands the main thread exactly what the device sent:
  first the \<open>SYNC\<close> packet that starts the session with a new token, then every packet of the
  stream in order and unchanged, and when the connection ends the \<open>SYNC\<close> packet that stops it;
  then it kicks the transport and drops its reference, and the removal of the transport is not yet
  asked for, since the input thread still holds the other.\<close>

theorem output_thread_delivers:
  assumes "w_trans w t = Some x" and "t_type x = kTransportLocal" and "t_ref_count x = 2" and "\<not> t_kicked x"
    and "\<not> w_transport_lock w" and "\<not> w_local_transports_lock w"
    and "until_eof (w_rs w (t_sfd x))" and "stream (w_rs w (t_sfd x)) = concat (map wire ps)"
    and "\<forall>p \<in> set ps. valid_packet p" and "length ps + 2 \<le> write_room (w_ws w (t_fd x))" and "length ps < fuel"
  shows "\<exists>w' x'. output_thread fuel t w = Inr w' \<and> w_trans w' t = Some x' \<and>
     t_from_remote x' = t_from_remote x @ sync_packet 1 (t_sync_token x + 1) # map received ps @ [sync_packet 0 0] \<and>
     t_kicked x' \<and> t_ref_count x' = 1 \<and> w_tmsgs w' = w_tmsgs w"
proof -
  let ?x = "x\<lparr>t_sync_token := t_sync_token x + 1\<rparr>"
  define w1 where "w1 = w\<lparr>w_trans := (w_trans w)(t \<mapsto> ?x)\<rparr>"
  have x1: "w_trans w1 t = Some ?x" and good: "tcp_good t w1" and room: "0 < t_room t w1"
    using assms by (auto simp: w1_def tcp_good_def t_room_def)
  then obtain w2 where w2: "post_packet t (sync_packet 1 (t_sync_token x + 1)) w1 = Inr (True, w2)" "tcp_good t w2"
      "tcp_pending t w2 = tcp_pending t w1" "t_posted t w2 = t_posted t w1 @ [sync_packet 1 (t_sync_token x + 1)]"
      "t_room t w2 = t_room t w1 - 1"
    using tcp_pump.post_law by blast
  obtain k where k: "fuel = length ps + Suc k" using assms(11) by (metis add_Suc_right less_imp_add_positive Suc_pred)
  have "tcp_pending t w2 = concat (map wire ps) @ []" "length ps \<le> t_room t w2"
    using w2(3,5) assms(8,10) by (simp_all add: w1_def tcp_pending_def t_room_def assms(1))
  from tcp_pump.pump [OF w2(2) assms(9) this, of "Suc k"]
  obtain w3 where w3: "output_loop fuel (read_from_remote t) (post_packet t) w2 =
      output_loop (Suc k) (read_from_remote t) (post_packet t) w3" "tcp_good t w3" "tcp_pending t w3 = []"
      "t_posted t w3 = t_posted t w2 @ map received ps" "t_room t w3 = t_room t w2 - length ps"
    unfolding k by blast
  obtain x3 where x3: "w_trans w3 t = Some x3" "t_type x3 = kTransportLocal" "until_eof (w_rs w3 (t_sfd x3))"
    using w3(2) by (auto simp: tcp_good_def)
  define w4 where "w4 = w3\<lparr>w_rs := (w_rs w3)(t_sfd x3 := [])\<rparr>"
  have "local_remote_read get_apacket (w_rs w3 (t_sfd x3)) = Inr (None, [])"
    using until_eof_end [OF x3(3)] w3(3) x3(1) by (simp add: tcp_pending_def)
  then have loop: "output_loop fuel (read_from_remote t) (post_packet t) w2 = Inr (True, w4)"
    using x3 by (simp add: w3(1) read_from_remote_def get_trans_def w4_def)
  have "pumped t ?x w1 w1"
    using x1 by (auto simp: pumped_def intro: exI [of _ "t_from_remote x"])
  then have "pumped t ?x w1 w2" using w2(1) by (rule pumped_post)
  then have pm: "pumped t ?x w1 w4"
    using output_loop_inv [of fuel "read_from_remote t" "post_packet t" w2 True w4 "pumped t ?x w1"] loop pumped_read pumped_post
    by blast
  then obtain qs where x4: "w_trans w4 t = Some (?x\<lparr>t_from_remote := qs\<rparr>)" by (auto simp: pumped_def)
  then have qs: "qs = t_from_remote x @ sync_packet 1 (t_sync_token x + 1) # map received ps"
    using w3(4) w2(4) by (simp add: t_posted_def w4_def w1_def)
  have "0 < t_room t w4"
    using w3(5) w2(5) assms(10) x3(1) by (simp add: t_room_def w4_def w1_def assms(1))
  from post_packet_room [OF x4 this, of "sync_packet 0 0"]
  obtain w5 where w5: "post_packet t (sync_packet 0 0) w4 = Inr (True, w5)"
      "w_trans w5 t = Some (?x\<lparr>t_from_remote := qs @ [sync_packet 0 0]\<rparr>)" by auto
  have pm5: "pumped t ?x w1 w5" using pm w5(1) by (rule pumped_post)
  obtain w6 where w6: "kick_transport t w5 = Inr w6" "w_tmsgs w6 = w_tmsgs w5" "\<not> w_transport_lock w6"
      "w_trans w6 = (w_trans w5)(t \<mapsto> ?x\<lparr>t_from_remote := qs @ [sync_packet 0 0], t_kicked := True, t_sfd := -1\<rparr>)"
    by (rule kick_local [OF w5(2)]) (use assms pm5 in \<open>auto simp: pumped_def w1_def\<close>)
  have "output_thread fuel t w = transport_unref t w6"
    using assms(1) x1 w2(1) loop w5(1) w6(1)
    by (simp add: output_thread_def mod_trans_def get_trans_def w1_def [symmetric])
  then show ?thesis using w6 pm5 assms(3) qs
    by (simp add: unref_alive pumped_def w1_def)
qed

text \<open>A TCP transport that has just been started, and whose peer sends one packet in two pieces.\<close>

definition sample_tcp :: world where
  "sample_tcp = sample_stream\<lparr>
     w_trans := [0 \<mapsto> blank_transport\<lparr>t_type := kTransportLocal, t_sfd := 8, t_fd := 9, t_transport_socket := 10,
        t_ref_count := 2, t_sync_token := 1, t_serial := Some ''10.0.0.2:5555'',
        t_to_remote := [sample_packet, sync_packet 1 1, sample_packet, sync_packet 0 0, sample_packet]\<rparr>],
     w_rs := (\<lambda>fd. if fd = 8 then [RData (take 10 (wire sample_packet)), RErr EINTR, RData (drop 10 (wire sample_packet)), RData []]
        else [RData (replicate 40 NUL)]),
     w_ws := (\<lambda>_. [WOk 4120, WOk 4120, WOk 4120, WOk 4120])\<rparr>"

lemma sample_tcp_simps:
  "w_trans sample_tcp 0 = Some (blank_transport\<lparr>t_type := kTransportLocal, t_sfd := 8, t_fd := 9, t_transport_socket := 10,
        t_ref_count := 2, t_sync_token := 1, t_serial := Some ''10.0.0.2:5555'',
        t_to_remote := [sample_packet, sync_packet 1 1, sample_packet, sync_packet 0 0, sample_packet]\<rparr>)"
  "\<not> w_transport_lock sample_tcp" "\<not> w_local_transports_lock sample_tcp" "w_HOST sample_tcp"
  "w_rs sample_tcp 8 = [RData (take 10 (wire sample_packet)), RErr EINTR, RData (drop 10 (wire sample_packet)), RData []]"
  "w_rs sample_tcp 9 = [RData (replicate 40 NUL)]" "w_ws sample_tcp fd = [WOk 4120, WOk 4120, WOk 4120, WOk 4120]"
  "w_tmsgs sample_tcp = []" "w_registration_send sample_tcp = 3" "w_transport_list sample_tcp = [0]" "w_out sample_tcp fd = []"
  by (simp_all add: sample_tcp_def sample_stream_def)

lemma length_wire_sample: "length (wire sample_packet) = 26"
  by (simp add: wire_def sample_packet_def sizeof_amessage_def)

theorem output_thread_delivers_witness:
  "\<exists>w' x'. output_thread 5 0 sample_tcp = Inr w' \<and> w_trans w' 0 = Some x' \<and>
     t_from_remote x' = [sync_packet 1 2, received sample_packet, sync_packet 0 0] \<and> t_ref_count x' = 1"
proof -
  have eof: "until_eof [RData (take 10 (wire sample_packet)), RErr EINTR, RData (drop 10 (wire sample_packet)), RData []]"
    unfolding until_eof_def
    by (rule exI [of _ "[RData (take 10 (wire sample_packet)), RErr EINTR, RData (drop 10 (wire sample_packet))]"])
       (use length_wire_sample in auto)
  have "\<exists>w' x'. output_thread 5 0 sample_tcp = Inr w' \<and> w_trans w' 0 = Some x' \<and>
     t_from_remote x' = t_from_remote blank_transport @ sync_packet 1 (1 + 1) # map received [sample_packet] @ [sync_packet 0 0] \<and>
     t_kicked x' \<and> t_ref_count x' = 1 \<and> w_tmsgs w' = w_tmsgs sample_tcp"
    using output_thread_delivers [OF sample_tcp_simps(1), of "[sample_packet]" 5] eof sample_packet_valid
    by (simp add: sample_tcp_simps blank_transport_def ptr_size_def)
  then show ?thesis by (auto simp: blank_transport_def)
qed

text \<open>The input thread reads one address from the socket pair for each packet.\<close>

definition is_sync :: "apacket \<Rightarrow> bool" where
  "is_sync p \<longleftrightarrow> m_command (p_msg p) = A_SYNC"

text \<open>The packets that the loop passes on, starting inactive or active.\<close>

fun gated :: "u32 \<Rightarrow> bool \<Rightarrow> apacket list \<Rightarrow> apacket list" where
  "gated tok act [] = []"
| "gated tok act (p # ps) =
     (if is_sync p then if m_arg0 (p_msg p) = 0 then [] else gated tok (act \<or> m_arg1 (p_msg p) = tok) ps
      else if act then p # gated tok act ps else gated tok act ps)"

definition offline :: "apacket \<Rightarrow> bool" where
  "offline p \<longleftrightarrow> is_sync p \<and> m_arg0 (p_msg p) = 0"

lemma gated_before:
  "\<forall>p \<in> set pre. is_sync p \<longrightarrow> m_arg0 (p_msg p) \<noteq> 0 \<and> m_arg1 (p_msg p) \<noteq> tok \<Longrightarrow>
   gated tok False (pre @ ps) = gated tok False ps"
  by (induction pre) auto

lemma gated_active:
  "\<forall>p \<in> set d. \<not> offline p \<Longrightarrow> gated tok True (d @ ps) = filter (\<lambda>p. \<not> is_sync p) d @ gated tok True ps"
  by (induction d) (auto simp: offline_def)

definition tcp_sends :: "int \<Rightarrow> apacket list \<Rightarrow> world \<Rightarrow> bool" where
  "tcp_sends fd ps w \<longleftrightarrow> (\<forall>p \<in> set ps. valid_packet p) \<and>
     (\<exists>n ws. w_ws w fd = replicate n (WOk (sizeof_amessage + MAX_PAYLOAD)) @ ws \<and> length ps \<le> n)"

lemma write_valid:
  assumes "valid_packet p" and "w_trans w t = Some x" and "t_type x = kTransportLocal" and "tcp_sends (t_sfd x) (p # ps) w"
  shows "\<exists>w'. write_to_remote p t w = Inr w' \<and> w_trans w' = w_trans w \<and> w_rs w' = w_rs w \<and>
     w_out w' (t_sfd x) = w_out w (t_sfd x) @ wire p \<and> tcp_sends (t_sfd x) ps w'"
proof -
  obtain n ws where ws: "w_ws w (t_sfd x) = replicate n (WOk (sizeof_amessage + MAX_PAYLOAD)) @ ws" "Suc (length ps) \<le> n"
    using assms(4) by (auto simp: tcp_sends_def)
  obtain m where m: "n = Suc m" "length ps \<le> m" using ws(2) by (cases n) auto
  let ?k = "unat (m_data_length (p_msg p))"
  have d: "buf_read ?k (p_data p) = Inr (take ?k (p_data p))" "length (wire p) \<le> sizeof_amessage + MAX_PAYLOAD" "wire p \<noteq> []"
    using assms(1) by (auto simp: valid_packet_def buf_read_def wire_def enc_msg_def sizeof_amessage_def)
  then have "local_remote_write p (w_ws w (t_sfd x)) =
      Inr (True, wire p, replicate m (WOk (sizeof_amessage + MAX_PAYLOAD)) @ ws)"
    using ws(1) m(1) writex_all [of "wire p" "sizeof_amessage + MAX_PAYLOAD"] by (simp add: local_remote_write_def wire_def)
  then show ?thesis using assms(2-4) m(2)
    by (auto simp: write_to_remote_def get_trans_def tcp_sends_def Let_def)
qed

lemma input_loop_gated:
  assumes "w_trans w t = Some x" and "t_type x = kTransportLocal"
    and "t_to_remote x = ps @ off # post" and "offline off" and "\<forall>p \<in> set ps. \<not> offline p"
    and "healthy (w_rs w (t_fd x))" and "ptr_size * Suc (length ps) \<le> length (stream (w_rs w (t_fd x)))"
    and "tcp_sends (t_sfd x) (gated (t_sync_token x) act ps) w" and "length ps < k"
  shows "\<exists>w'. input_loop k act t w = Inr w' \<and>
     w_out w' (t_sfd x) = w_out w (t_sfd x) @ concat (map wire (gated (t_sync_token x) act ps))"
  using assms
proof (induction ps arbitrary: w x act k)
  case Nil
  obtain k' where k: "k = Suc k'" using Nil.prems(9) by (cases k) auto
  obtain rs' where "readx ptr_size (w_rs w (t_fd x)) = Inr (Some (take ptr_size (stream (w_rs w (t_fd x)))), rs')"
    using readx_exact [OF Nil.prems(6), of ptr_size] Nil.prems(7) by auto
  then show ?case using Nil.prems(1,3,4)
    by (simp add: k get_trans_def mod_trans_def Let_def offline_def is_sync_def)
next
  case (Cons p ps)
  note prems = Cons.prems
  obtain k' where k: "k = Suc k'" "length ps < k'" using prems(9) by (cases k) auto
  have le: "ptr_size \<le> length (stream (w_rs w (t_fd x)))" using prems(7) by simp
  obtain rs' where rs': "readx ptr_size (w_rs w (t_fd x)) = Inr (Some (take ptr_size (stream (w_rs w (t_fd x)))), rs')"
      "healthy rs'" "stream rs' = drop ptr_size (stream (w_rs w (t_fd x)))"
    using readx_exact [OF prems(6) le] by auto
  let ?x = "x\<lparr>t_to_remote := ps @ off # post\<rparr>"
  define w1 where "w1 = w\<lparr>w_rs := (w_rs w)(t_fd x := rs'), w_trans := (w_trans w)(t \<mapsto> ?x)\<rparr>"
  have w1: "w_trans w1 t = Some ?x" "w_rs w1 (t_fd x) = rs'" "w_out w1 = w_out w" "w_ws w1 = w_ws w"
    by (simp_all add: w1_def)
  have step: "input_loop k act t w = (if is_sync p then input_loop k' (act \<or> m_arg1 (p_msg p) = t_sync_token x) t w1
      else if act then ebind (write_to_remote p t w1) (input_loop k' act t) else input_loop k' act t w1)"
    using prems(1,3,5) rs'(1) by (simp add: k get_trans_def mod_trans_def Let_def offline_def is_sync_def w1_def)
  have left: "ptr_size * Suc (length ps) \<le> length (stream rs')" using prems(7) rs'(3) by simp
  show ?case
  proof (cases "\<not> is_sync p \<and> act")
    case False
    let ?a = "if is_sync p then act \<or> m_arg1 (p_msg p) = t_sync_token x else act"
    have g: "gated (t_sync_token x) act (p # ps) = gated (t_sync_token x) ?a ps"
      using False prems(5) by (auto simp: offline_def)
    have "tcp_sends (t_sfd ?x) (gated (t_sync_token ?x) ?a ps) w1"
      using prems(8) unfolding g by (simp add: tcp_sends_def w1)
    then have "\<exists>w'. input_loop k' ?a t w1 = Inr w' \<and>
        w_out w' (t_sfd ?x) = w_out w1 (t_sfd ?x) @ concat (map wire (gated (t_sync_token ?x) ?a ps))"
      by (intro Cons.IH [OF w1(1)]) (use prems(2,4,5) w1(2) rs'(2) left k(2) in simp_all)
    then show ?thesis unfolding g step w1(3) using False by auto
  next
    case True
    then have g: "gated (t_sync_token x) act (p # ps) = p # gated (t_sync_token x) act ps" by simp
    have s1: "tcp_sends (t_sfd ?x) (p # gated (t_sync_token x) act ps) w1" and v: "valid_packet p"
      using prems(8) unfolding g by (simp_all add: tcp_sends_def w1)
    obtain w2 where w2: "write_to_remote p t w1 = Inr w2" "w_trans w2 = w_trans w1" "w_rs w2 = w_rs w1"
        "w_out w2 (t_sfd ?x) = w_out w1 (t_sfd ?x) @ wire p" "tcp_sends (t_sfd ?x) (gated (t_sync_token x) act ps) w2"
      using write_valid [OF v w1(1) _ s1] prems(2) by auto
    have "\<exists>w'. input_loop k' act t w2 = Inr w' \<and>
        w_out w' (t_sfd ?x) = w_out w2 (t_sfd ?x) @ concat (map wire (gated (t_sync_token ?x) act ps))"
      by (rule Cons.IH) (use w2 w1 prems(2,4,5) rs'(2) left k(2) in simp_all)
    then show ?thesis unfolding g step using True w2 w1(3) by auto
  qed
qed

text \<open>C37: The input thread of a TCP transport sends the device exactly the packets of the session:
  nothing that was queued before the \<open>SYNC\<close> packet with the current token, then every packet that
  is not a \<open>SYNC\<close>, in order, and nothing from the \<open>SYNC\<close> packet that ends the session on.\<close>

theorem input_thread_session:
  assumes "w_trans w t = Some x" and "t_type x = kTransportLocal"
    and "t_to_remote x = pre @ on # session @ off # post"
    and "\<forall>p \<in> set pre. is_sync p \<longrightarrow> m_arg0 (p_msg p) \<noteq> 0 \<and> m_arg1 (p_msg p) \<noteq> t_sync_token x"
    and "is_sync on" and "m_arg0 (p_msg on) \<noteq> 0" and "m_arg1 (p_msg on) = t_sync_token x"
    and "\<forall>p \<in> set session. \<not> offline p" and "offline off"
    and "healthy (w_rs w (t_fd x))" and "ptr_size * (length pre + length session + 2) \<le> length (stream (w_rs w (t_fd x)))"
    and "tcp_sends (t_sfd x) (filter (\<lambda>p. \<not> is_sync p) session) w"
  shows "\<exists>w'. input_loop (Suc (length (t_to_remote x))) False t w = Inr w' \<and>
     w_out w' (t_sfd x) = w_out w (t_sfd x) @ concat (map wire (filter (\<lambda>p. \<not> is_sync p) session))"
proof -
  let ?ps = "pre @ on # session"
  have g: "gated (t_sync_token x) False ?ps = filter (\<lambda>p. \<not> is_sync p) session"
    using gated_before [OF assms(4), of "on # session"] assms(5-7) gated_active [OF assms(8), of _ "[]"] by simp
  have "\<forall>p \<in> set ?ps. \<not> offline p" using assms(4-6,8) by (auto simp: offline_def)
  moreover have "length ?ps < Suc (length (t_to_remote x))" using assms(3) by simp
  ultimately show ?thesis
    using input_loop_gated [OF assms(1,2), of ?ps off post False "Suc (length (t_to_remote x))"] assms(3,9-12)
    unfolding g by (simp add: algebra_simps)
qed

theorem input_thread_session_witness:
  "\<exists>w'. input_loop 6 False 0 sample_tcp = Inr w' \<and> w_out w' 8 = wire sample_packet"
proof -
  have s: "\<not> is_sync sample_packet" by (simp add: is_sync_def sample_packet_def command_defs)
  have y: "is_sync (sync_packet a b)" "m_arg0 (p_msg (sync_packet a b)) = a" "m_arg1 (p_msg (sync_packet a b)) = b" for a b
    by (simp_all add: is_sync_def sync_packet_def)
  have w: "tcp_sends 8 [sample_packet] sample_tcp"
    unfolding tcp_sends_def
    by (intro conjI exI [of _ "Suc 0"] exI [of _ "[WOk 4120, WOk 4120, WOk 4120]"])
       (simp_all add: sample_packet_valid sample_tcp_simps sizeof_amessage_def MAX_PAYLOAD_def)
  have "\<exists>w'. input_loop (Suc (length [sample_packet, sync_packet 1 1, sample_packet, sync_packet 0 0, sample_packet])) False 0 sample_tcp = Inr w' \<and>
     w_out w' 8 = w_out sample_tcp 8 @ concat (map wire (filter (\<lambda>p. \<not> is_sync p) [sample_packet]))"
    using input_thread_session [OF sample_tcp_simps(1), of "[sample_packet]" "sync_packet 1 1" "[sample_packet]" "sync_packet 0 0" "[sample_packet]"]
      s y w by (simp add: sample_tcp_simps offline_def ptr_size_def del: input_loop.simps)
  then show ?thesis using s by (simp add: sample_tcp_simps numeral_eq_Suc del: input_loop.simps)
qed

section \<open>The end of a transport\<close>

definition registration_open :: "world \<Rightarrow> bool" where
  "registration_open w \<longleftrightarrow> (\<exists>ws. write_ptr_loop sizeof_tmsg (w_ws w (w_registration_send w)) = Inr (True, ws))"

lemma remove_transport_posts:
  assumes "registration_open w"
  shows "\<exists>ws. remove_transport t w = Inr (w\<lparr>w_ws := (w_ws w)(w_registration_send w := ws), w_tmsgs := w_tmsgs w @ [(t, 0)]\<rparr>)"
  using assms by (auto simp: registration_open_def remove_transport_def transport_write_action_def Let_def)

lemma unref_last:
  assumes "w_trans w t = Some x" and "t_type x = kTransportLocal" and "t_ref_count x = 1" and "t_kicked x"
    and "\<not> w_transport_lock w" and "registration_open w"
  shows "\<exists>w'. transport_unref t w = Inr w' \<and> w_tmsgs w' = w_tmsgs w @ [(t, 0)] \<and>
     w_trans w' = (w_trans w)(t \<mapsto> x\<lparr>t_ref_count := 0\<rparr>) \<and> w_log w' = w_log w @ [Close_fd (t_fd x)]"
proof -
  define w1 where "w1 = w\<lparr>w_transport_lock := True, w_trans := (w_trans w)(t \<mapsto> x\<lparr>t_ref_count := 0\<rparr>),
      w_log := w_log w @ [Close_fd (t_fd x)]\<rparr>"
  have "registration_open w1" using assms(6) by (simp add: registration_open_def w1_def)
  then obtain ws where "remove_transport t w1 =
      Inr (w1\<lparr>w_ws := (w_ws w1)(w_registration_send w1 := ws), w_tmsgs := w_tmsgs w1 @ [(t, 0)]\<rparr>)"
    using remove_transport_posts by blast
  moreover have "transport_unref t w = ebind (remove_transport t w1) (\<lambda>w. Inr (unlock_transports w))"
    using assms by (simp add: transport_unref_def transport_unref_locked_def lock_transports_def mod_trans_def get_trans_def
        kick_once_def transport_close_def local_remote_close_def log_io_def w1_def)
  ultimately show ?thesis by (simp add: w1_def unlock_transports_def)
qed


definition kicked_tcp :: world where
  "kicked_tcp = sample_tcp\<lparr>w_trans := [0 \<mapsto> blank_transport\<lparr>t_type := kTransportLocal, t_fd := 9, t_ref_count := 2, t_kicked := True\<rparr>]\<rparr>"


text \<open>C38: \<open>unregister_transport\<close> drops a reference that it does not hold. After it the end of the first
  of the two threads already asks for the removal; when the main thread has done it, the end of the
  second thread uses the transport after it was freed.\<close>

theorem unregister_drops_foreign_reference:
  assumes "w_trans w t = Some x" and "t_type x = kTransportLocal" and "t_ref_count x = 2" and "\<not> t_kicked x"
    and "t \<in> set (w_transport_list w)" and "\<not> w_transport_lock w" and "\<not> w_local_transports_lock w" and "registration_open w"
  shows "\<exists>w1 w2. unregister_transport t w = Inr w1 \<and> transport_unref t w1 = Inr w2 \<and>
     w_tmsgs w2 = w_tmsgs w @ [(t, 0)] \<and> transport_unref t (free_transport t w2) = Inl UseAfterFree"
proof -
  let ?w = "w\<lparr>w_transport_list := remove1 t (w_transport_list w), w_transport_lock := False\<rparr>"
  obtain w0 where w0: "kick_transport t ?w = Inr w0" "w_trans w0 = (w_trans ?w)(t \<mapsto> x\<lparr>t_kicked := True, t_sfd := -1\<rparr>)"
      "\<not> w_transport_lock w0" "w_tmsgs w0 = w_tmsgs ?w" "w_registration_send w0 = w_registration_send ?w" "w_ws w0 = w_ws ?w"
    by (rule kick_local [of ?w t x]) (use assms in simp_all)
  have x0: "w_trans w0 t = Some (x\<lparr>t_kicked := True, t_sfd := -1\<rparr>)" using w0(2) by simp
  let ?w1 = "w0\<lparr>w_trans := (w_trans w0)(t \<mapsto> x\<lparr>t_kicked := True, t_sfd := -1, t_ref_count := 1\<rparr>)\<rparr>"
  have u: "unregister_transport t w = Inr ?w1"
    using assms w0(1) unref_alive [OF x0 _ w0(3)]
    by (simp add: unregister_transport_def lock_transports_def unlock_transports_def get_trans_def unlink_transport_def)
  have "registration_open ?w1" using assms(8) w0 by (simp add: registration_open_def)
  then obtain w2 where w2: "transport_unref t ?w1 = Inr w2" "w_tmsgs w2 = w_tmsgs w @ [(t, 0)]"
    using unref_last [of ?w1 t "x\<lparr>t_kicked := True, t_sfd := -1, t_ref_count := 1\<rparr>"] assms(2) w0(3,4) by auto
  have "\<not> w_transport_lock w2"
    using w2(1) by (auto simp: transport_unref_def unlock_transports_def ebind_eq_Inr)
  then have "transport_unref t (free_transport t w2) = Inl UseAfterFree"
    by (simp add: transport_unref_def free_transport_def lock_transports_def transport_unref_locked_def mod_trans_def get_trans_def)
  then show ?thesis using u w2 by blast
qed

theorem unregister_drops_foreign_reference_witness:
  "\<exists>w1 w2. unregister_transport 0 sample_tcp = Inr w1 \<and> transport_unref 0 w1 = Inr w2 \<and>
     w_tmsgs w2 = [(0, 0)] \<and> transport_unref 0 (free_transport 0 w2) = Inl UseAfterFree"
proof -
  have "registration_open sample_tcp" by (simp add: registration_open_def sample_tcp_simps sizeof_tmsg_def)
  then show ?thesis using unregister_drops_foreign_reference [OF sample_tcp_simps(1)]
    by (simp add: sample_tcp_simps blank_transport_def)
qed

text \<open>When an emulator is registered whose serial number is still on a list of transports (it was
  kicked and not yet removed), \<open>register_socket_transport\<close> frees the new transport but leaves it in
  the table of emulators: the next search of the table reads freed memory, for whatever port.\<close>

theorem register_leaves_dangling_emulator:
  assumes "w_HOST w" and "w_local_transports w = replicate 64 None" and "\<not> w_local_transports_lock w" and "\<not> w_transport_lock w"
    and "w_pending_list w = []" and "w_transport_list w = [n]" and "w_trans w n = Some y" and "n \<noteq> w_next w"
    and "t_serial y = Some serial"
  shows "\<exists>w'. register_socket_transport s serial port True w = Inr (-1, w') \<and>
     find_emulator_transport_by_adb_port q w' = Inl UseAfterFree"
proof -
  have r: "(replicate 64 None :: addr option list) = None # replicate 63 None"
    by (simp add: numeral_eq_Suc)
  have f: "find_emulator_locked (replicate k None) port w' = Inr None" for k port w'
    by (induction k) auto
  show ?thesis using assms
    by (simp add: register_socket_transport_def new_transport_def init_socket_transport_def mod_trans_def get_trans_def
        lock_local_transports_def unlock_local_transports_def lock_transports_def unlock_transports_def f r Let_def
        free_new_transport_def find_emulator_transport_by_adb_port_def del: replicate.simps)
qed

theorem register_leaves_dangling_emulator_witness:
  "\<exists>w'. register_socket_transport 11 ''10.0.0.2:5555'' 5555 True sample_tcp = Inr (-1, w') \<and>
     find_emulator_transport_by_adb_port 5557 w' = Inl UseAfterFree"
  by (rule register_leaves_dangling_emulator [OF _ _ _ _ _ _ sample_tcp_simps(1)])
     (simp_all add: sample_tcp_def sample_stream_def)

end
