(* ===== verification/Adb_Protocol.thy ===== *)
theory Adb_Protocol
  imports Adb_Transport
begin

text \<open>
  The protocol (adb.c: the packets a host sends, the banner of a device, and \<open>handle_packet\<close>;
  the authentication functions of adb\_auth\_host.c that it calls; the services that a device may
  open on the host, from services.c and sockets.c).

  The RSA signature and the file with the public key are arguments, collected in a record. The
  program is compiled for the host, where \<open>adb_auth_generate_token\<close> and \<open>adb_auth_verify\<close>
  return 0 and \<open>adb_auth_confirm_key\<close> does nothing.
\<close>

section \<open>Packets the host sends\<close>

definition send_ready :: "u32 \<Rightarrow> u32 \<Rightarrow> addr \<Rightarrow> world \<Rightarrow> err + world" where
  "send_ready lcl rmt t w =
     send_packet (get_apacket\<lparr>p_msg := zero_msg\<lparr>m_command := A_OKAY, m_arg0 := lcl, m_arg1 := rmt\<rparr>\<rparr>) (Some t) w"

definition send_close :: "u32 \<Rightarrow> u32 \<Rightarrow> addr \<Rightarrow> world \<Rightarrow> err + world" where
  "send_close lcl rmt t w =
     send_packet (get_apacket\<lparr>p_msg := zero_msg\<lparr>m_command := A_CLSE, m_arg0 := lcl, m_arg1 := rmt\<rparr>\<rparr>) (Some t) w"

definition fill_connect_data :: bytes where
  "fill_connect_data = ''host::'' @ [NUL]"

definition send_connect :: "addr \<Rightarrow> world \<Rightarrow> err + world" where
  "send_connect t w =
     send_packet (get_apacket\<lparr>p_msg := zero_msg\<lparr>m_command := A_CNXN, m_arg0 := A_VERSION, m_arg1 := of_nat MAX_PAYLOAD,
       m_data_length := of_nat (length fill_connect_data)\<rparr>, p_data := fill_connect_data\<rparr>) (Some t) w"

section \<open>Authentication\<close>

definition ADB_AUTH_TOKEN :: u32 where "ADB_AUTH_TOKEN = 1"
definition ADB_AUTH_SIGNATURE :: u32 where "ADB_AUTH_SIGNATURE = 2"
definition ADB_AUTH_RSAPUBLICKEY :: u32 where "ADB_AUTH_RSAPUBLICKEY = 3"

lemmas auth_defs = ADB_AUTH_TOKEN_def ADB_AUTH_SIGNATURE_def ADB_AUTH_RSAPUBLICKEY_def

text \<open>\<open>ae_sign k token\<close> is \<open>RSA_sign\<close> with key \<open>k\<close>, \<open>None\<close> where it fails; \<open>ae_pubkey\<close> is the
  content of the public key file, \<open>None\<close> where its path cannot be made or it cannot be read.\<close>

record auth_env =
  ae_sign :: "nat \<Rightarrow> bytes \<Rightarrow> bytes option"
  ae_pubkey :: "bytes option"

definition adb_auth_nextkey :: "nat list \<Rightarrow> nat option \<Rightarrow> nat option" where
  "adb_auth_nextkey keys current =
     (case keys of
        [] \<Rightarrow> None
      | k # _ \<Rightarrow> (case current of None \<Rightarrow> Some k | Some c \<Rightarrow> successor c keys))"

text \<open>The signature goes to the payload of a packet, and an empty one counts as a failure.\<close>

definition adb_auth_sign :: "auth_env \<Rightarrow> nat \<Rightarrow> bytes \<Rightarrow> err + bytes" where
  "adb_auth_sign env key token =
     (case ae_sign env key token of
        None \<Rightarrow> Inr []
      | Some sig \<Rightarrow> if MAX_PAYLOAD < length sig then Inl OutOfBounds else Inr sig)"

text \<open>The bytes it puts into a buffer of \<open>len\<close> bytes; none is the return value 0.\<close>

definition adb_auth_get_userkey :: "auth_env \<Rightarrow> nat \<Rightarrow> bytes" where
  "adb_auth_get_userkey env len =
     (case ae_pubkey env of
        None \<Rightarrow> []
      | Some file \<Rightarrow> if len < length file + 1 then [] else file @ [NUL])"

definition send_auth_packet :: "u32 \<Rightarrow> bytes \<Rightarrow> addr \<Rightarrow> world \<Rightarrow> err + world" where
  "send_auth_packet kind d t w =
     (if d = [] then Inr w
      else send_packet (get_apacket\<lparr>p_msg := zero_msg\<lparr>m_command := A_AUTH, m_arg0 := kind,
             m_data_length := of_nat (length d)\<rparr>, p_data := d\<rparr>) (Some t) w)"

definition send_auth_response :: "auth_env \<Rightarrow> nat \<Rightarrow> bytes \<Rightarrow> addr \<Rightarrow> world \<Rightarrow> err + world" where
  "send_auth_response env key token t w =
     ebind (adb_auth_sign env key token) (\<lambda>sig. send_auth_packet ADB_AUTH_SIGNATURE sig t w)"

definition send_auth_publickey :: "auth_env \<Rightarrow> addr \<Rightarrow> world \<Rightarrow> err + world" where
  "send_auth_publickey env t w = send_auth_packet ADB_AUTH_RSAPUBLICKEY (adb_auth_get_userkey env MAX_PAYLOAD) t w"

text \<open>On the host no token is generated, so no request is sent.\<close>

definition send_auth_request :: "addr \<Rightarrow> world \<Rightarrow> err + world" where
  "send_auth_request t w = ebind (get_trans t w) (\<lambda>_. Inr w)"

section \<open>The banner\<close>

text \<open>The tokens of \<open>strtok_r\<close> with one separator.\<close>

fun tokens_from :: "char \<Rightarrow> string \<Rightarrow> string \<Rightarrow> string list" where
  "tokens_from sep acc [] = (if acc = [] then [] else [acc])"
| "tokens_from sep acc (c # cs) =
     (if c = sep then (if acc = [] then tokens_from sep [] cs else acc # tokens_from sep [] cs)
      else tokens_from sep (acc @ [c]) cs)"

definition qual_overwrite :: "string \<Rightarrow> string option" where
  "qual_overwrite src = (if src = [] then None else Some src)"

definition banner_property :: "string \<Rightarrow> atransport \<Rightarrow> atransport" where
  "banner_property key x =
     (case strchr (CHR ''='') key of
        None \<Rightarrow> x
      | Some cp \<Rightarrow>
          let name = upto_char (CHR ''='') key; v = qual_overwrite (tl cp) in
          if name = ''ro.product.name'' then x\<lparr>t_product := v\<rparr>
          else if name = ''ro.product.model'' then x\<lparr>t_model := v\<rparr>
          else if name = ''ro.product.device'' then x\<lparr>t_device := v\<rparr>
          else x)"

text \<open>The first field of a banner, and its third field, which holds the properties.\<close>

definition banner_fields :: "string \<Rightarrow> string \<times> string option" where
  "banner_fields banner =
     (case strchr (CHR '':'') banner of
        None \<Rightarrow> (banner, None)
      | Some cp \<Rightarrow> (upto_char (CHR '':'') banner, map_option tl (strchr (CHR '':'') (tl cp))))"

definition banner_state :: "string \<Rightarrow> int" where
  "banner_state type =
     (if type = ''bootloader'' then CS_BOOTLOADER else if type = ''device'' then CS_DEVICE
      else if type = ''recovery'' then CS_RECOVERY else if type = ''sideload'' then CS_SIDELOAD else CS_HOST)"

definition parse_banner :: "enqueue_op \<Rightarrow> string \<Rightarrow> addr \<Rightarrow> world \<Rightarrow> err + world" where
  "parse_banner smart banner t w =
     (let (type, props) = banner_fields banner;
          keys = (case props of None \<Rightarrow> [] | Some ps \<Rightarrow> tokens_from (CHR '';'') [] ps)
      in ebind (mod_trans t (\<lambda>x. (fold banner_property keys x)\<lparr>t_connection_state := banner_state type\<rparr>) w) (\<lambda>w.
           if banner_state type = CS_HOST then Inr w else update_transports smart w))"

definition handle_online :: "addr \<Rightarrow> world \<Rightarrow> err + world" where
  "handle_online t w = mod_trans t (\<lambda>x. x\<lparr>t_online := True\<rparr>) w"

definition handle_offline :: "addr \<Rightarrow> world \<Rightarrow> err + world" where
  "handle_offline t w = ebind (mod_trans t (\<lambda>x. x\<lparr>t_online := False\<rparr>) w) (run_transport_disconnects t)"

definition adb_auth_verified :: "addr \<Rightarrow> world \<Rightarrow> err + world" where
  "adb_auth_verified t w = ebind (handle_online t w) (send_connect t)"

section \<open>Services of the host\<close>

definition atoi :: "string \<Rightarrow> int" where
  "atoi s = sint (word_of_int (fst (strtol 10 s)) :: 32 word)"

text \<open>Where a service name leads.\<close>

datatype socket_namespace = NS_Reserved | NS_Abstract | NS_Filesystem

datatype endpoint = Loopback int | Network string int | Local_socket string socket_namespace

definition service_endpoint :: "string \<Rightarrow> endpoint option" where
  "service_endpoint name =
     (if starts_with ''tcp:'' name then
        (let port = atoi (drop 4 name) in
         case strchr (CHR '':'') (drop 4 name) of
           None \<Rightarrow> Some (Loopback port)
         | Some h \<Rightarrow> Some (Network (tl h) port))
      else if starts_with ''local:'' name then Some (Local_socket (drop 6 name) NS_Reserved)
      else if starts_with ''localreserved:'' name then Some (Local_socket (drop 14 name) NS_Reserved)
      else if starts_with ''localabstract:'' name then Some (Local_socket (drop 14 name) NS_Abstract)
      else if starts_with ''localfilesystem:'' name then Some (Local_socket (drop 16 name) NS_Filesystem)
      else None)"

text \<open>\<open>service_to_fd\<close>: the connection to the endpoint is a call that opens a descriptor.\<close>

definition service_to_fd :: "string \<Rightarrow> world \<Rightarrow> err + (int option \<times> world)" where
  "service_to_fd name w = (case service_endpoint name of None \<Rightarrow> Inr (None, w) | Some _ \<Rightarrow> open_fd w)"

definition create_local_service_socket :: "string \<Rightarrow> world \<Rightarrow> err + (addr option \<times> world)" where
  "create_local_service_socket name w =
     ebind (service_to_fd name w) (\<lambda>(fd, w).
       case fd of
         None \<Rightarrow> Inr (None, w)
       | Some fd \<Rightarrow> ebind (create_local_socket fd w) (\<lambda>(a, w). Inr (Some a, w)))"

section \<open>handle_packet\<close>

text \<open>\<open>s->peer = create_remote_socket(...); s->peer->peer = s\<close>\<close>

definition attach_remote :: "addr \<Rightarrow> u32 \<Rightarrow> addr \<Rightarrow> world \<Rightarrow> err + (addr \<times> world)" where
  "attach_remote a i t w =
     ebind (create_remote_socket i t w) (\<lambda>(b, w).
     ebind (mod_sock a (\<lambda>s. s\<lparr>s_peer := Some b\<rparr>) w) (\<lambda>w.
     ebind (mod_sock b (\<lambda>s. s\<lparr>s_peer := Some a\<rparr>) w) (\<lambda>w. Inr (b, w))))"

definition handle_sync :: "apacket \<Rightarrow> addr \<Rightarrow> world \<Rightarrow> err + world" where
  "handle_sync p t w =
     (if m_arg0 (p_msg p) \<noteq> 0 then
        ebind (send_packet p (Some t) w) (\<lambda>w. if w_HOST w then send_connect t w else Inr w)
      else
        ebind (mod_trans t (\<lambda>x. x\<lparr>t_connection_state := CS_OFFLINE\<rparr>) w) (\<lambda>w.
        ebind (handle_offline t w) (send_packet p (Some t))))"

definition handle_cnxn :: "enqueue_op \<Rightarrow> apacket \<Rightarrow> addr \<Rightarrow> world \<Rightarrow> err + world" where
  "handle_cnxn smart p t w =
     ebind (get_trans t w) (\<lambda>x.
     ebind (if t_connection_state x \<noteq> CS_OFFLINE then
              ebind (mod_trans t (\<lambda>x. x\<lparr>t_connection_state := CS_OFFLINE\<rparr>) w) (handle_offline t)
            else Inr w) (\<lambda>w.
     ebind (cstr_at (p_data p)) (\<lambda>banner.
     ebind (parse_banner smart banner t w) (\<lambda>w.
       if w_HOST w \<or> \<not> w_auth_enabled w then
         ebind (handle_online t w) (\<lambda>w. if w_HOST w then Inr w else send_connect t w)
       else send_auth_request t w))))"

definition handle_auth :: "auth_env \<Rightarrow> apacket \<Rightarrow> addr \<Rightarrow> world \<Rightarrow> err + world" where
  "handle_auth env p t w =
     (let arg0 = m_arg0 (p_msg p) in
      if arg0 = ADB_AUTH_TOKEN then
        ebind (mod_trans t (\<lambda>x. x\<lparr>t_connection_state := CS_UNAUTHORIZED,
                 t_key := adb_auth_nextkey (w_key_list w) (t_key x)\<rparr>) w) (\<lambda>w.
        ebind (get_trans t w) (\<lambda>x.
          case t_key x of
            Some key \<Rightarrow>
              ebind (buf_read (unat (m_data_length (p_msg p))) (p_data p)) (\<lambda>token. send_auth_response env key token t w)
          | None \<Rightarrow> send_auth_publickey env t w))
      else if arg0 = ADB_AUTH_SIGNATURE then
        ebind (mod_trans t (\<lambda>x. x\<lparr>t_failed_auth_attempts := t_failed_auth_attempts x + 1\<rparr>) w) (send_auth_request t)
      else Inr w)"

text \<open>The name in an \<open>OPEN\<close> packet: the last byte of the payload is overwritten by NUL.\<close>

definition open_name :: "apacket \<Rightarrow> err + string" where
  "open_name p =
     (let n = unat (m_data_length (p_msg p)) in
      ebind (buf_write (if 0 < n then n - 1 else 0) [NUL] (p_data p)) cstr_at)"

definition handle_open :: "enqueue_op \<Rightarrow> apacket \<Rightarrow> addr \<Rightarrow> world \<Rightarrow> err + world" where
  "handle_open smart p t w =
     ebind (get_trans t w) (\<lambda>x.
       if t_online x \<and> m_arg0 (p_msg p) \<noteq> 0 \<and> m_arg1 (p_msg p) = 0 then
         ebind (open_name p) (\<lambda>name.
         ebind (create_local_service_socket name w) (\<lambda>(s, w).
           case s of
             None \<Rightarrow> send_close 0 (m_arg0 (p_msg p)) t w
           | Some a \<Rightarrow>
               ebind (attach_remote a (m_arg0 (p_msg p)) t w) (\<lambda>(b, w).
               ebind (get_sock a w) (\<lambda>s.
               ebind (get_sock b w) (\<lambda>r.
               ebind (send_ready (s_id s) (s_id r) t w) (sready smart a))))))
       else Inr w)"

definition handle_okay :: "enqueue_op \<Rightarrow> apacket \<Rightarrow> addr \<Rightarrow> world \<Rightarrow> err + world" where
  "handle_okay smart p t w =
     ebind (get_trans t w) (\<lambda>x.
       if t_online x \<and> m_arg0 (p_msg p) \<noteq> 0 \<and> m_arg1 (p_msg p) \<noteq> 0 then
         ebind (find_local_socket (m_arg1 (p_msg p)) 0 w) (\<lambda>(r, w).
           case r of
             None \<Rightarrow> Inr w
           | Some a \<Rightarrow>
               ebind (get_sock a w) (\<lambda>s.
                 case s_peer s of
                   None \<Rightarrow> ebind (attach_remote a (m_arg0 (p_msg p)) t w) (\<lambda>(_, w). sready smart a w)
                 | Some b \<Rightarrow>
                     ebind (get_sock b w) (\<lambda>ps.
                       if s_id ps = m_arg0 (p_msg p) then sready smart a w else Inr w)))
       else Inr w)"

definition handle_clse :: "apacket \<Rightarrow> addr \<Rightarrow> world \<Rightarrow> err + world" where
  "handle_clse p t w =
     ebind (get_trans t w) (\<lambda>x.
       if t_online x \<and> m_arg1 (p_msg p) \<noteq> 0 then
         ebind (find_local_socket (m_arg1 (p_msg p)) (m_arg0 (p_msg p)) w) (\<lambda>(r, w).
           case r of
             None \<Rightarrow> Inr w
           | Some a \<Rightarrow>
               ebind (get_sock a w) (\<lambda>s.
               ebind (case s_peer s of
                   None \<Rightarrow> Inr False
                 | Some b \<Rightarrow> ebind (get_sock b w) (\<lambda>ps. Inr (m_arg0 (p_msg p) = 0 \<and> s_transport ps \<noteq> Some t))) (\<lambda>foreign.
                 if foreign then Inr w else sock_close a w)))
       else Inr w)"

definition handle_wrte :: "enqueue_op \<Rightarrow> apacket \<Rightarrow> addr \<Rightarrow> world \<Rightarrow> err + world" where
  "handle_wrte smart p t w =
     ebind (get_trans t w) (\<lambda>x.
       if t_online x \<and> m_arg0 (p_msg p) \<noteq> 0 \<and> m_arg1 (p_msg p) \<noteq> 0 then
         ebind (find_local_socket (m_arg1 (p_msg p)) (m_arg0 (p_msg p)) w) (\<lambda>(r, w).
           case r of
             None \<Rightarrow> Inr w
           | Some a \<Rightarrow>
               ebind (senqueue smart a (p\<lparr>p_len := unat (m_data_length (p_msg p))\<rparr>) w) (\<lambda>(r, w).
                 if r = 0 then ebind (get_sock a w) (\<lambda>s. send_ready (s_id s) (m_arg0 (p_msg p)) t w) else Inr w))
       else Inr w)"

definition handle_hdsk :: "apacket \<Rightarrow> addr \<Rightarrow> world \<Rightarrow> err + world" where
  "handle_hdsk p t w =
     (if m_arg0 (p_msg p) = PAX_HANDSHAKE_REQ \<and> w_HOST w then
        send_packet (get_apacket\<lparr>p_msg := zero_msg\<lparr>m_command := A_HDSK, m_arg0 := PAX_HANDSHAKE_RES, m_arg1 := 0,
          m_data_length := of_nat (length PAX_HANDSHAKE_MAGIC)\<rparr>, p_data := PAX_HANDSHAKE_MAGIC\<rparr>) (Some t) w
      else Inr w)"

definition handle_packet :: "enqueue_op \<Rightarrow> auth_env \<Rightarrow> apacket \<Rightarrow> addr \<Rightarrow> world \<Rightarrow> err + world" where
  "handle_packet smart env p t w =
     (let c = m_command (p_msg p) in
      if c = A_SYNC then handle_sync p t w
      else if c = A_CNXN then handle_cnxn smart p t w
      else if c = A_AUTH then handle_auth env p t w
      else if c = A_OPEN then handle_open smart p t w
      else if c = A_OKAY then handle_okay smart p t w
      else if c = A_CLSE then handle_clse p t w
      else if c = A_WRTE then handle_wrte smart p t w
      else if c = A_HDSK then handle_hdsk p t w
      else Inr w)"

text \<open>\<open>transport_socket_events\<close>: \<open>read_packet\<close> takes the address of a packet that the output
  thread has posted.\<close>

definition transport_socket_events :: "enqueue_op \<Rightarrow> auth_env \<Rightarrow> addr \<Rightarrow> int \<Rightarrow> u16 \<Rightarrow> world \<Rightarrow> err + world" where
  "transport_socket_events smart env t fd ev w =
     (if ev AND FDE_READ = 0 then Inr w
      else ebind (get_trans t w) (\<lambda>x.
        ebind (read_packet (w_rs w fd)) (\<lambda>(r, rs).
          let w = w\<lparr>w_rs := (w_rs w)(fd := rs)\<rparr> in
          case r of
            None \<Rightarrow> Inr w
          | Some _ \<Rightarrow>
              (case t_from_remote x of
                 [] \<Rightarrow> Inl Blocked
               | p # ps \<Rightarrow>
                   ebind (mod_trans t (\<lambda>x. x\<lparr>t_from_remote := ps\<rparr>) w) (handle_packet smart env p t)))))"

section \<open>Steps that keep the server well formed\<close>

lemma listeners_grow:
  assumes "listeners_inv w" and "w_listeners w' = w_listeners w" "w_listener_list w' = w_listener_list w" "w_next w \<le> w_next w'"
    "\<And>l. owned (w_fdev w') (FListener l) = owned (w_fdev w) (FListener l)" "registered w' = registered w"
  shows "listeners_inv w'"
proof (rule listenersI)
  note L = listenersD [OF assms(1)]
  show "distinct (w_listener_list w')" using L(1) by (simp add: assms)
  show "l \<in> set (w_listener_list w') \<longleftrightarrow> w_listeners w' l \<noteq> None" for l using L(2) by (simp add: assms)
  show "w_listeners w' l \<noteq> None \<Longrightarrow> l < w_next w'" for l using L(3) [of l] assms(4) by (simp add: assms(2))
  show "owned (w_fdev w') (FListener l) \<longleftrightarrow> w_listeners w' l \<noteq> None" for l using L(4) by (simp add: assms)
  show "registered w' t l \<longleftrightarrow> (\<exists>x. w_listeners w' l = Some x \<and> l_transport x = Some t)" for t l using L(5) by (simp add: assms)
  show "w_listeners w' l = Some x \<Longrightarrow> l_transport x = None \<Longrightarrow> special x" for l x using L(6) by (simp add: assms)
  show "w_listeners w' l = Some x \<Longrightarrow> w_listeners w' l' = Some x' \<Longrightarrow> l_local_name x = l_local_name x' \<Longrightarrow> l = l'" for l x l' x'
    using L(7) unfolding assms by blast
qed

text \<open>The server is well formed and the transport is allocated.\<close>

definition serving :: "addr \<Rightarrow> world \<Rightarrow> bool" where
  "serving t w \<longleftrightarrow> wf_server w \<and> w_trans w t \<noteq> None"

lemma serving_dis: "serving t w \<Longrightarrow> w_dis w t \<noteq> None"
  by (auto simp: serving_def w_dis_def)

lemma sends_only_alive: "sends_only w w' \<Longrightarrow> w_trans w t \<noteq> None \<Longrightarrow> w_trans w' t \<noteq> None"
  unfolding sends_only_def by (auto dest!: spec [of _ t] split: option.splits)

lemma serving_quiet: "serving t w \<Longrightarrow> quiet w w' \<Longrightarrow> serving t w'"
  using sends_only_alive [of w w' t] by (auto simp: serving_def server_quiet quiet_def)

lemma serving_shrinks: "serving t w \<Longrightarrow> shrinks X w w' \<Longrightarrow> wf_world w' \<Longrightarrow> serving t w'"
  using listeners_shrinks [of w X w'] sends_only_alive [of w w' t] by (auto simp: serving_def wf_server_def shrinks_def)

lemma serving_keeps: "serving t w \<Longrightarrow> keeps w w' \<Longrightarrow> wf_server w' \<Longrightarrow> serving t w'"
  using sends_only_alive [of w w' t] by (auto simp: serving_def keeps_def)

lemma serving_trans:
  assumes "serving t w" and "w_trans w t = Some x" and "t_disconnects y = t_disconnects x"
  shows "serving t (w\<lparr>w_trans := (w_trans w)(t \<mapsto> y)\<rparr>)"
proof -
  let ?w = "w\<lparr>w_trans := (w_trans w)(t \<mapsto> y)\<rparr>"
  have wf: "wf_world w" and li: "listeners_inv w" using assms(1) by (auto simp: serving_def wf_server_def)
  have dis: "w_dis ?w = w_dis w" using assms(2,3) by (auto simp: w_dis_def fun_eq_iff)
  have "wf_world ?w" by (rule wf_world_frame [OF wf]) (use dis in simp_all)
  moreover have "listeners_inv ?w"
    using listeners_frame [of ?w w] li dis by (simp add: registered_def fun_eq_iff)
  ultimately show ?thesis by (simp add: serving_def wf_server_def)
qed

lemma serving_mod_trans:
  assumes "serving t w" and "\<And>x. t_disconnects (g x) = t_disconnects x"
  shows "ok (mod_trans t g w) (\<lambda>w'. serving t w' \<and> w_HOST w' = w_HOST w \<and> (\<exists>x. w_trans w' t = Some (g x)))"
proof -
  obtain x where x: "w_trans w t = Some x" using assms(1) by (auto simp: serving_def)
  show ?thesis using serving_trans [OF assms(1) x] assms(2) x by (auto simp: mod_trans_def get_trans_def)
qed

lemma serving_send:
  assumes "serving t w" and "unat (m_data_length (p_msg p)) \<le> length (p_data p)"
  shows "ok (send_packet p (Some t) w) (\<lambda>w'. serving t w' \<and> quiet w w')"
  by (rule ok_mono [OF send_packet_ok [OF serving_dis [OF assms(1)] assms(2)]]) (use serving_quiet [OF assms(1)] in blast)

lemma serving_update: "serving t w \<Longrightarrow> ok (update_transports smart w) (\<lambda>w'. serving t w' \<and> w_HOST w' = w_HOST w)"
  using update_transports_ok [of w smart] serving_shrinks [of t w UNIV]
  by (auto simp: serving_def wf_server_def shrinks_def elim!: ok_mono)

lemma serving_offline:
  assumes "serving t w"
  shows "ok (handle_offline t w) (\<lambda>w'. serving t w' \<and> w_HOST w' = w_HOST w)"
  unfolding handle_offline_def
proof (rule ok_ebind [OF serving_mod_trans [OF assms]])
  fix w1
  assume a: "serving t w1 \<and> w_HOST w1 = w_HOST w \<and> (\<exists>x. w_trans w1 t = Some (x\<lparr>t_online := False\<rparr>))"
  then obtain y where "w_trans w1 t = Some y" "wf_server w1" by (auto simp: serving_def)
  from run_transport_disconnects_ok [OF this(2,1)]
  show "ok (run_transport_disconnects t w1) (\<lambda>w'. serving t w' \<and> w_HOST w' = w_HOST w)"
    by (rule ok_mono) (use a serving_keeps [of t w1] in \<open>auto simp: keeps_def\<close>)
qed simp

lemma banner_property_dis [simp]: "t_disconnects (banner_property k x) = t_disconnects x"
  by (auto simp: banner_property_def Let_def split: option.split)

lemma fold_banner_dis: "t_disconnects (fold banner_property ks x) = t_disconnects x"
  by (induction ks arbitrary: x) auto

lemma parse_banner_ok:
  assumes "serving t w"
  shows "ok (parse_banner smart banner t w) (\<lambda>w'. serving t w' \<and> w_HOST w' = w_HOST w)"
proof -
  obtain type props where f: "banner_fields banner = (type, props)" by fastforce
  show ?thesis
    unfolding parse_banner_def f Let_def split_conv
    by (rule ok_ebind [OF serving_mod_trans [OF assms]])
       (auto simp: fold_banner_dis dest: serving_update [where smart = smart] elim!: ok_mono)
qed

lemma connect_data: "length fill_connect_data = 7"
  by (simp add: fill_connect_data_def)

lemma send_connect_ok: "serving t w \<Longrightarrow> ok (send_connect t w) (serving t)"
  unfolding send_connect_def by (rule ok_mono [OF serving_send]) (simp_all add: connect_data)

lemma send_ready_ok: "serving t w \<Longrightarrow> ok (send_ready i j t w) (\<lambda>w'. serving t w' \<and> quiet w w')"
  unfolding send_ready_def by (rule serving_send) (simp_all add: zero_msg_def)

lemma send_close_ok: "serving t w \<Longrightarrow> ok (send_close i j t w) (serving t)"
  unfolding send_close_def by (rule ok_mono [OF serving_send]) (simp_all add: zero_msg_def)

section \<open>Each packet keeps the server well formed\<close>

text \<open>What \<open>remote_read\<close> gives: the payload is there and nothing else is in the buffer.\<close>

definition arrived :: "apacket \<Rightarrow> bool" where
  "arrived p \<longleftrightarrow> unat (m_data_length (p_msg p)) \<le> MAX_PAYLOAD \<and> length (p_data p) = unat (m_data_length (p_msg p))"

lemma handle_sync_ok:
  assumes "serving t w" and "arrived p"
  shows "ok (handle_sync p t w) (serving t)"
proof (cases "m_arg0 (p_msg p) = 0")
  case False
  have "ok (send_packet p (Some t) w) (\<lambda>w'. serving t w' \<and> quiet w w')"
    using assms by (intro serving_send) (simp_all add: arrived_def)
  then have "ok (ebind (send_packet p (Some t) w) (\<lambda>w. if w_HOST w then send_connect t w else Inr w)) (serving t)"
    by (rule ok_ebind) (auto intro: send_connect_ok)
  with False show ?thesis by (simp add: handle_sync_def)
next
  case True
  have "ok (handle_offline t w1) (serving t)" if "serving t w1" for w1
    by (rule ok_mono [OF serving_offline [OF that]]) blast
  moreover have "ok (send_packet p (Some t) w1) (serving t)" if "serving t w1" for w1
    using that assms(2) by (intro ok_mono [OF serving_send]) (auto simp: arrived_def)
  moreover have "ok (mod_trans t (\<lambda>x. x\<lparr>t_connection_state := CS_OFFLINE\<rparr>) w) (serving t)"
    by (rule ok_mono [OF serving_mod_trans [OF assms(1)]]) auto
  ultimately have "ok (ebind (mod_trans t (\<lambda>x. x\<lparr>t_connection_state := CS_OFFLINE\<rparr>) w) (\<lambda>w.
        ebind (handle_offline t w) (send_packet p (Some t)))) (serving t)"
    by (intro ok_ebind) blast+
  with True show ?thesis by (simp add: handle_sync_def)
qed

lemma handle_cnxn_ok:
  assumes "serving t w" and "NUL \<in> set (p_data p)"
  shows "ok (handle_cnxn smart p t w) (serving t)"
proof -
  obtain x where x: "get_trans t w = Inr x" using assms(1) by (auto simp: serving_def get_trans_def)
  obtain banner where b: "cstr_at (p_data p) = Inr banner" using assms(2) by (simp add: cstr_at_def)
  have off: "ok (handle_offline t w1) (serving t)" if "serving t w1" for w1
    by (rule ok_mono [OF serving_offline [OF that]]) blast
  have st: "ok (mod_trans t (\<lambda>x. x\<lparr>t_connection_state := CS_OFFLINE\<rparr>) w) (serving t)"
    by (rule ok_mono [OF serving_mod_trans [OF assms(1)]]) auto
  have 1: "ok (if t_connection_state x \<noteq> CS_OFFLINE then
              ebind (mod_trans t (\<lambda>x. x\<lparr>t_connection_state := CS_OFFLINE\<rparr>) w) (handle_offline t)
            else Inr w) (serving t)"
    using assms(1) by (auto intro: ok_ebind [OF st] off)
  have 2: "ok (parse_banner smart banner t w1) (serving t)" if "serving t w1" for w1
    by (rule ok_mono [OF parse_banner_ok [OF that]]) blast
  have 3: "ok (handle_online t w1) (serving t)" if "serving t w1" for w1
    unfolding handle_online_def by (rule ok_mono [OF serving_mod_trans [OF that]]) auto
  have 4: "ok (if w_HOST w1 \<or> \<not> w_auth_enabled w1 then
         ebind (handle_online t w1) (\<lambda>w. if w_HOST w then Inr w else send_connect t w)
       else send_auth_request t w1) (serving t)" if "serving t w1" for w1
    using that by (auto intro!: ok_ebind [OF 3] send_connect_ok simp: send_auth_request_def serving_def get_trans_def)
  show ?thesis
    unfolding handle_cnxn_def x b ebind_simps
    by (rule ok_ebind [OF 1], rule ok_ebind [OF 2], assumption, rule 4)
qed

lemma send_auth_packet_ok:
  assumes "serving t w" and "length d \<le> MAX_PAYLOAD"
  shows "ok (send_auth_packet k d t w) (serving t)"
  unfolding send_auth_packet_def
  using assms by (auto intro!: ok_mono [OF serving_send] simp: unat_of_nat_payload)

lemma handle_auth_ok:
  assumes "serving t w" and "arrived p" and "\<And>k tok sig. ae_sign env k tok = Some sig \<Longrightarrow> length sig \<le> MAX_PAYLOAD"
  shows "ok (handle_auth env p t w) (serving t)"
proof -
  have sign: "ok (send_auth_response env key tok t w1) (serving t)" if "serving t w1" for key tok w1
    unfolding send_auth_response_def adb_auth_sign_def
    using that assms(3) [of key tok] by (cases "ae_sign env key tok") (auto intro: send_auth_packet_ok)
  have pub: "ok (send_auth_publickey env t w1) (serving t)" if "serving t w1" for w1
    unfolding send_auth_publickey_def adb_auth_get_userkey_def
    using that by (auto intro!: send_auth_packet_ok split: option.split)
  have read: "\<exists>tok. buf_read (unat (m_data_length (p_msg p))) (p_data p) = Inr tok"
    using assms(2) by (simp add: buf_read_def arrived_def)
  have tok: "ok (ebind (get_trans t w1) (\<lambda>x.
          case t_key x of
            Some key \<Rightarrow>
              ebind (buf_read (unat (m_data_length (p_msg p))) (p_data p)) (\<lambda>token. send_auth_response env key token t w1)
          | None \<Rightarrow> send_auth_publickey env t w1)) (serving t)" if "serving t w1" for w1
    using that sign [OF that] pub [OF that] read by (auto simp: serving_def get_trans_def split: option.split)
  have req: "ok (send_auth_request t w1) (serving t)" if "serving t w1" for w1
    using that by (auto simp: send_auth_request_def serving_def get_trans_def)
  have m1: "ok (mod_trans t (\<lambda>x. x\<lparr>t_connection_state := CS_UNAUTHORIZED,
                 t_key := adb_auth_nextkey (w_key_list w) (t_key x)\<rparr>) w) (serving t)"
    by (rule ok_mono [OF serving_mod_trans [OF assms(1)]]) auto
  have m2: "ok (mod_trans t (\<lambda>x. x\<lparr>t_failed_auth_attempts := t_failed_auth_attempts x + 1\<rparr>) w) (serving t)"
    by (rule ok_mono [OF serving_mod_trans [OF assms(1)]]) auto
  show ?thesis
    unfolding handle_auth_def Let_def
    using ok_ebind [OF m1 tok] ok_ebind [OF m2 req] assms(1) by simp
qed

lemma handle_hdsk_ok: "serving t w \<Longrightarrow> ok (handle_hdsk p t w) (serving t)"
  unfolding handle_hdsk_def
  by (auto intro!: ok_mono [OF serving_send] simp: PAX_HANDSHAKE_MAGIC_def)

lemma handle_clse_ok:
  assumes "serving t w"
  shows "ok (handle_clse p t w) (serving t)"
proof -
  have wf: "wf_world w" using assms by (simp add: serving_def wf_server_def)
  obtain x where x: "get_trans t w = Inr x" using assms by (auto simp: serving_def get_trans_def)
  obtain r where r: "find_local_socket (m_arg1 (p_msg p)) (m_arg0 (p_msg p)) w = Inr (r, w)"
      "\<forall>a. r = Some a \<longrightarrow> stream_ids (m_arg1 (p_msg p)) (m_arg0 (p_msg p)) w a"
    using find_local_socket_ok [OF wf] by blast
  have "ok (case r of None \<Rightarrow> Inr w | Some a \<Rightarrow>
               ebind (get_sock a w) (\<lambda>s.
               ebind (case s_peer s of
                   None \<Rightarrow> Inr False
                 | Some b \<Rightarrow> ebind (get_sock b w) (\<lambda>ps. Inr (m_arg0 (p_msg p) = 0 \<and> s_transport ps \<noteq> Some t))) (\<lambda>foreign.
                 if foreign then Inr w else sock_close a w))) (serving t)"
  proof (cases r)
    case None
    then show ?thesis using assms by simp
  next
    case (Some a)
    then obtain s where s: "w_socks w a = Some s" using r(2) by (auto simp: stream_ids_def)
    have c: "ok (sock_close a w) (serving t)"
      by (rule ok_mono [OF sock_close_ok [OF wf s]])
         (use serving_shrinks [OF assms] in \<open>auto simp: closed_post_def\<close>)
    show ?thesis
    proof (cases "s_peer s")
      case None
      then show ?thesis using Some s c by (simp add: get_sock_Some)
    next
      case (Some b)
      have "peers_inv {} w" using wf by (simp add: wf_world_def wf_upto_def)
      then obtain ps where "w_socks w b = Some ps" using s Some unfolding peers_inv_def by blast
      then show ?thesis using \<open>r = Some a\<close> Some s c assms by (simp add: get_sock_Some)
    qed
  qed
  then show ?thesis using assms by (simp add: handle_clse_def x r(1))
qed

lemma handle_wrte_ok:
  assumes "serving t w" and "arrived p"
  shows "ok (handle_wrte smart p t w) (serving t)"
proof -
  have wf: "wf_world w" using assms by (simp add: serving_def wf_server_def)
  obtain x where x: "get_trans t w = Inr x" using assms by (auto simp: serving_def get_trans_def)
  obtain r where r: "find_local_socket (m_arg1 (p_msg p)) (m_arg0 (p_msg p)) w = Inr (r, w)"
      "\<forall>a. r = Some a \<longrightarrow> stream_ids (m_arg1 (p_msg p)) (m_arg0 (p_msg p)) w a"
    using find_local_socket_ok [OF wf] by blast
  show ?thesis
  proof (cases "t_online x \<and> m_arg0 (p_msg p) \<noteq> 0 \<and> m_arg1 (p_msg p) \<noteq> 0")
    case False
    then show ?thesis using assms by (auto simp: handle_wrte_def x)
  next
    case True
    show ?thesis
    proof (cases r)
      case None
      then show ?thesis using assms by (simp add: handle_wrte_def x r(1))
    next
      case (Some a)
      obtain s where s: "w_socks w a = Some s" "is_local s" "s_peer s \<noteq> None"
        using r(2) Some True by (auto simp: stream_ids_def)
      let ?p = "p\<lparr>p_len := unat (m_data_length (p_msg p))\<rparr>"
      have eq: "senqueue smart a ?p w = local_socket_enqueue a ?p w"
        using s(1,2) by (simp add: senqueue_def get_sock_Some is_local_def)
      have e: "ok (senqueue smart a ?p w) (enqueue_post a s w)"
        unfolding eq by (rule local_socket_enqueue_ok [OF wf s]) (use assms(2) in \<open>auto simp: arrived_def\<close>)
      have "ok (ebind (senqueue smart a ?p w) (\<lambda>(r, w).
                 if r = 0 then ebind (get_sock a w) (\<lambda>s. send_ready (s_id s) (m_arg0 (p_msg p)) t w) else Inr w)) (serving t)"
      proof (rule ok_ebind [OF e], clarify)
        fix r w1
        assume p: "enqueue_post a s w (r, w1)"
        then have sv: "serving t w1" using serving_shrinks [OF assms(1)] by (auto simp: enqueue_post_def)
        have "ok (send_ready i (m_arg0 (p_msg p)) t w1) (serving t)" for i
          by (rule ok_mono [OF send_ready_ok [OF sv]]) blast
        then show "ok (if r = 0 then ebind (get_sock a w1) (\<lambda>s. send_ready (s_id s) (m_arg0 (p_msg p)) t w1) else Inr w1) (serving t)"
          using p sv by (auto simp: enqueue_post_def get_sock_Some)
      qed
      then show ?thesis using True Some by (simp add: handle_wrte_def x r(1))
    qed
  qed
qed

text \<open>A remote socket for a local one that has no peer yet.\<close>

lemma listeners_link: "listeners_inv (link a s b r w) = listeners_inv w"
  by (rule listeners_frame) (simp_all add: link_def registered_def w_dis_def fun_eq_iff)

lemma attach_remote_ok:
  assumes sv: "serving t w" and a: "w_socks w a = Some s"
  shows "ok (attach_remote a i t w) (\<lambda>(b, w'). \<exists>w1. w' = link a s b (remote_asocket i t) w1 \<and> serving t w1 \<and> a \<noteq> b \<and>
     w_socks w1 a = Some s \<and> w_socks w1 b = Some (remote_asocket i t))"
proof -
  obtain x where x: "w_trans w t = Some x" using sv by (auto simp: serving_def)
  have wf: "wf_world w" and li: "listeners_inv w" using sv by (auto simp: serving_def wf_server_def)
  have ab: "a \<noteq> w_next w" using wf a by (auto simp: wf_world_def wf_upto_def kinds_inv_def)
  show ?thesis
    unfolding attach_remote_def
  proof (rule ok_ebind [OF create_remote_socket_ok [OF wf x]], clarify)
    fix b
    let ?w = "w\<lparr>w_socks := (w_socks w)(w_next w \<mapsto> remote_asocket i t), w_next := Suc (w_next w),
        w_trans := (w_trans w)(t \<mapsto> x\<lparr>t_disconnects := t_disconnects x @ [Dis_remote (w_next w)]\<rparr>)\<rparr>"
    assume "wf_world ?w"
    moreover have "listeners_inv ?w"
      by (rule listeners_grow [OF li]) (auto simp: registered_def w_dis_def x fun_eq_iff)
    ultimately have "serving t ?w" by (simp add: serving_def wf_server_def)
    then show "ok (ebind (mod_sock a (\<lambda>s. s\<lparr>s_peer := Some (w_next w)\<rparr>) ?w) (\<lambda>w'.
        ebind (mod_sock (w_next w) (\<lambda>s. s\<lparr>s_peer := Some a\<rparr>) w') (\<lambda>w'. Inr (w_next w, w')))) (\<lambda>(b, w'). \<exists>w1.
        w' = link a s b (remote_asocket i t) w1 \<and> serving t w1 \<and> a \<noteq> b \<and>
        w_socks w1 a = Some s \<and> w_socks w1 b = Some (remote_asocket i t))"
      using a ab by (auto simp: mod_sock_def get_sock_def link_def intro!: exI [of _ ?w])
  qed
qed

lemma handle_okay_ok:
  assumes "serving t w"
  shows "ok (handle_okay smart p t w) (serving t)"
proof -
  have wf: "wf_world w" using assms by (simp add: serving_def wf_server_def)
  obtain x where x: "get_trans t w = Inr x" using assms by (auto simp: serving_def get_trans_def)
  obtain r where r: "find_local_socket (m_arg1 (p_msg p)) 0 w = Inr (r, w)"
      "\<forall>a. r = Some a \<longrightarrow> stream_ids (m_arg1 (p_msg p)) 0 w a"
    using find_local_socket_ok [OF wf] by blast
  show ?thesis
  proof (cases r)
    case None
    then show ?thesis using assms by (simp add: handle_okay_def x r(1))
  next
    case (Some a)
    then obtain s where s: "w_socks w a = Some s" "is_local s" "\<not> s_closing s" using r(2) by (auto simp: stream_ids_def)
    show ?thesis
    proof (cases "s_peer s")
      case None
      have "ok (ebind (attach_remote a (m_arg0 (p_msg p)) t w) (\<lambda>(_, w). sready smart a w)) (serving t)"
      proof (rule ok_ebind [OF attach_remote_ok [OF assms s(1)]], clarify)
        fix b w1
        let ?r = "remote_asocket (m_arg0 (p_msg p)) t"
        assume w1: "serving t w1" "a \<noteq> b" "w_socks w1 a = Some s" "w_socks w1 b = Some ?r"
        have wf1: "wf_world w1" using w1(1) by (simp add: serving_def wf_server_def)
        have "ok (sready smart a (link a s b ?r w1)) (\<lambda>w'. wf_world w' \<and> shrinks {} (link a (plain_local s) b ?r w1) w')"
          by (rule link_ready_ok [OF wf1 w1(2,3) s(2) None s(3) w1(4)]) simp_all
        then show "ok (sready smart a (link a s b ?r w1)) (serving t)"
        proof (rule ok_mono, elim conjE)
          fix w'
          assume w': "wf_world w'" "shrinks {} (link a (plain_local s) b ?r w1) w'"
          have "listeners_inv (link a (plain_local s) b ?r w1)" "w_trans (link a (plain_local s) b ?r w1) t \<noteq> None"
            using w1(1) by (simp_all add: serving_def wf_server_def listeners_link) (simp add: link_def)
          then show "serving t w'"
            using w' listeners_shrinks sends_only_alive unfolding serving_def wf_server_def shrinks_def by blast
        qed
      qed
      then show ?thesis using assms s None Some by (simp add: handle_okay_def x r(1) get_sock_Some)
    next
      case (Some b)
      have "peers_inv {} w" "locals_inv {} w" using wf by (simp_all add: wf_world_def wf_upto_def)
      then obtain ps where ps: "w_socks w b = Some ps" and "s_close s = Local_close"
        using s Some unfolding peers_inv_def locals_inv_def is_local_def by fastforce
      then have "plain_local s = s" using s(2) by (intro plain_local_id)
      then have "ok (sready smart a w) (\<lambda>w'. wf_world w' \<and> shrinks {} w w')"
        using ready_local_ok [OF s(1,2), of smart] wf s(1) by (simp add: fun_upd_idem)
      then have "ok (sready smart a w) (serving t)"
        by (rule ok_mono) (use serving_shrinks [OF assms] in blast)
      then show ?thesis using assms s Some ps \<open>r = Some a\<close> by (simp add: handle_okay_def x r(1) get_sock_Some)
    qed
  qed
qed

lemma create_service_ok:
  assumes "serving t w"
  shows "ok (create_local_service_socket name w) (\<lambda>(r, w'). serving t w' \<and> (\<forall>a. r = Some a \<longrightarrow>
     (\<exists>i fd. w_socks w' a = Some (local_asocket i fd))))"
proof -
  have sv: "wf_server w" using assms by (simp add: serving_def)
  have fd: "ok (service_to_fd name w) (\<lambda>(fd, w'). serving t w' \<and> (\<forall>d. fd = Some d \<longrightarrow> free_fd (w_fdev w') d))"
    unfolding service_to_fd_def
    by (cases "service_endpoint name")
       (use assms open_fd_server [OF sv] in \<open>auto simp: serving_def elim!: ok_mono\<close>)
  show ?thesis
    unfolding create_local_service_socket_def
  proof (rule ok_ebind [OF fd], clarify)
    fix fd w1
    assume w1: "serving t w1" "\<forall>d. fd = Some d \<longrightarrow> free_fd (w_fdev w1) d"
    have wf: "wf_world w1" and li: "listeners_inv w1" using w1(1) by (auto simp: serving_def wf_server_def)
    show "ok (case fd of None \<Rightarrow> Inr (None, w1) | Some fd \<Rightarrow> ebind (create_local_socket fd w1) (\<lambda>(a, w). Inr (Some a, w)))
        (\<lambda>(r, w'). serving t w' \<and> (\<forall>a. r = Some a \<longrightarrow> (\<exists>i fd. w_socks w' a = Some (local_asocket i fd))))"
    proof (cases fd)
      case None
      then show ?thesis using w1(1) by simp
    next
      case (Some d)
      then have "free_fd (w_fdev w1) d" using w1(2) by blast
      from create_local_socket_ok [OF wf this]
      obtain f n where c: "create_local_socket d w1 = Inr (w_next w1, w1\<lparr>w_socks := (w_socks w1)(w_next w1 \<mapsto>
            local_asocket (w_next_id w1) d), w_next := Suc (w_next w1), w_next_id := n,
            w_local := w_local w1 @ [w_next w1], w_fdev := f\<rparr>)"
          "owned f = (owned (w_fdev w1))(FSock (w_next w1) := True)"
          "wf_world (w1\<lparr>w_socks := (w_socks w1)(w_next w1 \<mapsto> local_asocket (w_next_id w1) d), w_next := Suc (w_next w1),
            w_next_id := n, w_local := w_local w1 @ [w_next w1], w_fdev := f\<rparr>)" by blast
      have "listeners_inv (w1\<lparr>w_socks := (w_socks w1)(w_next w1 \<mapsto> local_asocket (w_next_id w1) d), w_next := Suc (w_next w1),
            w_next_id := n, w_local := w_local w1 @ [w_next w1], w_fdev := f\<rparr>)"
        by (rule listeners_grow [OF li]) (simp_all add: c(2) registered_def w_dis_def fun_eq_iff)
      then show ?thesis using Some c(1,3) w1(1) by (auto simp: serving_def wf_server_def)
    qed
  qed
qed

lemma open_name_eq:
  assumes "arrived p"
  shows "open_name p = Inr (takeWhile (\<lambda>c. c \<noteq> NUL) (butlast (p_data p)))"
proof -
  let ?n = "unat (m_data_length (p_msg p))" and ?k = "if 0 < unat (m_data_length (p_msg p)) then unat (m_data_length (p_msg p)) - 1 else 0"
  have a: "?n \<le> MAX_PAYLOAD" "length (p_data p) = ?n" "0 < MAX_PAYLOAD"
    using assms by (simp_all add: arrived_def MAX_PAYLOAD_def)
  then have "buf_write ?k [NUL] (p_data p) = Inr (take ?k (p_data p) @ [NUL])"
    by (auto simp: buf_write_def)
  moreover have "take ?k (p_data p) = butlast (p_data p)" using a(2) by (auto simp: butlast_conv_take)
  ultimately show ?thesis by (simp add: open_name_def cstr_at_def Let_def takeWhile_tail)
qed

lemma handle_open_ok:
  assumes "serving t w" and "arrived p"
  shows "ok (handle_open smart p t w) (serving t)"
proof -
  obtain x where x: "get_trans t w = Inr x" using assms by (auto simp: serving_def get_trans_def)
  obtain name where n: "open_name p = Inr name"
    using open_name_eq [OF assms(2)] by blast
  let ?i = "m_arg0 (p_msg p)"
  have "ok (ebind (create_local_service_socket name w) (\<lambda>(s, w).
           case s of
             None \<Rightarrow> send_close 0 ?i t w
           | Some a \<Rightarrow>
               ebind (attach_remote a ?i t w) (\<lambda>(b, w).
               ebind (get_sock a w) (\<lambda>s.
               ebind (get_sock b w) (\<lambda>r.
               ebind (send_ready (s_id s) (s_id r) t w) (sready smart a)))))) (serving t)"
  proof (rule ok_ebind [OF create_service_ok [OF assms(1)]], clarify)
    fix r w1
    assume w1: "serving t w1" "\<forall>a. r = Some a \<longrightarrow> (\<exists>i fd. w_socks w1 a = Some (local_asocket i fd))"
    show "ok (case r of None \<Rightarrow> send_close 0 ?i t w1 | Some a \<Rightarrow>
               ebind (attach_remote a ?i t w1) (\<lambda>(b, w). ebind (get_sock a w) (\<lambda>s. ebind (get_sock b w) (\<lambda>r.
               ebind (send_ready (s_id s) (s_id r) t w) (sready smart a))))) (serving t)"
    proof (cases r)
      case None
      then show ?thesis using send_close_ok [OF w1(1)] by simp
    next
      case (Some a)
      then obtain i fd where s: "w_socks w1 a = Some (local_asocket i fd)" using w1(2) by blast
      let ?s = "local_asocket i fd" and ?r = "remote_asocket ?i t"
      have "ok (ebind (attach_remote a ?i t w1) (\<lambda>(b, w). ebind (get_sock a w) (\<lambda>s. ebind (get_sock b w) (\<lambda>r.
               ebind (send_ready (s_id s) (s_id r) t w) (sready smart a))))) (serving t)"
      proof (rule ok_ebind [OF attach_remote_ok [OF w1(1) s]], clarify)
        fix b w2
        let ?l = "link a ?s b ?r w2"
        assume w2: "serving t w2" "a \<noteq> b" "w_socks w2 a = Some ?s" "w_socks w2 b = Some ?r"
        have "wf_upto {} w2" "unlocked w2" using w2(1) by (simp_all add: serving_def wf_server_def wf_world_def)
        then have "wf_world ?l"
          using wf_link [of "{}" w2 a b ?s ?r] w2(2-4) by (simp add: wf_world_def unlocked_def link_def)
        then have sl: "serving t ?l" using w2(1) by (simp add: serving_def wf_server_def listeners_link) (simp add: link_def)
        have socks: "w_socks ?l a = Some (?s\<lparr>s_peer := Some b\<rparr>)" "w_socks ?l b = Some (?r\<lparr>s_peer := Some a\<rparr>)"
          using w2(2) by (simp_all add: link_def)
        have rd: "ok (sready smart a w3) (serving t)" if w3: "serving t w3" "quiet ?l w3" for w3
        proof -
          have a3: "w_socks w3 a = Some (?s\<lparr>s_peer := Some b\<rparr>)" using w3(2) socks(1) by (simp add: quiet_def)
          have p: "plain_local (?s\<lparr>s_peer := Some b\<rparr>) = ?s\<lparr>s_peer := Some b\<rparr>" by (rule plain_local_id) simp_all
          have "wf_world w3" using w3(1) by (simp add: serving_def wf_server_def)
          then have "ok (sready smart a w3) (\<lambda>w'. wf_world w' \<and> shrinks {} w3 w')"
            using ready_local_ok [OF a3, of smart] a3 p by (simp add: fun_upd_idem)
          then show ?thesis by (rule ok_mono) (use serving_shrinks [OF w3(1)] in blast)
        qed
        have "ok (ebind (send_ready j k t ?l) (sready smart a)) (serving t)" for j k
          by (rule ok_ebind [OF send_ready_ok [OF sl]]) (use rd in blast)
        then show "ok (ebind (get_sock a ?l) (\<lambda>s. ebind (get_sock b ?l) (\<lambda>r.
               ebind (send_ready (s_id s) (s_id r) t ?l) (sready smart a)))) (serving t)"
          using socks by (simp add: get_sock_Some)
      qed
      then show ?thesis using Some by simp
    qed
  qed
  then show ?thesis using assms(1) n by (simp add: handle_open_def x)
qed

section \<open>Properties\<close>

lemma handle_packet_ok:
  assumes sv: "serving t w" and ar: "arrived p" and "m_command (p_msg p) = A_CNXN \<Longrightarrow> NUL \<in> set (p_data p)"
    and "\<And>k tok sig. ae_sign env k tok = Some sig \<Longrightarrow> length sig \<le> MAX_PAYLOAD"
  shows "ok (handle_packet smart env p t w) (serving t)"
  unfolding handle_packet_def Let_def
  using sv handle_sync_ok [OF sv ar] handle_cnxn_ok [OF sv, of p smart] assms(3) handle_auth_ok [OF sv ar assms(4)]
    handle_open_ok [OF sv ar, of smart] handle_okay_ok [OF sv, of smart p] handle_clse_ok [OF sv, of p]
    handle_wrte_ok [OF sv ar, of smart] handle_hdsk_ok [OF sv, of p]
  by simp


definition no_auth :: auth_env where
  "no_auth = \<lparr>ae_sign = (\<lambda>_ _. None), ae_pubkey = None\<rparr>"

definition sample_clse :: apacket where
  "sample_clse = get_apacket\<lparr>p_msg := zero_msg\<lparr>m_command := A_CLSE, m_arg0 := 9, m_arg1 := 1, m_magic := A_CLSE XOR 0xffffffff\<rparr>\<rparr>"


text \<open>What a packet that is handed to the input thread looks like.\<close>

lemma send_packet_appends:
  assumes "w_trans w t = Some x" and "write_packet (w_ws w (t_transport_socket x)) = Inr (True, ws)"
    and "length (p_data p) \<le> MAX_PAYLOAD" and "unat (m_data_length (p_msg p)) = length (p_data p)"
  shows "\<exists>q. send_packet p (Some t) w = Inr (w\<lparr>w_ws := (w_ws w)(t_transport_socket x := ws),
      w_trans := (w_trans w)(t \<mapsto> x\<lparr>t_to_remote := t_to_remote x @ [q]\<rparr>)\<rparr>) \<and> valid_packet q \<and>
    p_data q = p_data p \<and> m_command (p_msg q) = m_command (p_msg p) \<and> m_arg0 (p_msg q) = m_arg0 (p_msg p)"
proof -
  obtain q where "seal_packet p = Inr q" "valid_packet q" "p_data q = p_data p" "m_command (p_msg q) = m_command (p_msg p)"
      "m_arg0 (p_msg q) = m_arg0 (p_msg p)"
    using seal_packet_valid [of p] assms(3,4) by auto
  then show ?thesis using assms(1,2) by (intro exI [of _ q]) (simp add: send_packet_def get_trans_def)
qed



lemma successor_nth: "distinct ks \<Longrightarrow> n < length ks \<Longrightarrow> successor (ks ! n) ks = (if Suc n < length ks then Some (ks ! Suc n) else None)"
proof (induction ks arbitrary: n)
  case (Cons k ks)
  show ?case
  proof (cases n)
    case 0
    then show ?thesis by (cases ks) simp_all
  next
    case (Suc m)
    then have "ks ! m \<noteq> k" using Cons.prems by auto
    then show ?thesis using Cons Suc by simp
  qed
qed simp


definition sample_auth :: auth_env where
  "sample_auth = \<lparr>ae_sign = (\<lambda>k tok. Some (char_of k # tok)), ae_pubkey = Some ''QAAA''\<rparr>"

definition sample_challenge :: apacket where
  "sample_challenge = get_apacket\<lparr>p_msg := zero_msg\<lparr>m_command := A_AUTH, m_arg0 := ADB_AUTH_TOKEN, m_data_length := 2\<rparr>, p_data := ''ab''\<rparr>"


end
