(* ===== verification/Adb_Smart.thy ===== *)
theory Adb_Smart
  imports Adb_Protocol
begin

text \<open>
  The requests of the clients: the smart socket, which collects the first request of a
  connection and acts on it (sockets.c), the requests that the server answers itself
  (\<open>handle_host_request\<close> and \<open>handle_forward_request\<close> of adb.c) and the services that run in a
  thread of their own (services.c).
\<close>

section \<open>Decoding a request\<close>

definition hex_value :: "char \<Rightarrow> u32 option" where
  "hex_value c =
     (let n = (of_char c :: nat) in
      if 48 \<le> n \<and> n \<le> 57 then Some (of_nat (n - 48))
      else if 97 \<le> n \<and> n \<le> 102 then Some (of_nat (n - 97 + 10))
      else if 65 \<le> n \<and> n \<le> 70 then Some (of_nat (n - 65 + 10))
      else None)"

fun unhex_from :: "u32 \<Rightarrow> bytes \<Rightarrow> u32" where
  "unhex_from n [] = n"
| "unhex_from n (c # cs) =
     (case hex_value c of None \<Rightarrow> 0xffffffff | Some d \<Rightarrow> unhex_from ((push_bit 4 n) OR d) cs)"

definition unhex :: "bytes \<Rightarrow> u32" where
  "unhex s = unhex_from 0 s"

definition prefixes :: "string list" where
  "prefixes = [''usb:'', ''product:'', ''model:'', ''device:'']"

text \<open>\<open>skip_host_serial\<close>: the part of the string before the position returned and the part from
  it on, which starts with a colon; \<open>None\<close> is the null pointer.\<close>

definition split_colon :: "string \<Rightarrow> string \<Rightarrow> (string \<times> string) option" where
  "split_colon pre s = map_option (\<lambda>r. (pre @ upto_char (CHR '':'') s, r)) (strchr (CHR '':'') s)"

definition skip_host_serial :: "string \<Rightarrow> (string \<times> string) option" where
  "skip_host_serial service =
     (case find (\<lambda>p. starts_with p service) prefixes of
        Some p \<Rightarrow> split_colon p (drop (length p) service)
      | None \<Rightarrow>
          (case split_colon [] service of
             None \<Rightarrow> None
           | Some (host, first_colon) \<Rightarrow>
               let port = takeWhile isdigit (tl first_colon);
                   rest = dropWhile isdigit (tl first_colon)
               in if port \<noteq> [] \<and> rest \<noteq> [] \<and> hd rest = CHR '':''
                  then Some (host @ '':'' @ port, rest)
                  else Some (host, first_colon)))"

text \<open>The prefix of a request for the server: what is left, the type of transport and the serial
  number. \<open>None\<close> is a request for a service on the device.\<close>

definition host_request :: "string \<Rightarrow> (string \<times> transport_type \<times> string option) option" where
  "host_request service =
     (if starts_with ''host-serial:'' service then
        (let service = drop 12 service in
         case skip_host_serial service of
           Some (serial, rest) \<Rightarrow> Some (tl rest, kTransportAny, Some serial)
         | None \<Rightarrow> Some (service, kTransportAny, None))
      else if starts_with ''host-usb:'' service then Some (drop 9 service, kTransportUsb, None)
      else if starts_with ''host-local:'' service then Some (drop 11 service, kTransportLocal, None)
      else if starts_with ''host:'' service then Some (drop 5 service, kTransportAny, None)
      else None)"

section \<open>Answers\<close>

definition send_msg_with_okay :: "int \<Rightarrow> string \<Rightarrow> world \<Rightarrow> err + world" where
  "send_msg_with_okay fd msg w =
     (let msglen = (if 0xffff < length msg then 0xffff else length msg) in
      ebind (w_writex fd (''OKAY'' @ fmt_04x msglen) w) (\<lambda>(_, w).
      ebind (w_writex fd (take msglen msg) w) (\<lambda>(_, w). Inr w)))"

text \<open>A call of \<open>acquire_one_transport\<close> with \<open>CS_ANY\<close>, which looks at the list once.\<close>

definition w_acquire :: "transport_type \<Rightarrow> string option \<Rightarrow> world \<Rightarrow> err + (addr option \<times> string \<times> world)" where
  "w_acquire ttype serial w =
     ebind (lock_transports w) (\<lambda>w.
     ebind (get_all_trans (w_transport_list w) w) (\<lambda>xs.
     ebind (acquire_one_transport CS_ANY ttype serial [zip (w_transport_list w) xs]) (\<lambda>(t, e).
       Inr (t, e, unlock_transports w))))"

section \<open>Forwarding requests\<close>

text \<open>\<open>kill\<close> and the names of a forwarding request, \<open>None\<close> where it is malformed; the flag tells
  whether an existing forward must be kept.\<close>

datatype fwd_request = Forward string string bool | Killforward string | Malformed

definition forward_spec :: "string \<Rightarrow> fwd_request" where
  "forward_spec service =
     (let lcl = tl (the (strchr (CHR '':'') service)) in
      if \<not> starts_with ''kill'' service then
        (let no_rebind = starts_with ''norebind:'' lcl;
             lcl = (if no_rebind then drop 9 lcl else lcl)
         in case strchr (CHR '';'') lcl of
              None \<Rightarrow> Malformed
            | Some semi \<Rightarrow>
                let lcl = upto_char (CHR '';'') lcl; remote = tl semi in
                if lcl = [] \<or> remote = [] \<or> hd remote = CHR ''*'' then Malformed
                else Forward lcl remote no_rebind)
      else if lcl = [] then Malformed else Killforward lcl)"

definition install_message :: "install_status_t \<Rightarrow> string" where
  "install_message r =
     (case r of
        INSTALL_STATUS_CANNOT_BIND \<Rightarrow> ''cannot bind to socket''
      | INSTALL_STATUS_CANNOT_REBIND \<Rightarrow> ''cannot rebind existing socket''
      | _ \<Rightarrow> ''internal error'')"

text \<open>The two status messages of the host: the first for the connection, the second for the
  request.\<close>

definition write_okays :: "int \<Rightarrow> world \<Rightarrow> err + world" where
  "write_okays fd w =
     ebind (w_writex fd ''OKAY'' w) (\<lambda>(_, w). ebind (w_writex fd ''OKAY'' w) (\<lambda>(_, w). Inr w))"

definition fail_with :: "int \<Rightarrow> string \<Rightarrow> world \<Rightarrow> err + world" where
  "fail_with fd reason w = ebind (sendfailmsg fd reason w) (\<lambda>(_, w). Inr w)"

definition run_forward_spec :: "fwd_request \<Rightarrow> transport_type \<Rightarrow> string option \<Rightarrow> int \<Rightarrow> world \<Rightarrow> err + world" where
  "run_forward_spec spec ttype serial reply_fd w =
     (if spec = Malformed then fail_with reply_fd ''malformed forward spec'' w
      else ebind (w_acquire ttype serial w) (\<lambda>(t, e, w).
        if t = None then fail_with reply_fd e w
        else case spec of
          Forward lcl remote no_rebind \<Rightarrow>
            ebind (install_listener lcl remote t no_rebind w) (\<lambda>(r, w).
              if r = INSTALL_STATUS_OK then write_okays reply_fd w
              else fail_with reply_fd (install_message r) w)
        | Killforward lcl \<Rightarrow>
            ebind (remove_listener lcl w) (\<lambda>(r, w).
              if r = 0 then write_okays reply_fd w
              else fail_with reply_fd ''cannot remove listener'' w)
        | Malformed \<Rightarrow> Inr w))"

text \<open>\<open>handle_forward_request\<close> returns 1 where it handled the request and 0 where it is another
  one.\<close>

definition handle_forward_request :: "string \<Rightarrow> transport_type \<Rightarrow> string option \<Rightarrow> int \<Rightarrow> world \<Rightarrow> err + (int \<times> world)" where
  "handle_forward_request service ttype serial reply_fd w =
     (if service = ''list-forward'' then
        ebind (format_listeners (w_listener_list w) None [] w) (\<lambda>sized.
        ebind (format_listeners (w_listener_list w) (Some (length sized + 1, length sized + 1)) [] w) (\<lambda>text.
        ebind (send_msg_with_okay reply_fd (take (length sized) text) w) (\<lambda>w. Inr (1, w))))
      else if service = ''killforward-all'' then
        ebind (remove_all_listeners w) (\<lambda>w.
        ebind (w_write_once reply_fd ''OKAY'' w) (\<lambda>w.
        ebind (w_write_once reply_fd ''OKAY'' w) (\<lambda>w. Inr (1, w))))
      else if starts_with ''forward:'' service \<or> starts_with ''killforward:'' service then
        ebind (run_forward_spec (forward_spec service) ttype serial reply_fd w) (\<lambda>w. Inr (1, w))
      else Inr (0, w))"

section \<open>Requests that the server answers itself\<close>

definition ADB_SERVER_VERSION :: nat where
  "ADB_SERVER_VERSION = 32"

text \<open>The type of transport and the serial number that a \<open>transport\<close> request asks for.\<close>

definition transport_request :: "string \<Rightarrow> string option \<Rightarrow> transport_type \<times> string option" where
  "transport_request service serial =
     (if starts_with ''transport-usb'' service then (kTransportUsb, serial)
      else if starts_with ''transport-local'' service then (kTransportLocal, serial)
      else if starts_with ''transport-any'' service then (kTransportAny, serial)
      else if starts_with ''transport:'' service then (kTransportAny, Some (drop 10 service))
      else (kTransportAny, serial))"

definition handle_transport_request :: "string \<Rightarrow> string option \<Rightarrow> int \<Rightarrow> addr \<Rightarrow> world \<Rightarrow> err + world" where
  "handle_transport_request service serial reply_fd s w =
     (case transport_request service serial of (type, serial) \<Rightarrow>
        ebind (w_acquire type serial w) (\<lambda>(t, e, w).
          if t = None then fail_with reply_fd e w
          else ebind (mod_sock s (\<lambda>s. s\<lparr>s_transport := t\<rparr>) w) (w_write_once reply_fd ''OKAY'')))"

definition handle_disconnect_request :: "string \<Rightarrow> int \<Rightarrow> world \<Rightarrow> err + world" where
  "handle_disconnect_request serial reply_fd w =
     ebind (if serial = [] then
              ebind (unregister_all_tcp_transports w) (\<lambda>w. Inr ([], w))
            else
              let serial = (if strchr (CHR '':'') serial = None then snprintf 99 (serial @ '':5555'') else serial) in
              ebind (find_transport serial w) (\<lambda>(t, w).
                case t of
                  Some t \<Rightarrow> ebind (unregister_transport t w) (\<lambda>w. Inr ([], w))
                | None \<Rightarrow> Inr (snprintf 4096 (''No such device '' @ serial), w)))
       (\<lambda>(msg, w). send_msg_with_okay reply_fd msg w)"

text \<open>A request for a property of a transport, with the text for a transport that is not found or
  does not have it.\<close>

definition send_property :: "(atransport option \<Rightarrow> string) \<Rightarrow> transport_type \<Rightarrow> string option \<Rightarrow> int \<Rightarrow> world \<Rightarrow> err + world" where
  "send_property f ttype serial reply_fd w =
     ebind (w_acquire ttype serial w) (\<lambda>(t, _, w).
     ebind (case t of None \<Rightarrow> Inr None | Some t \<Rightarrow> ebind (get_trans t w) (\<lambda>x. Inr (Some x))) (\<lambda>x.
       send_msg_with_okay reply_fd (f x) w))"

definition or_unknown :: "(atransport \<Rightarrow> string option) \<Rightarrow> atransport option \<Rightarrow> string" where
  "or_unknown f x = (case x of None \<Rightarrow> ''unknown'' | Some x \<Rightarrow> case_option ''unknown'' id (f x))"

definition handle_host_request :: "bool \<Rightarrow> string \<Rightarrow> transport_type \<Rightarrow> string option \<Rightarrow> int \<Rightarrow> addr \<Rightarrow>
    world \<Rightarrow> err + (int \<times> world)" where
  "handle_host_request host service ttype serial reply_fd s w =
     (let done = (\<lambda>r. ebind r (\<lambda>w. Inr (0, w))) in
      if service = ''kill'' then
        ebind (w_write_once reply_fd ''OKAY'' w) (\<lambda>_. Inl (Exited 0))
      else if starts_with ''transport'' service then
        ebind (handle_transport_request service serial reply_fd s w) (\<lambda>w. Inr (1, w))
      else if service = ''devices'' \<or> service = ''devices-l'' then
        ebind (list_transports 4096 (service = ''devices-l'') w) (\<lambda>(text, w). done (send_msg_with_okay reply_fd text w))
      else if starts_with ''disconnect:'' service then done (handle_disconnect_request (drop 11 service) reply_fd w)
      else if service = ''version'' then
        done (send_msg_with_okay reply_fd (snprintf 12 (fmt_04x ADB_SERVER_VERSION)) w)
      else if starts_with ''get-serialno'' service then done (send_property (or_unknown t_serial) ttype serial reply_fd w)
      else if starts_with ''get-devpath'' service then done (send_property (or_unknown t_devpath) ttype serial reply_fd w)
      else if starts_with ''emulator:'' service then
        ebind (local_connect host (atoi (drop 9 service)) w) (\<lambda>(_, w). Inr (0, w))
      else if starts_with ''get-state'' service then done (send_property connection_state_name ttype serial reply_fd w)
      else ebind (handle_forward_request service ttype serial reply_fd w) (\<lambda>(r, w). Inr (r - 1, w)))"

section \<open>Services in a thread\<close>

definition create_service_thread :: "service \<Rightarrow> world \<Rightarrow> err + (int \<times> world)" where
  "create_service_thread func w =
     ebind (adb_socketpair w) (\<lambda>(s, w).
       case s of
         None \<Rightarrow> Inr (-1, w)
       | Some (s0, s1) \<Rightarrow>
           ebind (adb_thread_create w) (\<lambda>(r, w).
             if r then Inr (s0, log_io (Start_service func s1) w)
             else Inr (-1, log_io (Close_fd s1) (log_io (Close_fd s0) w))))"

definition wait_for_request :: "string \<Rightarrow> transport_type option" where
  "wait_for_request name =
     (if starts_with ''local'' name then Some kTransportLocal
      else if starts_with ''usb'' name then Some kTransportUsb
      else if starts_with ''any'' name then Some kTransportAny
      else None)"

text \<open>\<open>host_service_to_socket\<close>. The cookie of \<open>connect_service\<close> is a pointer into the request.\<close>

definition host_service_to_socket :: "string \<Rightarrow> string option \<Rightarrow> world \<Rightarrow> err + (addr option \<times> world)" where
  "host_service_to_socket name serial w =
     (let serve = (\<lambda>f. ebind (create_service_thread f w) (\<lambda>(fd, w).
            ebind (create_local_socket fd w) (\<lambda>(a, w). Inr (Some a, w)))) in
      if name = ''track-devices'' then (case create_device_tracker w of (a, w) \<Rightarrow> Inr (Some a, w))
      else if starts_with ''wait-for-'' name then
        (case wait_for_request (drop 9 name) of
           None \<Rightarrow> Inr (None, w)
         | Some ttype \<Rightarrow> serve (Wait_for_state ttype serial CS_DEVICE))
      else if starts_with ''connect:'' name then serve (Connect_service (drop 8 name))
      else Inr (None, w))"

definition create_host_service_socket :: "string \<Rightarrow> string option \<Rightarrow> world \<Rightarrow> err + (addr option \<times> world)" where
  "create_host_service_socket name serial w = host_service_to_socket name serial w"

text \<open>\<open>sscanf(s, "%d", &n)\<close>: end of input, no number, or the number.\<close>

datatype scanned = Scan_eof | Scan_none | Scan_int int

definition sscanf_d :: "string \<Rightarrow> scanned" where
  "sscanf_d s =
     (let s1 = dropWhile isspace s;
          s2 = (case s1 of c # r \<Rightarrow> if c = CHR ''-'' \<or> c = CHR ''+'' then r else s1 | [] \<Rightarrow> s1)
      in if s1 = [] then Scan_eof
         else case s2 of
                [] \<Rightarrow> Scan_none
              | c # _ \<Rightarrow> if isdigit c then Scan_int (atoi s1) else Scan_none)"

text \<open>The host name in \<open>hostbuf\<close>, which has 100 bytes of which \<open>strncpy\<close> fills 99, read as a
  string.\<close>

definition host_name :: "string \<Rightarrow> err + string" where
  "host_name host =
     (case strchr (CHR '':'') host of
        Some _ \<Rightarrow> Inr (upto_char (CHR '':'') host)
      | None \<Rightarrow> if length host < 99 then Inr host else Inl Uninitialised)"

definition connect_device :: "string \<Rightarrow> world \<Rightarrow> err + (string \<times> world)" where
  "connect_device host w =
     (let dial = (\<lambda>port.
        ebind (host_name host) (\<lambda>name.
        let serial = snprintf 100 (name @ '':'' @ show_int port) in
        ebind (open_fd w) (\<lambda>(fd, w).
          case fd of
            None \<Rightarrow> Inr (snprintf 4096 (''unable to connect to '' @ host @ '':'' @ show_int port), w)
          | Some fd \<Rightarrow>
              ebind (register_socket_transport fd serial port False w) (\<lambda>(r, w).
                if r < 0 then Inr (snprintf 4096 (''already connected to '' @ serial), log_io (Close_fd fd) w)
                else Inr (snprintf 4096 (''connected to '' @ serial), w)))))
      in case strchr (CHR '':'') host of
           None \<Rightarrow> dial DEFAULT_ADB_LOCAL_TRANSPORT_PORT
         | Some portstr \<Rightarrow>
             if 100 \<le> length (upto_char (CHR '':'') host) then Inr (snprintf 4096 (''bad host name '' @ host), w)
             else (case sscanf_d (tl portstr) of
                     Scan_none \<Rightarrow> Inr (snprintf 4096 (''bad port number '' @ portstr), w)
                   | Scan_eof \<Rightarrow> Inl Uninitialised
                   | Scan_int port \<Rightarrow> dial port))"

definition int_strtol :: "string \<Rightarrow> int" where
  "int_strtol s = sint (word_of_int (fst (strtol 0 s)) :: 32 word)"

definition connect_emulator :: "bool \<Rightarrow> string \<Rightarrow> world \<Rightarrow> err + (string \<times> world)" where
  "connect_emulator host port_spec w =
     (case strchr (CHR '','') port_spec of
        None \<Rightarrow> Inr (snprintf 4096 (''unable to parse '' @ [CHR 0x27] @ port_spec @ [CHR 0x27] @ '' as <console port>,<adb port>''), w)
      | Some sep \<Rightarrow>
          let console_port = int_strtol (upto_char (CHR '','') port_spec); adb_port = int_strtol (tl sep) in
          if \<not> (0 < console_port \<and> 0 < adb_port) then
            Inr (snprintf 4096 (''Invalid port numbers: Expected positive numbers, got '' @ [CHR 0x27] @ port_spec @ [CHR 0x27]), w)
          else
            ebind (find_emulator_transport_by_adb_port adb_port w) (\<lambda>(known, w).
              if known \<noteq> None then
                Inr (snprintf 4096 (''Emulator on port '' @ show_int adb_port @ '' already registered.''), w)
              else
                ebind (get_available_local_transport_index w) (\<lambda>(slot, w).
                  if slot < 0 then Inr (snprintf 4096 ''Cannot accept more emulators.'', w)
                  else
                    ebind (local_connect_arbitrary_ports host console_port adb_port w) (\<lambda>(r, w).
                      Inr (snprintf 4096 ((if r = 0 then ''Connected'' else ''Could not connect'') @
                        '' to emulator on ports '' @ show_int console_port @ '','' @ show_int adb_port), w)))))"

definition connect_service :: "bool \<Rightarrow> int \<Rightarrow> string \<Rightarrow> world \<Rightarrow> err + world" where
  "connect_service adbhost fd host w =
     ebind (if starts_with ''emu:'' host then connect_emulator adbhost (drop 4 host) w else connect_device host w) (\<lambda>(buf, w).
     ebind (w_writex fd (snprintf 4096 (fmt_04x (length buf) @ buf)) w) (\<lambda>(_, w). Inr (log_io (Close_fd fd) w)))"

text \<open>\<open>wait_for_state\<close>; \<open>snapshots\<close> is the transport list as the thread finds it each second.\<close>

definition wait_for_state :: "(addr \<times> atransport) list list \<Rightarrow> int \<Rightarrow> transport_type \<Rightarrow> string option \<Rightarrow> int \<Rightarrow> world \<Rightarrow> err + world" where
  "wait_for_state snapshots fd ttype serial state w =
     ebind (acquire_one_transport state ttype serial snapshots) (\<lambda>(t, e).
     ebind (if t \<noteq> None then ebind (w_writex fd ''OKAY'' w) (\<lambda>(_, w). Inr w) else fail_with fd e w) (\<lambda>w.
       Inr (log_io (Close_fd fd) w)))"

definition service_bootstrap_func :: "bool \<Rightarrow> (addr \<times> atransport) list list \<Rightarrow> service \<Rightarrow> int \<Rightarrow> world \<Rightarrow> err + world" where
  "service_bootstrap_func host snapshots func fd w =
     (case func of
        Wait_for_state ttype serial state \<Rightarrow> wait_for_state snapshots fd ttype serial state w
      | Connect_service name \<Rightarrow> connect_service host fd name w)"

section \<open>The smart socket\<close>

text \<open>What has been received so far, \<open>None\<close> where it does not fit into a packet.\<close>

definition gather :: "asocket \<Rightarrow> apacket \<Rightarrow> err + apacket option" where
  "gather s p =
     (case s_pkts s of
        [] \<Rightarrow> Inr (Some p)
      | q # _ \<Rightarrow>
          if MAX_PAYLOAD < p_len q + p_len p then Inr None
          else ebind (buf_read (p_len p) (p_data p)) (\<lambda>bs.
               ebind (buf_write (p_len q) bs (p_data q)) (\<lambda>d.
                 Inr (Some (q\<lparr>p_data := d, p_len := p_len q + p_len p\<rparr>)))))"

text \<open>The request in a packet: not complete, of a bad size, or complete.\<close>

datatype smart_req = Incomplete | Bad_size | Request string

definition smart_request :: "apacket \<Rightarrow> err + smart_req" where
  "smart_request p =
     (if p_len p < 4 then Inr Incomplete
      else ebind (buf_read 4 (p_data p)) (\<lambda>hdr.
        let len = unat (unhex hdr) in
        if len < 1 \<or> 1024 < len then Inr Bad_size
        else if p_len p < len + 4 then Inr Incomplete
        else ebind (buf_write (len + 4) [NUL] (p_data p)) (\<lambda>d.
             ebind (cstr_at (drop 4 d)) (\<lambda>service. Inr (Request service)))))"

definition smart_fail :: "addr \<Rightarrow> world \<Rightarrow> err + (int \<times> world)" where
  "smart_fail a w = ebind (sock_close a w) (\<lambda>w. Inr (-1, w))"

definition peer_fd :: "addr \<Rightarrow> world \<Rightarrow> err + (addr \<times> int)" where
  "peer_fd a w = ebind (get_sock a w) (\<lambda>s. ebind (the_peer s) (\<lambda>b. ebind (get_sock b w) (\<lambda>ps. Inr (b, s_fd ps))))"

text \<open>The service of a request for the server that has a socket of its own is connected to the
  client.\<close>

definition smart_serve :: "enqueue_op \<Rightarrow> addr \<Rightarrow> addr \<Rightarrow> world \<Rightarrow> err + (int \<times> world)" where
  "smart_serve again a s2 w =
     ebind (peer_fd a w) (\<lambda>(b, fd).
     ebind (w_write_once fd ''OKAY'' w) (\<lambda>w.
     ebind (mod_sock b (\<lambda>s. plain_local s\<lparr>s_peer := Some s2\<rparr>) w) (\<lambda>w.
     ebind (mod_sock s2 (\<lambda>s. s\<lparr>s_peer := Some b\<rparr>) w) (\<lambda>w.
     ebind (mod_sock a (\<lambda>s. s\<lparr>s_peer := None\<rparr>) w) (\<lambda>w.
     ebind (sock_close a w) (\<lambda>w.
     ebind (sready again s2 w) (\<lambda>w. Inr (0, w))))))))"

definition smart_host_request :: "enqueue_op \<Rightarrow> bool \<Rightarrow> addr \<Rightarrow> apacket \<Rightarrow>
    string \<times> transport_type \<times> string option \<Rightarrow> world \<Rightarrow> err + (int \<times> world)" where
  "smart_host_request again host a p req w =
     (case req of (service, ttype, serial) \<Rightarrow>
        ebind (peer_fd a w) (\<lambda>(_, fd).
        ebind (handle_host_request host service ttype serial fd a w) (\<lambda>(r, w).
          if r = 0 then smart_fail a w
          else if starts_with ''transport'' service then
            ebind (mod_sock a (\<lambda>s. s\<lparr>s_pkts := [p\<lparr>p_len := 0\<rparr>]\<rparr>) w) (\<lambda>w. Inr (0, w))
          else
            ebind (create_host_service_socket service serial w) (\<lambda>(s2, w).
              case s2 of
                None \<Rightarrow>
                  ebind (peer_fd a w) (\<lambda>(_, fd).
                  ebind (fail_with fd ''unknown host service'' w) (smart_fail a))
              | Some s2 \<Rightarrow> smart_serve again a s2 w))))"

text \<open>A request for the device: the peer gets the transport and waits for the answer to \<open>OPEN\<close>.\<close>

definition smart_open :: "addr \<Rightarrow> string \<Rightarrow> world \<Rightarrow> err + (int \<times> world)" where
  "smart_open a name w =
     ebind (get_sock a w) (\<lambda>s.
     ebind (case s_transport s of
              None \<Rightarrow> Inr True
            | Some t \<Rightarrow> ebind (get_trans t w) (\<lambda>x. Inr (t_connection_state x = CS_OFFLINE))) (\<lambda>offline.
     ebind (peer_fd a w) (\<lambda>(b, fd).
       if offline then ebind (fail_with fd ''device offline (x)'' w) (smart_fail a)
       else
         ebind (mod_sock b (\<lambda>ps. ps\<lparr>s_ready := Local_ready_notify, s_shutdown := None,
                  s_close := Local_close_notify, s_peer := None, s_transport := s_transport s\<rparr>) w) (\<lambda>w.
         ebind (connect_to_remote b name w) (\<lambda>w.
         ebind (mod_sock a (\<lambda>s. s\<lparr>s_peer := None\<rparr>) w) (\<lambda>w.
         ebind (sock_close a w) (\<lambda>w. Inr (1, w))))))))"

text \<open>\<open>smart_socket_enqueue\<close>. A tracker that it makes ready enqueues on its own peer; the first
  argument bounds the nesting of such calls.\<close>

fun smart_socket_enqueue :: "nat \<Rightarrow> bool \<Rightarrow> enqueue_op" where
  "smart_socket_enqueue 0 host a p w = Inl OutOfFuel"
| "smart_socket_enqueue (Suc n) host a p w =
     ebind (get_sock a w) (\<lambda>s.
     ebind (gather s p) (\<lambda>q.
       case q of
         None \<Rightarrow> smart_fail a w
       | Some p \<Rightarrow>
           ebind (smart_request p) (\<lambda>req.
           ebind (mod_sock a (\<lambda>s. s\<lparr>s_pkts := [p]\<rparr>) w) (\<lambda>w.
             case req of
               Incomplete \<Rightarrow> Inr (0, w)
             | Bad_size \<Rightarrow> smart_fail a w
             | Request service \<Rightarrow>
                 (case host_request service of
                    Some r \<Rightarrow> smart_host_request (smart_socket_enqueue n host) host a p r w
                  | None \<Rightarrow> smart_open a service w)))))"

section \<open>Lemmas\<close>

lemma push_or_digit:
  assumes "d < 16"
  shows "push_bit 4 (of_nat a :: u32) OR of_nat d = of_nat (16 * a + d)"
proof -
  have t: "take_bit 4 d = d" using assms by (simp add: take_bit_nat_eq_self)
  have lo: "bit d n \<Longrightarrow> n < 4" for n
    using t by (metis bit_take_bit_iff)
  have "push_bit 4 a OR d = push_bit 4 a + d"
    by (rule disjunctive_add [symmetric]) (auto simp: bit_push_bit_iff dest: lo)
  then have "(of_nat (push_bit 4 a OR d) :: u32) = of_nat (16 * a + d)"
    by (simp add: push_bit_eq_mult)
  then show ?thesis by (simp add: of_nat_or_eq of_nat_push_bit)
qed

lemma hex_value_digit: "d < 16 \<Longrightarrow> hex_value (hexdigit d) = Some (of_nat d)"
proof -
  have "\<forall>d \<in> set [0..<16]. hex_value (hexdigit d) = Some (of_nat d)" by code_simp
  then show "d < 16 \<Longrightarrow> hex_value (hexdigit d) = Some (of_nat d)" by simp
qed

lemma unhex_from_digit:
  "d < 16 \<Longrightarrow> unhex_from (of_nat a) (hexdigit d # cs) = unhex_from (of_nat (16 * a + d)) cs"
  using hex_value_digit [of d] push_or_digit [of d a] by (simp only: unhex_from.simps option.case)

lemma unhex_fmt_04x: "n < 65536 \<Longrightarrow> unat (unhex (fmt_04x n)) = n"
proof -
  assume n: "n < 65536"
  have d: "n div 4096 < 16" "n div 256 mod 16 < 16" "n div 16 mod 16 < 16" "n mod 16 < 16"
    using n by (auto simp: less_mult_imp_div_less)
  have "unhex (fmt_04x n) = unhex_from (of_nat 0) [hexdigit (n div 4096), hexdigit (n div 256 mod 16),
      hexdigit (n div 16 mod 16), hexdigit (n mod 16)]"
    using n by (simp add: unhex_def fmt_04x_small del: unhex_from.simps)
  also have "\<dots> = of_nat (16 * (16 * (16 * (16 * 0 + n div 4096) + n div 256 mod 16) + n div 16 mod 16) + n mod 16)"
    by (simp only: unhex_from_digit d unhex_from.simps(1))
  also have "16 * (16 * (16 * (16 * 0 + n div 4096) + n div 256 mod 16) + n div 16 mod 16) + n mod 16 = n"
    using mult_div_mod_eq [of 16 "n div 256"] mult_div_mod_eq [of 16 "n div 16"] mult_div_mod_eq [of 16 n]
    by (simp add: div_mult2_eq [symmetric])
  finally show ?thesis using n by (simp add: unsigned_of_nat take_bit_nat_eq_self_iff)
qed

text \<open>A packet as \<open>local_socket_event_func\<close> makes it from the bytes it read.\<close>

definition data_packet :: "bytes \<Rightarrow> apacket" where
  "data_packet d = get_apacket\<lparr>p_data := d, p_len := length d\<rparr>"

lemma data_packet_simps [simp]:
  "p_data (data_packet d) = d" "p_len (data_packet d) = length d"
  by (simp_all add: data_packet_def)

text \<open>The message that a client sends for a request.\<close>

definition encode_request :: "string \<Rightarrow> bytes" where
  "encode_request service = fmt_04x (length service) @ service"

lemma encode_request_length [simp]: "length service < 65536 \<Longrightarrow> length (encode_request service) = length service + 4"
  by (simp add: encode_request_def fmt_04x_small)

lemma smart_request_decodes:
  assumes "service \<noteq> []" and "length service \<le> 1024" and "NUL \<notin> set service"
  shows "smart_request (data_packet (encode_request service)) = Inr (Request service)"
proof -
  have l: "length (fmt_04x (length service)) = 4" using assms(2) by (simp add: fmt_04x_small)
  then have "take 4 (encode_request service) = fmt_04x (length service)" "drop 4 (encode_request service) = service"
    by (simp_all add: encode_request_def)
  moreover have "drop 4 (take (length service + 4) (encode_request service) @ [NUL]) = service @ [NUL]"
    using l by (simp add: encode_request_def)
  ultimately show ?thesis
    using assms unhex_fmt_04x [of "length service"]
    by (simp add: smart_request_def buf_read_def buf_write_def MAX_PAYLOAD_def Let_def)
qed

lemma smart_request_prefix:
  assumes "service \<noteq> []" and "length service \<le> 1024" and "encode_request service = d @ e" and "e \<noteq> []"
  shows "smart_request (data_packet d) = Inr Incomplete"
proof (cases "length d < 4")
  case False
  have l: "length (fmt_04x (length service)) = 4" using assms(2) by (simp add: fmt_04x_small)
  have "take 4 (encode_request service) = take 4 d" using assms(3) False by simp
  then have h: "take 4 d = fmt_04x (length service)" using l by (simp add: encode_request_def)
  have "length service + 4 = length d + length e"
    using assms(2) encode_request_length [of service] assms(3) by simp
  then have "length d < length service + 4" using assms(4) by (cases e) simp_all
  then show ?thesis
    using assms(1,2) h unhex_fmt_04x [of "length service"] False
    by (simp add: smart_request_def buf_read_def MAX_PAYLOAD_def Let_def)
qed (simp add: smart_request_def)

section \<open>Requests that arrive in pieces\<close>

text \<open>The smart socket \<open>a\<close>, empty in \<open>w\<close>, after the bytes \<open>d\<close> of an incomplete request.\<close>

definition collected :: "addr \<Rightarrow> asocket \<Rightarrow> bytes \<Rightarrow> world \<Rightarrow> world" where
  "collected a s d w = w\<lparr>w_socks := (w_socks w)(a \<mapsto> s\<lparr>s_pkts := [data_packet d]\<rparr>)\<rparr>"

lemma smart_collects:
  assumes "w_socks w a = Some s" and "s_pkts s = []" and "smart_request (data_packet d) = Inr Incomplete"
  shows "smart_socket_enqueue (Suc n) host a (data_packet d) w = Inr (0, collected a s d w)"
  using assms by (simp add: get_sock_Some gather_def mod_sock_def collected_def)

lemma gather_more:
  assumes "length d + length e \<le> MAX_PAYLOAD"
  shows "gather (s\<lparr>s_pkts := [data_packet d]\<rparr>) (data_packet e) = Inr (Some (data_packet (d @ e)))"
  using assms by (simp add: gather_def buf_read_def buf_write_def data_packet_def)

lemma smart_continues:
  assumes "w_socks w a = Some s" and "s_pkts s = []" and "length d + length e \<le> MAX_PAYLOAD"
  shows "smart_socket_enqueue (Suc n) host a (data_packet e) (collected a s d w) =
    smart_socket_enqueue (Suc n) host a (data_packet (d @ e)) w"
proof -
  have "w_socks (collected a s d w) a = Some (s\<lparr>s_pkts := [data_packet d]\<rparr>)" by (simp add: collected_def)
  moreover have "mod_sock a (\<lambda>s. s\<lparr>s_pkts := [data_packet (d @ e)]\<rparr>) (collected a s d w) =
      mod_sock a (\<lambda>s. s\<lparr>s_pkts := [data_packet (d @ e)]\<rparr>) w"
    using assms(1) by (simp add: mod_sock_def get_sock_Some collected_def)
  moreover have "gather s (data_packet (d @ e)) = Inr (Some (data_packet (d @ e)))" using assms(2) by (simp add: gather_def)
  ultimately show ?thesis using assms(1) gather_more [OF assms(3), of s]
    by (simp only: smart_socket_enqueue.simps get_sock_Some ebind_simps option.case)
qed

text \<open>The packets of a connection, one after the other, up to the result of the last.\<close>

fun deliver :: "nat \<Rightarrow> bool \<Rightarrow> addr \<Rightarrow> bytes list \<Rightarrow> world \<Rightarrow> err + (int \<times> world)" where
  "deliver n host a [] w = Inr (0, w)"
| "deliver n host a (d # ds) w =
     ebind (smart_socket_enqueue n host a (data_packet d) w) (\<lambda>(r, w).
       if ds = [] then Inr (r, w) else deliver n host a ds w)"

lemma deliver_collected:
  assumes "w_socks w a = Some s" and "s_pkts s = []" and "service \<noteq> []" and "length service \<le> 1024"
    and "encode_request service = d @ concat ds" and "ds \<noteq> []" and "last ds \<noteq> []"
  shows "deliver (Suc n) host a ds (collected a s d w) =
    smart_socket_enqueue (Suc n) host a (data_packet (encode_request service)) w"
  using assms(5-7)
proof (induction ds arbitrary: d)
  case (Cons e es)
  have l: "length d + length (concat (e # es)) \<le> MAX_PAYLOAD"
    using assms(4) encode_request_length [of service] Cons.prems(1) by (simp add: MAX_PAYLOAD_def)
  then have c: "smart_socket_enqueue (Suc n) host a (data_packet e) (collected a s d w) =
      smart_socket_enqueue (Suc n) host a (data_packet (d @ e)) w"
    using smart_continues [OF assms(1,2), of d e] by simp
  show ?case
  proof (cases "es = []")
    case True
    have "ebind r (\<lambda>(r, w). Inr (r, w)) = r" for r :: "err + (int \<times> world)" by (cases r) auto
    then show ?thesis using True c Cons.prems(1) by (simp del: smart_socket_enqueue.simps)
  next
    case False
    then have "concat es \<noteq> []" using Cons.prems(3) by (metis concat_eq_Nil_conv last_ConsR last_in_set)
    then have "smart_request (data_packet (d @ e)) = Inr Incomplete"
      using smart_request_prefix [OF assms(3,4), of "d @ e" "concat es"] Cons.prems(1) by simp
    then have "deliver (Suc n) host a (e # es) (collected a s d w) = deliver (Suc n) host a es (collected a s (d @ e) w)"
      using c False smart_collects [OF assms(1,2), of "d @ e"] by (simp del: smart_socket_enqueue.simps)
    then show ?thesis using Cons.IH [of "d @ e"] Cons.prems False by simp
  qed
qed simp

text \<open>C18: However the bytes of a client's request are cut into packets, and so however its writes and
  the reads of the server fall together, the smart socket does exactly what it does on one packet
  that holds the whole request.\<close>

theorem smart_fragments:
  assumes "w_socks w a = Some s" and "s_pkts s = []" and "service \<noteq> []" and "length service \<le> 1024"
    and "concat ds = encode_request service" and "last ds \<noteq> []"
  shows "deliver (Suc n) host a ds w = smart_socket_enqueue (Suc n) host a (data_packet (encode_request service)) w"
proof (cases ds)
  case Nil
  have "encode_request service \<noteq> []" using assms(3) by (simp add: encode_request_def)
  then show ?thesis using assms(5) Nil by simp
next
  case (Cons e es)
  show ?thesis
  proof (cases "es = []")
    case True
    have "ebind r (\<lambda>(r, w). Inr (r, w)) = r" for r :: "err + (int \<times> world)" by (cases r) auto
    then show ?thesis using True Cons assms(5) by (simp del: smart_socket_enqueue.simps)
  next
    case False
    have "concat es \<noteq> []" using assms(6) Cons False by (metis concat_eq_Nil_conv last_ConsR last_in_set)
    then have "smart_request (data_packet e) = Inr Incomplete"
      using smart_request_prefix [OF assms(3,4), of e "concat es"] assms(5) Cons by simp
    then have "deliver (Suc n) host a ds w = deliver (Suc n) host a es (collected a s e w)"
      using Cons False smart_collects [OF assms(1,2)] by (simp del: smart_socket_enqueue.simps)
    then show ?thesis using deliver_collected [OF assms(1-4), of e es] assms(5,6) Cons False by simp
  qed
qed

text \<open>A client on descriptor 6 whose request is still to come.\<close>

definition sample_client :: world where
  "sample_client = sample_stream\<lparr>w_socks := (w_socks sample_stream)(
     3 \<mapsto> (local_asocket 2 6)\<lparr>s_peer := Some 4\<rparr>,
     4 \<mapsto> \<lparr>s_id = 0, s_closing = False, s_exit_on_close = False, s_peer = Some 3, s_fd = 0,
       s_pkts = [], s_enqueue = Smart_enqueue, s_ready = Smart_ready, s_shutdown = None,
       s_close = Smart_close, s_transport = None, s_update_needed = False\<rparr>)\<rparr>"

theorem smart_fragments_witness:
  "\<exists>w'. deliver 1 False 4 [''00'', ''12host:'', ''transport-any''] sample_client = Inr (0, w') \<and>
     w_out w' 6 = ''OKAY'' \<and> map_option s_transport (w_socks w' 4) = Some (Some 0)"
proof -
  let ?r = "''host:transport-any''"
  have e: "encode_request ?r = ''0012host:transport-any''" by code_simp
  have a: "w_socks sample_client 4 = Some (the (w_socks sample_client 4))" "s_pkts (the (w_socks sample_client 4)) = []"
    by (simp_all add: sample_client_def)
  have d: "deliver (Suc 0) False 4 [''00'', ''12host:'', ''transport-any''] sample_client =
      smart_socket_enqueue (Suc 0) False 4 (data_packet (encode_request ?r)) sample_client"
    by (rule smart_fragments [OF a]) (simp_all add: e)
  have r: "smart_request (data_packet (encode_request ?r)) = Inr (Request ?r)"
    by (rule smart_request_decodes) simp_all
  have h: "host_request ?r = Some (''transport-any'', kTransportAny, None)" by code_simp
  have w: "w_acquire kTransportAny None w = Inr (Some 0, [], w)" if "w_transport_lock w = False" "w_transport_list w = [0]"
      "w_trans w 0 = Some (sample_transport\<lparr>t_disconnects := [Dis_remote 2]\<rparr>)" for w
    using that by (simp add: w_acquire_def lock_transports_def unlock_transports_def get_trans_def acquire_once_def
        transport_wanted_def sample_transport_def CS_ANY_def CS_NOPERM_def CS_UNAUTHORIZED_def CS_OFFLINE_def CS_DEVICE_def)
  have t: "transport_request ''transport-any'' None = (kTransportAny, None)" "starts_with ''transport'' ''transport-any''"
    by code_simp+
  have c: "w_socks sample_client 3 = Some ((local_asocket 2 6)\<lparr>s_peer := Some 4\<rparr>)"
      "s_peer (the (w_socks sample_client 4)) = Some 3" "w_ws sample_client 6 = WOk 4096 # replicate 7 (WOk 4096)"
      "w_transport_lock sample_client = False" "w_transport_list sample_client = [0]" "w_out sample_client 6 = []"
      "w_trans sample_client 0 = Some (sample_transport\<lparr>t_disconnects := [Dis_remote 2]\<rparr>)"
    by (simp_all add: sample_client_def sample_stream_def numeral_eq_Suc)
  show ?thesis
    unfolding One_nat_def d
    using a c by (simp add: r h t w get_sock_Some gather_def mod_sock_def smart_host_request_def peer_fd_def the_peer_def
        handle_host_request_def handle_transport_request_def w_write_once_def local_asocket_def)
qed

end
