(* ===== verification/Adb_Client.thy ===== *)
theory Adb_Client
  imports Adb_Smart
begin

text \<open>
  The client side (adb\_client.c, with \<open>launch_server\<close> of adb.c and \<open>format_host_command\<close> of
  commandline.c): how a client connects to the server, asks for a transport, sends a request
  and reads the status and the answer. The client is a process of its own, with a state of its
  own; the two processes meet in the lemmas on what one writes and the other reads.
\<close>

section \<open>State\<close>

text \<open>What \<open>launch_server\<close> finds: no pipe or no child, or the first result of reading what the
  child says.\<close>

datatype launch = Launch_failed | Child_said rres

text \<open>\<open>c_conns\<close> holds what the next calls that open a connection return, \<open>c_closed\<close> the descriptors
  that were closed.\<close>

record client =
  c_transport :: transport_type
  c_serial :: "string option"
  c_server_port :: int
  c_server_name :: "string option"
  c_error :: string
  c_rs :: "int \<Rightarrow> rres list"
  c_ws :: "int \<Rightarrow> wres list"
  c_out :: "int \<Rightarrow> bytes"
  c_conns :: "int list"
  c_launches :: "launch list"
  c_closed :: "int list"

definition c_readx :: "nat \<Rightarrow> int \<Rightarrow> client \<Rightarrow> err + (bytes option \<times> client)" where
  "c_readx n fd c = ebind (readx n (c_rs c fd)) (\<lambda>(r, rs). Inr (r, c\<lparr>c_rs := (c_rs c)(fd := rs)\<rparr>))"

definition c_writex :: "int \<Rightarrow> bytes \<Rightarrow> client \<Rightarrow> err + (bool \<times> client)" where
  "c_writex fd bs c = ebind (writex bs (c_ws c fd)) (\<lambda>(r, acc, ws).
     Inr (r, c\<lparr>c_ws := (c_ws c)(fd := ws), c_out := (c_out c)(fd := c_out c fd @ acc)\<rparr>))"

definition c_close :: "int \<Rightarrow> client \<Rightarrow> client" where
  "c_close fd c = c\<lparr>c_closed := c_closed c @ [fd]\<rparr>"

definition c_open :: "client \<Rightarrow> err + (int \<times> client)" where
  "c_open c = (case c_conns c of [] \<Rightarrow> Inl Blocked | fd # fds \<Rightarrow> Inr (fd, c\<lparr>c_conns := fds\<rparr>))"

definition set_error :: "string \<Rightarrow> client \<Rightarrow> client" where
  "set_error msg c = c\<lparr>c_error := msg\<rparr>"

definition adb_set_transport :: "transport_type \<Rightarrow> string option \<Rightarrow> client \<Rightarrow> client" where
  "adb_set_transport type serial c = c\<lparr>c_transport := type, c_serial := serial\<rparr>"

definition adb_set_tcp_specifics :: "int \<Rightarrow> client \<Rightarrow> client" where
  "adb_set_tcp_specifics server_port c = c\<lparr>c_server_port := server_port\<rparr>"

definition adb_set_tcp_name :: "string option \<Rightarrow> client \<Rightarrow> client" where
  "adb_set_tcp_name hostname c = c\<lparr>c_server_name := hostname\<rparr>"

definition adb_error :: "client \<Rightarrow> string" where
  "adb_error c = c_error c"

section \<open>Status and transport\<close>

text \<open>\<open>strtoul(buf, 0, 16)\<close> on four bytes, as an \<open>unsigned\<close>.\<close>

definition strtoul16 :: "bytes \<Rightarrow> nat" where
  "strtoul16 s = unat (word_of_int (fst (strtol 16 (takeWhile (\<lambda>c. c \<noteq> NUL) s))) :: u32)"

definition fmt_02x :: "char \<Rightarrow> string" where
  "fmt_02x c = pad_left 2 (CHR ''0'') (to_hex (of_char c))"

text \<open>The text in \<open>__adb_error\<close> when the status is neither \<open>OKAY\<close> nor \<open>FAIL\<close>.\<close>

definition status_fault :: "bytes \<Rightarrow> string" where
  "status_fault buf = ''protocol fault (status '' @ fmt_02x (buf ! 0) @ '' '' @ fmt_02x (buf ! 1) @ '' '' @
     fmt_02x (buf ! 2) @ '' '' @ fmt_02x (buf ! 3) @ ''?!)''"

definition adb_status :: "int \<Rightarrow> client \<Rightarrow> err + (int \<times> client)" where
  "adb_status fd c =
     ebind (c_readx 4 fd c) (\<lambda>(r, c).
       case r of
         None \<Rightarrow> Inr (-1, set_error ''protocol fault (no status)'' c)
       | Some buf \<Rightarrow>
           if buf = ''OKAY'' then Inr (0, c)
           else if buf \<noteq> ''FAIL'' then Inr (-1, set_error (status_fault buf) c)
           else
             ebind (c_readx 4 fd c) (\<lambda>(r, c).
               case r of
                 None \<Rightarrow> Inr (-1, set_error ''protocol fault (status len)'' c)
               | Some buf \<Rightarrow>
                   ebind (c_readx (min 255 (strtoul16 buf)) fd c) (\<lambda>(r, c).
                     case r of
                       None \<Rightarrow> Inr (-1, set_error ''protocol fault (status read)'' c)
                     | Some msg \<Rightarrow> Inr (-1, set_error (takeWhile (\<lambda>c. c \<noteq> NUL) msg) c))))"

text \<open>A request is sent with its length in four hexadecimal digits; the two calls of \<open>writex\<close>.\<close>

definition send_request :: "int \<Rightarrow> string \<Rightarrow> client \<Rightarrow> err + (bool \<times> client)" where
  "send_request fd service c =
     ebind (c_writex fd (take 4 (fmt_04x (length service))) c) (\<lambda>(r, c).
       if r then c_writex fd service c else Inr (False, c))"

definition transport_name :: "transport_type \<Rightarrow> string option" where
  "transport_name type =
     (case type of
        kTransportUsb \<Rightarrow> Some ''transport-usb''
      | kTransportLocal \<Rightarrow> Some ''transport-local''
      | kTransportAny \<Rightarrow> Some ''transport-any''
      | kTransportHost \<Rightarrow> None)"

text \<open>The request that \<open>switch_socket_transport\<close> sends, in its buffer of 64 bytes.\<close>

definition switch_service :: "client \<Rightarrow> string option" where
  "switch_service c =
     (case c_serial c of
        Some serial \<Rightarrow> Some (snprintf 64 (''host:transport:'' @ serial))
      | None \<Rightarrow> map_option (\<lambda>t. snprintf 64 (''host:'' @ t)) (transport_name (c_transport c)))"

definition switch_socket_transport :: "int \<Rightarrow> client \<Rightarrow> err + (int \<times> client)" where
  "switch_socket_transport fd c =
     (case switch_service c of
        None \<Rightarrow> Inr (0, c)
      | Some service \<Rightarrow>
          ebind (send_request fd service c) (\<lambda>(r, c).
            if \<not> r then Inr (-1, c_close fd (set_error ''write failure during connection'' c))
            else ebind (adb_status fd c) (\<lambda>(r, c).
              if r \<noteq> 0 then Inr (-1, c_close fd c) else Inr (0, c))))"

section \<open>Connecting\<close>

text \<open>\<open>_adb_connect\<close>\<close>

definition adb_connect1 :: "string \<Rightarrow> client \<Rightarrow> err + (int \<times> client)" where
  "adb_connect1 service c =
     (if length service < 1 \<or> 1024 < length service then Inr (-1, set_error ''service name too long'' c)
      else ebind (c_open c) (\<lambda>(fd, c).
        if fd < 0 then Inr (-2, set_error ''cannot connect to daemon'' c)
        else
          ebind (if starts_with ''host'' service then Inr (0, c) else switch_socket_transport fd c) (\<lambda>(r, c).
            if r \<noteq> 0 then Inr (-1, c)
            else ebind (send_request fd service c) (\<lambda>(r, c).
              if \<not> r then Inr (-1, c_close fd (set_error ''write failure during connection'' c))
              else ebind (adb_status fd c) (\<lambda>(r, c).
                if r \<noteq> 0 then Inr (-1, c_close fd c) else Inr (fd, c))))))"

text \<open>\<open>launch_server\<close>: one read of up to three bytes, which the wrapper repeats on \<open>EINTR\<close>.\<close>

definition launch_server :: "client \<Rightarrow> err + (int \<times> client)" where
  "launch_server c =
     (case c_launches c of
        [] \<Rightarrow> Inl Blocked
      | l # ls \<Rightarrow>
          let c = c\<lparr>c_launches := ls\<rparr> in
          case l of
            Child_said (RData bs) \<Rightarrow> Inr (if take 3 bs = ''OK'' @ [CHR 0x0A] then 0 else -1, c)
          | _ \<Rightarrow> Inr (-1, c))"

text \<open>The buffer that \<open>sscanf\<close> reads the version from: the answer, over the header with the NUL
  behind it. At most four characters are read after white space.\<close>

definition scan_version :: "bytes \<Rightarrow> bytes \<Rightarrow> err + nat option" where
  "scan_version hdr answer =
     (let buf = answer @ drop (length answer) (hdr @ [NUL]);
          s = dropWhile isspace buf
      in if NUL \<notin> set s \<and> length s < 4 then Inl Uninitialised
         else let s = takeWhile (\<lambda>c. c \<noteq> NUL) (take 4 s) in
              Inr (if snd (snd (strtol 16 s)) = s then None
                   else Some (unat (word_of_int (fst (strtol 16 s)) :: u32))))"

text \<open>The version of the server: an answer, the end of the function by \<open>goto error\<close>, or its end
  with the descriptor, which is negative.\<close>

datatype version_res = Version nat | Version_error | Version_return int

definition server_version :: "int \<Rightarrow> client \<Rightarrow> err + (version_res \<times> client)" where
  "server_version fd c =
     (if 0 \<le> fd then
        ebind (c_readx 4 fd c) (\<lambda>(hdr, c).
          case hdr of
            None \<Rightarrow> Inr (Version_error, c)
          | Some hdr \<Rightarrow>
              let n = strtoul16 hdr in
              if 100 < n then Inr (Version_error, c)
              else ebind (c_readx n fd c) (\<lambda>(answer, c).
                case answer of
                  None \<Rightarrow> Inr (Version_error, c)
                | Some answer \<Rightarrow>
                    ebind (scan_version hdr answer) (\<lambda>v.
                      Inr (case v of None \<Rightarrow> Version_error | Some v \<Rightarrow> Version v, c_close fd c))))
      else if c_error c \<noteq> ''unknown host service'' then Inr (Version_return fd, c)
      else Inr (Version (ADB_SERVER_VERSION - 1), c))"

definition start_server :: "client \<Rightarrow> err + (bool \<times> client)" where
  "start_server c = ebind (launch_server c) (\<lambda>(r, c). Inr (r = 0, c))"

definition connect_service_of :: "string \<Rightarrow> client \<Rightarrow> err + (int \<times> client)" where
  "connect_service_of service c =
     (if service = ''host:start-server'' then Inr (0, c) else adb_connect1 service c)"

definition adb_connect :: "string \<Rightarrow> client \<Rightarrow> err + (int \<times> client)" where
  "adb_connect service c =
     (let start = (\<lambda>c. ebind (start_server c) (\<lambda>(r, c).
            if r then connect_service_of service c else Inr (-1, c)))
      in ebind (adb_connect1 ''host:version'' c) (\<lambda>(fd, c).
           if fd = -2 then (if c_server_name c \<noteq> None then Inr (fd, c) else start c)
           else ebind (server_version fd c) (\<lambda>(v, c).
             case v of
               Version_error \<Rightarrow> Inr (-1, c_close fd c)
             | Version_return r \<Rightarrow> Inr (r, c)
             | Version v \<Rightarrow>
                 if v \<noteq> ADB_SERVER_VERSION then
                   ebind (adb_connect1 ''host:kill'' c) (\<lambda>(fd, c). start (c_close fd c))
                 else connect_service_of service c)))"

section \<open>Commands and queries\<close>

definition adb_command :: "string \<Rightarrow> client \<Rightarrow> err + (int \<times> client)" where
  "adb_command service c =
     ebind (adb_connect service c) (\<lambda>(fd, c).
       if fd < 0 then Inr (-1, c)
       else ebind (adb_status fd c) (\<lambda>(r, c). if r \<noteq> 0 then Inr (-1, c_close fd c) else Inr (0, c)))"

text \<open>The answer, after the status: its length and its bytes, which end as a string at the first
  NUL.\<close>

definition read_reply :: "int \<Rightarrow> client \<Rightarrow> err + (string option \<times> client)" where
  "read_reply fd c =
     ebind (c_readx 4 fd c) (\<lambda>(hdr, c).
       case hdr of
         None \<Rightarrow> Inr (None, c_close fd c)
       | Some hdr \<Rightarrow>
           let n = strtoul16 hdr in
           if 0xffff \<le> n then Inr (None, c_close fd (set_error ''reply is too long (>= 64kB)'' c))
           else ebind (c_readx n fd c) (\<lambda>(r, c).
             Inr (map_option (takeWhile (\<lambda>c. c \<noteq> NUL)) r, c_close fd c)))"

definition adb_query :: "string \<Rightarrow> client \<Rightarrow> err + (string option \<times> client)" where
  "adb_query service c =
     ebind (adb_connect service c) (\<lambda>(fd, c). if fd < 0 then Inr (None, c) else read_reply fd c)"

section \<open>Emulators\<close>

definition LOCAL_CLIENT_PREFIX :: string where
  "LOCAL_CLIENT_PREFIX = ''emulator-''"

text \<open>What follows the first \<open>c\<close>.\<close>

definition after_char :: "char \<Rightarrow> string \<Rightarrow> string" where
  "after_char c s = (case strchr c s of Some r \<Rightarrow> tl r | None \<Rightarrow> [])"

lemma after_char_simps [simp]:
  "after_char c [] = []" "after_char c (x # xs) = (if x = c then xs else after_char c xs)"
  by (simp_all add: after_char_def)

lemma after_char_shorter: "s \<noteq> [] \<Longrightarrow> length (after_char c s) < length s"
proof (induction s)
  case (Cons x xs)
  then show ?case by (cases "xs = []") (auto simp: less_Suc_eq)
qed simp

text \<open>The loop over the lines of the device list: how often a line starts with the prefix, up to
  two.\<close>

function emulator_lines :: "string \<Rightarrow> bool \<Rightarrow> nat" where
  "emulator_lines p found =
     (if p = [] then of_bool found
      else
        let line = upto_char (CHR 0x0A) p; q = after_char (CHR 0x0A) p in
        if starts_with LOCAL_CLIENT_PREFIX line then
          (if found then 2 else emulator_lines q True)
        else emulator_lines q found)"
  by pat_completeness auto
termination by (relation "measure (\<lambda>(p, _). length p)") (auto intro: after_char_shorter)

declare emulator_lines.simps [simp del]

text \<open>With no serial number given the one found points into the answer, which is freed before the
  number is read.\<close>

definition adb_get_emulator_console_port :: "client \<Rightarrow> err + (int \<times> client)" where
  "adb_get_emulator_console_port c =
     (case c_serial c of
        None \<Rightarrow>
          ebind (adb_query ''host:devices'' c) (\<lambda>(r, c).
            case r of
              None \<Rightarrow> Inr (-1, c)
            | Some tmp \<Rightarrow>
                let n = emulator_lines tmp False in
                if n = 2 then Inr (-2, c) else if n = 0 then Inr (-1, c) else Inl UseAfterFree)
      | Some serial \<Rightarrow>
          if \<not> starts_with LOCAL_CLIENT_PREFIX serial then Inr (-1, c)
          else Inr (sint (word_of_int (fst (strtol 10 (drop 9 serial))) :: 32 word), c))"

section \<open>Requests for the server\<close>

text \<open>\<open>format_host_command\<close> in a buffer of \<open>buflen\<close> bytes.\<close>

definition format_host_command :: "nat \<Rightarrow> string \<Rightarrow> transport_type \<Rightarrow> string option \<Rightarrow> string" where
  "format_host_command buflen command ttype serial =
     snprintf buflen
       (case serial of
          Some serial \<Rightarrow> ''host-serial:'' @ serial @ '':'' @ command
        | None \<Rightarrow>
            (if ttype = kTransportUsb then ''host-usb''
             else if ttype = kTransportLocal then ''host-local'' else ''host'') @ '':'' @ command)"

section \<open>Numbers on the wire\<close>

lemma hexdigit_values:
  assumes "d < 16"
  shows "digit_in 16 (hexdigit d) = Some d" and "\<not> isspace (hexdigit d)"
    and "hexdigit d \<notin> {CHR ''-'', CHR ''+'', CHR ''x'', CHR ''X'', NUL}"
proof -
  have "\<forall>d \<in> set [0..<16]. digit_in 16 (hexdigit d) = Some d \<and> \<not> isspace (hexdigit d) \<and>
      hexdigit d \<notin> {CHR ''-'', CHR ''+'', CHR ''x'', CHR ''X'', NUL}" by code_simp
  then show "digit_in 16 (hexdigit d) = Some d" "\<not> isspace (hexdigit d)"
      "hexdigit d \<notin> {CHR ''-'', CHR ''+'', CHR ''x'', CHR ''X'', NUL}"
    using assms by simp_all
qed

lemma strtol_base_16:
  assumes "x \<noteq> CHR ''x''" and "x \<noteq> CHR ''X''"
  shows "strtol_base 16 (c # x # s) = (16, c # x # s)"
  using assms by (auto simp: strtol_base_def split: list.split char.split bool.split)

lemma strtol_fmt_04x:
  assumes "n < 65536"
  shows "strtol 16 (fmt_04x n) = (int n, False, [])" and "NUL \<notin> set (fmt_04x n)"
proof -
  have d: "n div 4096 < 16" "n div 256 mod 16 < 16" "n div 16 mod 16 < 16" "n mod 16 < 16"
    using assms by (auto simp: less_mult_imp_div_less)
  note f = fmt_04x_small [OF assms]
  have "n div 4096 = n div 256 div 16" "n div 256 = n div 16 div 16" by (simp_all add: div_mult2_eq [symmetric])
  then have v: "n div 4096 * 16 + n div 256 mod 16 = n div 256" "n div 256 * 16 + n div 16 mod 16 = n div 16"
      "n div 16 * 16 + n mod 16 = n"
    using div_mult_mod_eq [of "n div 256" 16] div_mult_mod_eq [of "n div 16" 16] by simp_all
  have "digits 16 0 (fmt_04x n) = (n, [])"
    unfolding f digits.simps hexdigit_values(1) [OF d(1)] hexdigit_values(1) [OF d(2)] hexdigit_values(1) [OF d(3)]
      hexdigit_values(1) [OF d(4)] option.case mult_zero_left add_0_left v ..
  moreover have "strtol_base 16 (fmt_04x n) = (16, fmt_04x n)"
    unfolding f using hexdigit_values(3) [OF d(2)] by (intro strtol_base_16) auto
  moreover have "dropWhile isspace (fmt_04x n) = fmt_04x n" using d by (simp add: f hexdigit_values(2))
  ultimately show "strtol 16 (fmt_04x n) = (int n, False, [])"
    using assms hexdigit_values(1,3) [OF d(1)] by (simp add: strtol_def f LONG_MAX_def Let_def)
  show "NUL \<notin> set (fmt_04x n)"
    using d [THEN hexdigit_values(3)] by (auto simp: f)
qed

lemma strtoul16_fmt_04x [simp]: "n < 65536 \<Longrightarrow> strtoul16 (fmt_04x n) = n"
proof -
  assume n: "n < 65536"
  have "takeWhile (\<lambda>c. c \<noteq> NUL) (fmt_04x n) = fmt_04x n"
    using strtol_fmt_04x(2) [OF n] by (auto simp: takeWhile_eq_all_conv)
  then have "strtoul16 (fmt_04x n) = unat (word_of_int (int n) :: u32)"
    using strtol_fmt_04x(1) [OF n] by (simp only: strtoul16_def fst_conv)
  then show ?thesis using n by (simp add: unsigned_of_nat take_bit_nat_eq_self_iff)
qed

section \<open>What the server writes and the client reads\<close>

lemma c_readx_exact:
  assumes "healthy (c_rs c fd)" and "stream (c_rs c fd) = xs @ ys" and "n = length xs"
  shows "\<exists>rs. c_readx n fd c = Inr (Some xs, c\<lparr>c_rs := (c_rs c)(fd := rs)\<rparr>) \<and> healthy rs \<and> stream rs = ys"
  using tcp.rd_prefix [OF assms(1,2)] assms(3) by (auto simp: c_readx_def)

lemma adb_status_okay:
  assumes "healthy (c_rs c fd)" and "stream (c_rs c fd) = ''OKAY'' @ rest"
  shows "\<exists>rs. adb_status fd c = Inr (0, c\<lparr>c_rs := (c_rs c)(fd := rs)\<rparr>) \<and> healthy rs \<and> stream rs = rest"
proof -
  obtain rs where "c_readx 4 fd c = Inr (Some ''OKAY'', c\<lparr>c_rs := (c_rs c)(fd := rs)\<rparr>)" "healthy rs" "stream rs = rest"
    using c_readx_exact [OF assms, of 4] by auto
  then show ?thesis by (intro exI [of _ rs]) (simp add: adb_status_def)
qed

lemma adb_status_fail:
  assumes "healthy (c_rs c fd)" and "stream (c_rs c fd) = ''FAIL'' @ fmt_04x (length msg) @ msg @ rest"
    and "length msg < 65536" and "NUL \<notin> set msg"
  shows "\<exists>rs. adb_status fd c = Inr (-1, c\<lparr>c_rs := (c_rs c)(fd := rs), c_error := take 255 msg\<rparr>) \<and>
    healthy rs \<and> stream rs = drop 255 msg @ rest"
proof -
  let ?c = "\<lambda>rs. c\<lparr>c_rs := (c_rs c)(fd := rs)\<rparr>"
  obtain rs1 where 1: "c_readx 4 fd c = Inr (Some ''FAIL'', ?c rs1)" "healthy rs1"
      "stream rs1 = fmt_04x (length msg) @ msg @ rest"
    using c_readx_exact [OF assms(1,2), of 4] by auto
  obtain rs2 where 2: "c_readx 4 fd (?c rs1) = Inr (Some (fmt_04x (length msg)), ?c rs2)" "healthy rs2"
      "stream rs2 = msg @ rest"
    using c_readx_exact [of "?c rs1" fd "fmt_04x (length msg)" "msg @ rest" 4] 1 assms(3) by auto
  have s: "stream rs2 = take 255 msg @ drop 255 msg @ rest" using 2(3) by simp
  obtain rs3 where 3: "c_readx (min 255 (length msg)) fd (?c rs2) = Inr (Some (take 255 msg), ?c rs3)" "healthy rs3"
      "stream rs3 = drop 255 msg @ rest"
    using c_readx_exact [of "?c rs2" fd "take 255 msg" "drop 255 msg @ rest" "min 255 (length msg)"] 2(2) s
    by (auto simp: min.commute)
  have "takeWhile (\<lambda>c. c \<noteq> NUL) (take 255 msg) = take 255 msg"
    using assms(4) by (auto simp: takeWhile_eq_all_conv dest: in_set_takeD)
  then show ?thesis using 1(1) 2(1) 3 assms(3) by (intro exI [of _ rs3]) (simp add: adb_status_def set_error_def)
qed

lemma w_writex_out:
  assumes "w_writex fd bs w = Inr (r, w')"
  shows "\<exists>acc rest. w_out w' fd = w_out w fd @ acc \<and> bs = acc @ rest \<and> (r \<longleftrightarrow> rest = [])"
proof -
  obtain acc ws where wx: "writex bs (w_ws w fd) = Inr (r, acc, ws)" and o: "w_out w' fd = w_out w fd @ acc"
    using assms by (auto simp: w_writex_def ebind_eq_Inr)
  show ?thesis
  proof (cases r)
    case True
    then have "acc = bs" using writex_success [of bs "w_ws w fd" acc ws] wx by simp
    then show ?thesis using o True by (intro exI [of _ acc] exI [of _ "[]"]) simp
  next
    case False
    then obtain rest where "rest \<noteq> []" "bs = acc @ rest" using writex_failure [of bs "w_ws w fd" acc ws] wx by auto
    then show ?thesis using o False by blast
  qed
qed

lemma sendfailmsg_out:
  assumes "sendfailmsg fd reason w = Inr (True, w')" and "length reason < 65536"
  shows "w_out w' fd = w_out w fd @ ''FAIL'' @ fmt_04x (length reason) @ reason"
proof -
  obtain r w1 where 1: "w_writex fd (''FAIL'' @ fmt_04x (length reason)) w = Inr (r, w1)"
    and 2: "(if \<not> r then Inr (False, w1) else w_writex fd (take (length reason) reason) w1) = Inr (True, w')"
    using assms by (auto simp: sendfailmsg_def Let_def ebind_eq_Inr)
  then have r: "r" and 3: "w_writex fd reason w1 = Inr (True, w')" by (auto split: if_splits)
  have "w_out w1 fd = w_out w fd @ ''FAIL'' @ fmt_04x (length reason)" using w_writex_out [OF 1] r by auto
  moreover have "w_out w' fd = w_out w1 fd @ reason" using w_writex_out [OF 3] by auto
  ultimately show ?thesis by simp
qed

text \<open>All of an answer was accepted if as many bytes were as it has.\<close>

lemma send_msg_with_okay_out:
  assumes "send_msg_with_okay fd msg w = Inr w'" and "length msg < 65536"
    and "w_out w' fd = w_out w fd @ sent" and "length sent = length msg + 8"
  shows "sent = ''OKAY'' @ fmt_04x (length msg) @ msg"
proof -
  let ?h = "''OKAY'' @ fmt_04x (length msg)"
  obtain r1 w1 r2 where 1: "w_writex fd ?h w = Inr (r1, w1)" and 2: "w_writex fd msg w1 = Inr (r2, w')"
    using assms(1,2) by (auto simp: send_msg_with_okay_def Let_def ebind_eq_Inr)
  obtain a1 x1 where a: "w_out w1 fd = w_out w fd @ a1" "?h = a1 @ x1" using w_writex_out [OF 1] by blast
  obtain a2 x2 where b: "w_out w' fd = w_out w1 fd @ a2" "msg = a2 @ x2" using w_writex_out [OF 2] by blast
  have "length a1 + length a2 = length msg + 8" using a(1) b(1) assms(3,4) by simp
  moreover have "length a1 + length x1 = 8" using arg_cong [OF a(2), of length] assms(2) by simp
  moreover have "length a2 + length x2 = length msg" using b(2) by simp
  ultimately have "length x1 = 0" "length x2 = 0" by linarith+
  then show ?thesis using a b assms(3) by simp
qed

text \<open>The reason with which the server refuses a request is the error text that the client shows,
  cut off at the 255 characters that fit into its buffer, however the connection cuts the message
  into pieces.\<close>

theorem fail_reaches_client:
  assumes "sendfailmsg sfd reason w = Inr (True, w')" and "w_out w' sfd = w_out w sfd @ sent"
    and "length reason < 65536" and "NUL \<notin> set reason"
    and "healthy (c_rs c fd)" and "stream (c_rs c fd) = sent @ rest"
  shows "\<exists>c'. adb_status fd c = Inr (-1, c') \<and> adb_error c' = take 255 reason \<and> stream (c_rs c' fd) = drop 255 reason @ rest"
proof -
  have "sent = ''FAIL'' @ fmt_04x (length reason) @ reason" using sendfailmsg_out [OF assms(1,3)] assms(2) by simp
  then obtain rs where "adb_status fd c = Inr (-1, c\<lparr>c_rs := (c_rs c)(fd := rs), c_error := take 255 reason\<rparr>)"
      "stream rs = drop 255 reason @ rest"
    using adb_status_fail [of c fd reason rest] assms(3-6) by auto
  then show ?thesis by (simp add: adb_error_def)
qed

text \<open>C39: An answer that the server sends and that is shorter than 65535 bytes is what the query of the
  client returns: the status is \<open>OKAY\<close>, the text is complete, nothing of what follows is consumed,
  and the connection is closed.\<close>

theorem reply_reaches_client:
  assumes "send_msg_with_okay sfd msg w = Inr w'" and "w_out w' sfd = w_out w sfd @ sent"
    and "length sent = length msg + 8" and "length msg < 65535" and "NUL \<notin> set msg"
    and "healthy (c_rs c fd)" and "stream (c_rs c fd) = sent @ rest"
  shows "\<exists>c1 c2. adb_status fd c = Inr (0, c1) \<and> read_reply fd c1 = Inr (Some msg, c2) \<and>
    stream (c_rs c2 fd) = rest \<and> c_closed c2 = c_closed c @ [fd]"
proof -
  let ?c = "\<lambda>rs. c\<lparr>c_rs := (c_rs c)(fd := rs)\<rparr>"
  have "sent = ''OKAY'' @ fmt_04x (length msg) @ msg" using send_msg_with_okay_out [OF assms(1) _ assms(2,3)] assms(4) by simp
  then obtain rs1 where 1: "adb_status fd c = Inr (0, ?c rs1)" "healthy rs1" "stream rs1 = fmt_04x (length msg) @ msg @ rest"
    using adb_status_okay [OF assms(6), of "fmt_04x (length msg) @ msg @ rest"] assms(7) by auto
  obtain rs2 where 2: "c_readx 4 fd (?c rs1) = Inr (Some (fmt_04x (length msg)), ?c rs2)" "healthy rs2" "stream rs2 = msg @ rest"
    using c_readx_exact [of "?c rs1" fd "fmt_04x (length msg)" "msg @ rest" 4] 1(2,3) assms(4) by auto
  obtain rs3 where 3: "c_readx (length msg) fd (?c rs2) = Inr (Some msg, ?c rs3)" "stream rs3 = rest"
    using c_readx_exact [of "?c rs2" fd msg rest "length msg"] 2(2,3) by auto
  have "takeWhile (\<lambda>c. c \<noteq> NUL) msg = msg" using assms(5) by (auto simp: takeWhile_eq_all_conv)
  then have "read_reply fd (?c rs1) = Inr (Some msg, c_close fd (?c rs3))"
    using 2(1) 3(1) assms(4) by (simp add: read_reply_def)
  then show ?thesis using 1(1) 3(2) by (simp add: c_close_def)
qed

text \<open>A client that has sent its request on descriptor 3 and finds \<open>rs\<close> there.\<close>

definition sample_asker :: "rres list \<Rightarrow> client" where
  "sample_asker rs = \<lparr>c_transport = kTransportAny, c_serial = None, c_server_port = 5037, c_server_name = None,
     c_error = [], c_rs = (\<lambda>_. rs), c_ws = (\<lambda>_. replicate 8 (WOk 4096)), c_out = (\<lambda>_. []), c_conns = [3],
     c_launches = [], c_closed = []\<rparr>"

lemma sample_writex:
  assumes "w_ws w fd = WOk 4096 # ws" and "bs \<noteq> []" and "length bs \<le> 4096"
  shows "w_writex fd bs w = Inr (True, w\<lparr>w_ws := (w_ws w)(fd := ws), w_out := (w_out w)(fd := w_out w fd @ bs)\<rparr>)"
  using assms by (simp add: w_writex_def writex_all)

lemma sample_stream_ws: "w_ws sample_stream fd = WOk 4096 # WOk 4096 # replicate 6 (WOk 4096)"
  by (simp add: sample_stream_def numeral_eq_Suc)

theorem fail_reaches_client_witness:
  "\<exists>c'. adb_status 3 (sample_asker [RData ''FAIL0'', RErr EINTR, RData ''006clo'', RData ''sed'']) = Inr (-1, c') \<and>
     adb_error c' = ''closed''"
proof -
  let ?c = "sample_asker [RData ''FAIL0'', RErr EINTR, RData ''006clo'', RData ''sed'']"
  have "fmt_04x (length ''closed'') = ''0006''" by code_simp
  note h = this [simplified]
  have s: "\<exists>w'. sendfailmsg 5 ''closed'' sample_stream = Inr (True, w')"
    by (simp add: sendfailmsg_def h sample_writex [OF sample_stream_ws] sample_writex)
  then obtain w' where w': "sendfailmsg 5 ''closed'' sample_stream = Inr (True, w')" by blast
  have o: "w_out w' 5 = w_out sample_stream 5 @ ''FAIL0006closed''" using sendfailmsg_out [OF w'] h by simp
  have "\<exists>c'. adb_status 3 ?c = Inr (-1, c') \<and> adb_error c' = take 255 ''closed'' \<and>
      stream (c_rs c' 3) = drop 255 ''closed'' @ []"
    by (rule fail_reaches_client [OF w' o]) (simp_all add: sample_asker_def)
  then show ?thesis by auto
qed

theorem reply_reaches_client_witness:
  "\<exists>c1 c2. adb_status 3 (sample_asker [RData ''OKAY00'', RData ''040020'']) = Inr (0, c1) \<and>
     read_reply 3 c1 = Inr (Some ''0020'', c2) \<and> c_closed c2 = [3]"
proof -
  let ?c = "sample_asker [RData ''OKAY00'', RData ''040020'']"
  have "fmt_04x (length ''0020'') = ''0004''" by code_simp
  note h = this [simplified]
  have s: "\<exists>w'. send_msg_with_okay 5 ''0020'' sample_stream = Inr w' \<and> w_out w' 5 = w_out sample_stream 5 @ ''OKAY00040020''"
    by (simp add: send_msg_with_okay_def h sample_writex [OF sample_stream_ws] sample_writex)
  then obtain w' where w': "send_msg_with_okay 5 ''0020'' sample_stream = Inr w'"
      and o: "w_out w' 5 = w_out sample_stream 5 @ ''OKAY00040020''" by blast
  have "\<exists>c1 c2. adb_status 3 ?c = Inr (0, c1) \<and> read_reply 3 c1 = Inr (Some ''0020'', c2) \<and>
      stream (c_rs c2 3) = [] \<and> c_closed c2 = c_closed ?c @ [3]"
    by (rule reply_reaches_client [OF w' o]) (simp_all add: sample_asker_def)
  then show ?thesis by (auto simp: sample_asker_def)
qed

section \<open>Naming a device\<close>

text \<open>The serial numbers that can be told from the command that follows them: a qualifier as the long
  device list prints it, a name without colon, or a host and a port.\<close>

definition serial_ok :: "string \<Rightarrow> bool" where
  "serial_ok s \<longleftrightarrow>
     (case find (\<lambda>p. starts_with p (s @ '':'')) prefixes of
        Some p \<Rightarrow> length p \<le> length s \<and> CHR '':'' \<notin> set (drop (length p) s)
      | None \<Rightarrow> CHR '':'' \<notin> set s \<or> after_char (CHR '':'') s \<noteq> [] \<and> list_all isdigit (after_char (CHR '':'') s))"

lemma starts_with_cut:
  assumes "CHR '':'' \<notin> set (butlast p)"
  shows "starts_with p (s @ CHR '':'' # t) \<longleftrightarrow> starts_with p (s @ '':'')"
proof (cases "length p \<le> Suc (length s)")
  case True
  then show ?thesis by (cases "length p - length s") (auto simp: starts_with_def)
next
  case False
  have "p ! length s = CHR '':''" if "starts_with p (s @ CHR '':'' # t)"
    using that False nth_take [of "length s" "length p" "s @ CHR '':'' # t"] by (simp add: starts_with_def)
  moreover have "butlast p ! length s = p ! length s" "length s < length (butlast p)" using False by (simp_all add: nth_butlast)
  ultimately have "\<not> starts_with p (s @ CHR '':'' # t)" using assms nth_mem by metis
  moreover have "\<not> starts_with p (s @ '':'')" using False by (auto simp: starts_with_def dest: arg_cong [of _ _ length])
  ultimately show ?thesis by blast
qed

lemma find_prefix_cut:
  "find (\<lambda>p. starts_with p (s @ CHR '':'' # t)) prefixes = find (\<lambda>p. starts_with p (s @ '':'')) prefixes"
proof (rule find_cong [OF refl])
  fix p
  assume "p \<in> set prefixes"
  then have "CHR '':'' \<notin> set (butlast p)" by (auto simp: prefixes_def)
  then show "starts_with p (s @ CHR '':'' # t) = starts_with p (s @ '':'')" by (rule starts_with_cut)
qed

lemma split_colon_append: "CHR '':'' \<notin> set s \<Longrightarrow> split_colon pre (s @ CHR '':'' # t) = Some (pre @ s, CHR '':'' # t)"
  by (simp add: split_colon_def)

lemma split_at_colon: "CHR '':'' \<in> set s \<Longrightarrow> s = upto_char (CHR '':'') s @ CHR '':'' # after_char (CHR '':'') s"
  unfolding upto_char_def by (induction s) auto

lemma skip_host_serial_splits:
  assumes "serial_ok s" and "command = [] \<or> \<not> isdigit (hd command)"
  shows "skip_host_serial (s @ CHR '':'' # command) = Some (s, CHR '':'' # command)"
proof (cases "find (\<lambda>p. starts_with p (s @ '':'')) prefixes")
  case (Some p)
  then have p: "length p \<le> length s" "CHR '':'' \<notin> set (drop (length p) s)" using assms(1) by (auto simp: serial_ok_def)
  have "starts_with p (s @ '':'')" using Some by (auto simp: find_Some_iff)
  then have "take (length p) s = p" using p(1) by (simp add: starts_with_def)
  then have "p @ drop (length p) s = s" by (metis append_take_drop_id)
  then show ?thesis using Some p by (simp add: skip_host_serial_def find_prefix_cut [of s command] split_colon_append)
next
  case None
  show ?thesis
  proof (cases "CHR '':'' \<in> set s")
    case False
    have "takeWhile isdigit command = []" using assms(2) by (cases command) auto
    then show ?thesis using None False by (simp add: skip_host_serial_def find_prefix_cut [of s command] split_colon_append)
  next
    case True
    let ?h = "upto_char (CHR '':'') s" and ?p = "after_char (CHR '':'') s"
    have p: "?p \<noteq> []" "list_all isdigit ?p" using assms(1) None True by (auto simp: serial_ok_def)
    have s: "s = ?h @ CHR '':'' # ?p" by (rule split_at_colon [OF True])
    have h: "CHR '':'' \<notin> set ?h" by (auto simp: upto_char_def dest: set_takeWhileD)
    have c: "\<not> isdigit (CHR '':'')" by code_simp
    then have d: "takeWhile isdigit (?p @ CHR '':'' # command) = ?p" "dropWhile isdigit (?p @ CHR '':'' # command) = CHR '':'' # command"
      using p(2) by (simp_all add: list_all_iff takeWhile_append2 dropWhile_append2)
    have "split_colon [] (s @ CHR '':'' # command) = Some (?h, CHR '':'' # ?p @ CHR '':'' # command)"
      using split_colon_append [OF h, of "[]" "?p @ CHR '':'' # command"] s by (metis append.assoc append_Cons append_Nil)
    then show ?thesis using None p(1) d s c by (simp add: skip_host_serial_def find_prefix_cut [of s command] Let_def)
  qed
qed

definition target_prefix :: "transport_type \<Rightarrow> string option \<Rightarrow> string" where
  "target_prefix ttype serial =
     (case serial of
        Some s \<Rightarrow> ''host-serial:'' @ s
      | None \<Rightarrow> if ttype = kTransportUsb then ''host-usb'' else if ttype = kTransportLocal then ''host-local'' else ''host'')"

lemma host_request_target:
  assumes "serial = None \<Longrightarrow> ttype \<noteq> kTransportHost"
    and "\<And>s. serial = Some s \<Longrightarrow> serial_ok s \<and> (command = [] \<or> \<not> isdigit (hd command))"
  shows "host_request (target_prefix ttype serial @ '':'' @ command) =
    Some (command, if serial = None then ttype else kTransportAny, serial)"
proof (cases serial)
  case (Some s)
  then show ?thesis
    using assms(2) skip_host_serial_splits [of s command] by (simp add: target_prefix_def host_request_def starts_with_def)
next
  case None
  then show ?thesis using assms(1) by (cases ttype) (simp_all add: target_prefix_def host_request_def starts_with_def)
qed

text \<open>C19: What a client names in a request for the server is what the server reads: the command, and the
  serial number or the type of transport. A serial number may be a qualifier from the long device
  list, a plain name, or a host with a port, and the buffer must be long enough.\<close>

theorem host_command_roundtrip:
  assumes "length command + length (case_option [] id serial) + 14 \<le> buflen"
    and "serial = None \<Longrightarrow> ttype \<noteq> kTransportHost"
    and "\<And>s. serial = Some s \<Longrightarrow> serial_ok s \<and> (command = [] \<or> \<not> isdigit (hd command))"
  shows "host_request (format_host_command buflen command ttype serial) =
    Some (command, if serial = None then ttype else kTransportAny, serial)"
proof -
  have "length (target_prefix ttype serial @ '':'' @ command) < buflen"
    using assms(1) by (auto simp: target_prefix_def split: option.split)
  then have "format_host_command buflen command ttype serial = target_prefix ttype serial @ '':'' @ command"
    by (cases serial) (auto simp: format_host_command_def target_prefix_def)
  then show ?thesis using host_request_target [OF assms(2,3)] by simp
qed

theorem host_command_roundtrip_witness:
  "host_request (format_host_command 64 ''get-state'' kTransportAny (Some ''10.0.0.1:5555'')) =
     Some (''get-state'', kTransportAny, Some ''10.0.0.1:5555'')"
proof -
  have "serial_ok ''10.0.0.1:5555'' \<and> \<not> isdigit (hd ''get-state'')" by code_simp
  then show ?thesis using host_command_roundtrip [of "''get-state''" "Some ''10.0.0.1:5555''" 64 kTransportAny] by simp
qed

end
