(* ===== verification/Adb_Sync.thy ===== *)
theory Adb_Sync
  imports Adb_Client
begin

text \<open>
  The file sync client (file\_sync\_client.c, with the messages of file\_sync\_service.h): listing
  directories, and copying files to and from a device. The local file system is a record: what
  the calls of the client will find there, and the files, directories and attributes that it
  has made. The counters and messages for the terminal are left out.
\<close>

section \<open>Messages\<close>

definition SYNC_DATA_MAX :: nat where
  "SYNC_DATA_MAX = 65536"

text \<open>\<open>MKID\<close> on a little-endian machine\<close>

definition MKID :: "string \<Rightarrow> u32" where
  "MKID s = get32 s"

definition ID_STAT :: u32 where "ID_STAT = MKID ''STAT''"
definition ID_LIST :: u32 where "ID_LIST = MKID ''LIST''"
definition ID_ULNK :: u32 where "ID_ULNK = MKID ''ULNK''"
definition ID_SEND :: u32 where "ID_SEND = MKID ''SEND''"
definition ID_RECV :: u32 where "ID_RECV = MKID ''RECV''"
definition ID_DENT :: u32 where "ID_DENT = MKID ''DENT''"
definition ID_DONE :: u32 where "ID_DONE = MKID ''DONE''"
definition ID_DATA :: u32 where "ID_DATA = MKID ''DATA''"
definition ID_OKAY :: u32 where "ID_OKAY = MKID ''OKAY''"
definition ID_FAIL :: u32 where "ID_FAIL = MKID ''FAIL''"
definition ID_QUIT :: u32 where "ID_QUIT = MKID ''QUIT''"

text \<open>The messages of two words: a request, data, a status.\<close>

definition syncmsg :: "u32 \<Rightarrow> u32 \<Rightarrow> bytes" where
  "syncmsg i n = put32 i @ put32 n"

text \<open>An \<open>int\<close> that becomes a \<open>size_t\<close>.\<close>

definition size_of_int :: "u32 \<Rightarrow> nat" where
  "size_of_int n = (if sint n < 0 then 2 ^ 64 - 2 ^ 32 + unat n else unat n)"

definition int_of :: "u32 \<Rightarrow> int" where
  "int_of n = sint n"

text \<open>\<open>readx\<close> of \<open>n\<close> bytes into a buffer of \<open>cap\<close> bytes. Where \<open>n\<close> is larger the read goes on past
  the end of the buffer as soon as there is one byte more than fits.\<close>

definition c_read_into :: "nat \<Rightarrow> nat \<Rightarrow> int \<Rightarrow> client \<Rightarrow> err + (bytes option \<times> client)" where
  "c_read_into cap n fd c =
     (if n \<le> cap then c_readx n fd c
      else ebind (c_readx (Suc cap) fd c) (\<lambda>(r, c). case r of None \<Rightarrow> Inr (None, c) | Some _ \<Rightarrow> Inl OutOfBounds))"

section \<open>Requests\<close>

definition sync_quit :: "int \<Rightarrow> client \<Rightarrow> err + client" where
  "sync_quit fd c = ebind (c_writex fd (syncmsg ID_QUIT 0) c) (\<lambda>(_, c). Inr c)"

text \<open>A request with a path.\<close>

definition sync_request :: "u32 \<Rightarrow> string \<Rightarrow> int \<Rightarrow> client \<Rightarrow> err + (bool \<times> client)" where
  "sync_request i path fd c =
     ebind (c_writex fd (syncmsg i (of_nat (length path))) c) (\<lambda>(r, c).
       if r then c_writex fd path c else Inr (False, c))"

text \<open>The loop of \<open>sync_ls\<close>: whether it ended with \<open>DONE\<close>, and what the callback has made of the
  entries. Every round reads at least 20 bytes.\<close>

fun ls_loop :: "nat \<Rightarrow> (u32 \<Rightarrow> u32 \<Rightarrow> u32 \<Rightarrow> string \<Rightarrow> 's \<Rightarrow> 's) \<Rightarrow> int \<Rightarrow> 's \<Rightarrow> client \<Rightarrow> err + (bool \<times> 's \<times> client)" where
  "ls_loop 0 func fd s c = Inl OutOfFuel"
| "ls_loop (Suc n) func fd s c =
     ebind (c_readx 20 fd c) (\<lambda>(r, c).
       case r of
         None \<Rightarrow> Inr (False, s, c)
       | Some m \<Rightarrow>
           if get32 m = ID_DONE then Inr (True, s, c)
           else if get32 m \<noteq> ID_DENT then Inr (False, s, c)
           else let len = get32 (drop 16 m) in
             if 256 < int_of len then Inr (False, s, c)
             else ebind (c_read_into 257 (size_of_int len) fd c) (\<lambda>(r, c).
               case r of
                 None \<Rightarrow> Inr (False, s, c)
               | Some name \<Rightarrow>
                   ls_loop n func fd (func (get32 (drop 4 m)) (get32 (drop 8 m)) (get32 (drop 12 m))
                     (takeWhile (\<lambda>c. c \<noteq> NUL) name) s) c))"

definition sync_ls :: "nat \<Rightarrow> (u32 \<Rightarrow> u32 \<Rightarrow> u32 \<Rightarrow> string \<Rightarrow> 's \<Rightarrow> 's) \<Rightarrow> int \<Rightarrow> string \<Rightarrow> 's \<Rightarrow> client \<Rightarrow> err + (int \<times> 's \<times> client)" where
  "sync_ls fuel func fd path s c =
     (if 1024 < length path then Inr (-1, s, c_close fd c)
      else ebind (sync_request ID_LIST path fd c) (\<lambda>(r, c).
        if \<not> r then Inr (-1, s, c_close fd c)
        else ebind (ls_loop fuel func fd s c) (\<lambda>(r, s, c).
          Inr (if r then (0, s, c) else (-1, s, c_close fd c)))))"

text \<open>The answer to a \<open>STAT\<close> request: mode, size and time.\<close>

definition read_stat :: "int \<Rightarrow> client \<Rightarrow> err + ((u32 \<times> u32 \<times> u32) option \<times> client)" where
  "read_stat fd c =
     ebind (c_readx 16 fd c) (\<lambda>(r, c).
       Inr (case r of
              None \<Rightarrow> None
            | Some m \<Rightarrow> if get32 m \<noteq> ID_STAT then None
                        else Some (get32 (drop 4 m), get32 (drop 8 m), get32 (drop 12 m)), c))"

definition sync_start_readtime :: "int \<Rightarrow> string \<Rightarrow> client \<Rightarrow> err + (bool \<times> client)" where
  "sync_start_readtime fd path c = sync_request ID_STAT path fd c"

definition sync_finish_readtime :: "int \<Rightarrow> client \<Rightarrow> err + ((u32 \<times> u32 \<times> u32) option \<times> client)" where
  "sync_finish_readtime fd c = read_stat fd c"

definition sync_stat :: "int \<Rightarrow> string \<Rightarrow> client \<Rightarrow> err + ((u32 \<times> u32 \<times> u32) option \<times> client)" where
  "sync_stat fd path c =
     ebind (sync_request ID_STAT path fd c) (\<lambda>(r, c). if r then read_stat fd c else Inr (None, c))"

definition sync_readtime :: "int \<Rightarrow> string \<Rightarrow> client \<Rightarrow> err + ((u32 \<times> u32) option \<times> client)" where
  "sync_readtime fd path c = ebind (sync_stat fd path c) (\<lambda>(r, c). Inr (map_option (\<lambda>(mode, size, time). (time, mode)) r, c))"

definition sync_readmode :: "int \<Rightarrow> string \<Rightarrow> client \<Rightarrow> err + (u32 option \<times> client)" where
  "sync_readmode fd path c = ebind (sync_stat fd path c) (\<lambda>(r, c). Inr (map_option fst r, c))"

definition sync_unlink :: "int \<Rightarrow> string \<Rightarrow> client \<Rightarrow> err + (int \<times> client)" where
  "sync_unlink fd path c =
     ebind (sync_request ID_ULNK path fd c) (\<lambda>(r, c).
       if \<not> r then Inr (-1, c)
       else ebind (c_readx 8 fd c) (\<lambda>(r, c).
         Inr (case r of None \<Rightarrow> -1 | Some m \<Rightarrow> if get32 m \<noteq> ID_OKAY then -1 else 0, c)))"

text \<open>The type bits of a mode.\<close>

definition S_ISDIR :: "u32 \<Rightarrow> bool" where "S_ISDIR m \<longleftrightarrow> m AND 0xf000 = 0x4000"
definition S_ISREG :: "u32 \<Rightarrow> bool" where "S_ISREG m \<longleftrightarrow> m AND 0xf000 = 0x8000"
definition S_ISLNK :: "u32 \<Rightarrow> bool" where "S_ISLNK m \<longleftrightarrow> m AND 0xf000 = 0xa000"
definition S_ISCHR :: "u32 \<Rightarrow> bool" where "S_ISCHR m \<longleftrightarrow> m AND 0xf000 = 0x2000"
definition S_ISBLK :: "u32 \<Rightarrow> bool" where "S_ISBLK m \<longleftrightarrow> m AND 0xf000 = 0x6000"

definition do_sync_unlink :: "string \<Rightarrow> client \<Rightarrow> err + (int \<times> client)" where
  "do_sync_unlink rpath c =
     ebind (adb_connect ''sync:'' c) (\<lambda>(fd, c).
       if fd < 0 then Inr (1, c)
       else ebind (sync_readmode fd rpath c) (\<lambda>(mode, c).
         if (case mode of None \<Rightarrow> False | Some m \<Rightarrow> m \<noteq> 0 \<and> S_ISDIR m)
         then ebind (sync_quit fd c) (\<lambda>c. Inr (1, c))
         else ebind (sync_unlink fd rpath c) (\<lambda>(r, c).
              ebind (sync_quit fd c) (\<lambda>c. Inr (if r \<noteq> 0 then 1 else 0, c)))))"

section \<open>The local file system\<close>

record lstat =
  st_mode :: u32
  st_size :: u32
  st_mtime :: u32

text \<open>\<open>f_open\<close> is what reading a file gives and \<open>f_creat\<close> what writing a new one gives (\<open>None\<close>
  where it cannot be opened or made), \<open>f_fstat\<close>, \<open>f_mkdir\<close>, \<open>f_utime\<close> and \<open>f_chmod\<close> tell whether
  the calls succeed, \<open>f_dir\<close> and \<open>f_link\<close> are the names in a directory and the target of a link.
  The last three fields are what the client has made.\<close>

record lfs =
  f_open :: "string \<Rightarrow> rres list option"
  f_stat :: "string \<Rightarrow> lstat option"
  f_lstat :: "string \<Rightarrow> lstat option"
  f_fstat :: "string \<Rightarrow> bool"
  f_dir :: "string \<Rightarrow> string list option"
  f_link :: "string \<Rightarrow> string option"
  f_creat :: "string \<Rightarrow> wres list option"
  f_mkdir :: "string \<Rightarrow> bool"
  f_utime :: "string \<Rightarrow> bool"
  f_chmod :: "string \<Rightarrow> bool"
  f_umask :: u32
  f_files :: "string \<rightharpoonup> bytes"
  f_dirs :: "string list"
  f_attrs :: "string \<rightharpoonup> u32 \<times> u32"

definition adb_unlink :: "string \<Rightarrow> lfs \<Rightarrow> lfs" where
  "adb_unlink path fs = fs\<lparr>f_files := (f_files fs)(path := None)\<rparr>"

section \<open>Pushing\<close>

definition data_msg :: "bytes \<Rightarrow> bytes" where
  "data_msg d = syncmsg ID_DATA (of_nat (length d)) @ d"

text \<open>The loop of \<open>write_data_file\<close>; a read that fails ends it as the end of the file does.\<close>

function data_loop :: "rres list \<Rightarrow> int \<Rightarrow> client \<Rightarrow> err + (int \<times> client)" where
  "data_loop [] fd c = Inl Blocked"
| "data_loop (RErr e # rs) fd c = (if e = EINTR then data_loop rs fd c else Inr (0, c))"
| "data_loop (RData bs # rs) fd c =
     (if bs = [] then Inr (0, c)
      else ebind (c_writex fd (data_msg (take SYNC_DATA_MAX bs)) c) (\<lambda>(r, c).
        if \<not> r then Inr (-1, c)
        else if length bs \<le> SYNC_DATA_MAX then data_loop rs fd c
        else data_loop (RData (drop SYNC_DATA_MAX bs) # rs) fd c))"
  by pat_completeness auto
termination
  by (relation "measure (\<lambda>(rs, _, _). size_list (\<lambda>r. case r of RData bs \<Rightarrow> length bs | RErr _ \<Rightarrow> 0) rs)")
    (auto simp: SYNC_DATA_MAX_def)

declare data_loop.simps(3) [simp del]

definition write_data_file :: "bool \<Rightarrow> int \<Rightarrow> string \<Rightarrow> lfs \<Rightarrow> client \<Rightarrow> err + (int \<times> client)" where
  "write_data_file show_progress fd path fs c =
     (case f_open fs path of
        None \<Rightarrow> Inr (-1, c)
      | Some rs \<Rightarrow> if show_progress \<and> \<not> f_fstat fs path then Inr (-1, c) else data_loop rs fd c)"

text \<open>\<open>write_data_buffer\<close> on the rest of the buffer\<close>

function write_data_buffer :: "int \<Rightarrow> bytes \<Rightarrow> client \<Rightarrow> err + (int \<times> client)" where
  "write_data_buffer fd buf c =
     (if buf = [] then Inr (0, c)
      else ebind (c_writex fd (data_msg (take SYNC_DATA_MAX buf)) c) (\<lambda>(r, c).
        if \<not> r then Inr (-1, c) else write_data_buffer fd (drop SYNC_DATA_MAX buf) c))"
  by pat_completeness auto
termination by (relation "measure (\<lambda>(_, buf, _). length buf)") (auto simp: SYNC_DATA_MAX_def)

declare write_data_buffer.simps [simp del]

definition write_data_link :: "int \<Rightarrow> string \<Rightarrow> lfs \<Rightarrow> client \<Rightarrow> err + (int \<times> client)" where
  "write_data_link fd path fs c =
     (case f_link fs path of
        None \<Rightarrow> Inr (-1, c)
      | Some target \<Rightarrow>
          ebind (c_writex fd (data_msg (take (SYNC_DATA_MAX - 1) target @ [NUL])) c) (\<lambda>(r, c).
            Inr (if r then 0 else -1, c)))"

definition mode_suffix :: "u32 \<Rightarrow> string" where
  "mode_suffix mode = snprintf 64 ('','' @ show_int (int_of mode))"

text \<open>The status at the end of \<open>sync_send\<close>.\<close>

definition send_status :: "int \<Rightarrow> client \<Rightarrow> err + (int \<times> client)" where
  "send_status fd c =
     ebind (c_readx 8 fd c) (\<lambda>(r, c).
       case r of
         None \<Rightarrow> Inr (-1, c)
       | Some m \<Rightarrow>
           if get32 m = ID_OKAY then Inr (0, c)
           else if get32 m = ID_FAIL then
             let len = get32 (drop 4 m); len = (if 256 < int_of len then 256 else size_of_int len) in
             ebind (c_read_into SYNC_DATA_MAX len fd c) (\<lambda>(_, c). Inr (-1, c))
           else Inr (-1, c))"

text \<open>The results of the functions that send the data are not looked at.\<close>

definition sync_send :: "bool \<Rightarrow> int \<Rightarrow> string \<Rightarrow> string \<Rightarrow> u32 \<Rightarrow> u32 \<Rightarrow> lfs \<Rightarrow> client \<Rightarrow> err + (int \<times> client)" where
  "sync_send show_progress fd lpath rpath mtime mode fs c =
     (let fail = (\<lambda>c. Inr (-1, c_close fd c));
          tmp = mode_suffix mode
      in if 1024 < length rpath then fail c
         else
           ebind (c_writex fd (syncmsg ID_SEND (of_nat (length rpath + length tmp))) c) (\<lambda>(r1, c).
           ebind (if r1 then c_writex fd rpath c else Inr (False, c)) (\<lambda>(r2, c).
           ebind (if r2 then c_writex fd tmp c else Inr (False, c)) (\<lambda>(r3, c).
             if \<not> r3 then fail c
             else if \<not> (S_ISREG mode \<or> S_ISLNK mode) then fail c
             else
               ebind (if S_ISREG mode then write_data_file show_progress fd lpath fs c
                      else write_data_link fd lpath fs c) (\<lambda>(_, c).
               ebind (c_writex fd (syncmsg ID_DONE mtime) c) (\<lambda>(r, c).
                 if \<not> r then fail c else send_status fd c))))))"

section \<open>Pulling\<close>

text \<open>The directories that \<open>mkdirs\<close> makes, one for each slash but the first character.\<close>

definition dir_prefixes :: "string \<Rightarrow> string list" where
  "dir_prefixes name = map (\<lambda>i. take i name) (filter (\<lambda>i. name ! i = CHR ''/'') [1..<length name])"

fun mkdir_loop :: "string list \<Rightarrow> lfs \<Rightarrow> int \<times> lfs" where
  "mkdir_loop [] fs = (0, fs)"
| "mkdir_loop (d # ds) fs =
     (if f_mkdir fs d then mkdir_loop ds (fs\<lparr>f_dirs := f_dirs fs @ [d]\<rparr>) else (-1, fs))"

definition mkdirs :: "string \<Rightarrow> lfs \<Rightarrow> int \<times> lfs" where
  "mkdirs name fs = mkdir_loop (dir_prefixes name) fs"

text \<open>\<open>remote_error\<close>: the local file is removed, and only a message that cannot be read is
  reported to the caller.\<close>

definition remote_error :: "int \<Rightarrow> string \<Rightarrow> u32 \<Rightarrow> u32 \<Rightarrow> lfs \<Rightarrow> client \<Rightarrow> err + (int \<times> lfs \<times> client)" where
  "remote_error fd lpath i sz fs c =
     (let fs = adb_unlink lpath fs in
      if i = ID_FAIL then
        let len = (if 256 < int_of sz then 256 else size_of_int sz) in
        ebind (c_read_into SYNC_DATA_MAX len fd c) (\<lambda>(r, c). Inr (if r = None then -1 else 0, fs, c))
      else Inr (0, fs, c))"

text \<open>The loop of \<open>sync_recv\<close> from \<open>handle_data\<close>, with the header that was read last and what the
  next writes to the local file give. Every round reads at least eight bytes.\<close>

fun recv_loop :: "nat \<Rightarrow> int \<Rightarrow> string \<Rightarrow> bytes \<Rightarrow> wres list \<Rightarrow> lfs \<Rightarrow> client \<Rightarrow> err + (int \<times> lfs \<times> client)" where
  "recv_loop 0 fd lpath m ws fs c = Inl OutOfFuel"
| "recv_loop (Suc n) fd lpath m ws fs c =
     (let i = get32 m; sz = get32 (drop 4 m) in
      if i = ID_DONE then Inr (0, fs, c)
      else if i \<noteq> ID_DATA then remote_error fd lpath i sz fs c
      else if int SYNC_DATA_MAX < int_of sz then Inr (-1, fs, c)
      else ebind (c_read_into SYNC_DATA_MAX (size_of_int sz) fd c) (\<lambda>(r, c).
        case r of
          None \<Rightarrow> Inr (-1, fs, c)
        | Some d \<Rightarrow>
            ebind (writex d ws) (\<lambda>(r, acc, ws).
              let fs = fs\<lparr>f_files := (f_files fs)(lpath \<mapsto> case_option [] id (f_files fs lpath) @ acc)\<rparr> in
              if \<not> r then Inr (-1, fs, c)
              else ebind (c_readx 8 fd c) (\<lambda>(r, c).
                case r of None \<Rightarrow> Inr (-1, fs, c) | Some m \<Rightarrow> recv_loop n fd lpath m ws fs c))))"

definition sync_recv :: "nat \<Rightarrow> bool \<Rightarrow> int \<Rightarrow> string \<Rightarrow> string \<Rightarrow> lfs \<Rightarrow> client \<Rightarrow> err + (int \<times> lfs \<times> client)" where
  "sync_recv fuel show_progress fd rpath lpath fs c =
     (if 1024 < length rpath then Inr (-1, fs, c)
      else ebind (if show_progress then ebind (sync_stat fd rpath c) (\<lambda>(r, c). Inr (r \<noteq> None, c)) else Inr (True, c)) (\<lambda>(r, c).
        if \<not> r then Inr (-1, fs, c)
        else ebind (sync_request ID_RECV rpath fd c) (\<lambda>(r, c).
          if \<not> r then Inr (-1, fs, c)
          else ebind (c_readx 8 fd c) (\<lambda>(r, c).
            case r of
              None \<Rightarrow> Inr (-1, fs, c)
            | Some m \<Rightarrow>
                if get32 m = ID_DATA \<or> get32 m = ID_DONE then
                  let fs = snd (mkdirs lpath (adb_unlink lpath fs)) in
                  (case f_creat fs lpath of
                     None \<Rightarrow> Inr (-1, fs, c)
                   | Some ws \<Rightarrow> recv_loop fuel fd lpath m ws (fs\<lparr>f_files := (f_files fs)(lpath \<mapsto> [])\<rparr>) c)
                else remote_error fd lpath (get32 m) (get32 (drop 4 m)) fs c))))"

section \<open>Lists of files\<close>

definition do_sync_ls_cb :: "u32 \<Rightarrow> u32 \<Rightarrow> u32 \<Rightarrow> string \<Rightarrow> (u32 \<times> u32 \<times> u32 \<times> string) list \<Rightarrow> (u32 \<times> u32 \<times> u32 \<times> string) list" where
  "do_sync_ls_cb mode sz time name out = out @ [(mode, sz, time, name)]"

text \<open>The lines that are printed are collected.\<close>

definition do_sync_ls :: "nat \<Rightarrow> string \<Rightarrow> client \<Rightarrow> err + (int \<times> (u32 \<times> u32 \<times> u32 \<times> string) list \<times> client)" where
  "do_sync_ls fuel path c =
     ebind (adb_connect ''sync:'' c) (\<lambda>(fd, c).
       if fd < 0 then Inr (1, [], c)
       else ebind (sync_ls fuel do_sync_ls_cb fd path [] c) (\<lambda>(r, out, c).
         if r \<noteq> 0 then Inr (1, out, c) else ebind (sync_quit fd c) (\<lambda>c. Inr (0, out, c))))"

record copyinfo =
  ci_src :: string
  ci_dst :: string
  ci_time :: u32
  ci_mode :: u32
  ci_size :: u32
  ci_flag :: bool

definition mkcopyinfo :: "string \<Rightarrow> string \<Rightarrow> string \<Rightarrow> bool \<Rightarrow> copyinfo" where
  "mkcopyinfo spath dpath name isdir =
     \<lparr>ci_src = spath @ name @ (if isdir then ''/'' else []), ci_dst = dpath @ name @ (if isdir then ''/'' else []),
      ci_time = 0, ci_mode = 0, ci_size = 0, ci_flag = False\<rparr>"

definition dot_name :: "string \<Rightarrow> bool" where
  "dot_name name \<longleftrightarrow> name = ''.'' \<or> name = ''..''"

text \<open>The loop over the names of a directory: the directories and the files found, the last one
  first.\<close>

fun scan_names :: "lfs \<Rightarrow> string \<Rightarrow> string \<Rightarrow> string list \<Rightarrow> copyinfo list \<Rightarrow> copyinfo list \<Rightarrow> copyinfo list \<times> copyinfo list" where
  "scan_names fs lpath rpath [] dirs files = (dirs, files)"
| "scan_names fs lpath rpath (name # names) dirs files =
     (if dot_name name \<or> PATH_MAX < length lpath + length name + 1
      then scan_names fs lpath rpath names dirs files
      else case f_lstat fs (lpath @ name) of
             None \<Rightarrow> scan_names fs lpath rpath names dirs files
           | Some st \<Rightarrow>
               if S_ISDIR (st_mode st) then
                 scan_names fs lpath rpath names (mkcopyinfo lpath rpath name True # dirs) files
               else if S_ISREG (st_mode st) \<or> S_ISLNK (st_mode st) then
                 scan_names fs lpath rpath names dirs
                   ((mkcopyinfo lpath rpath name False)\<lparr>ci_time := st_mtime st, ci_mode := st_mode st, ci_size := st_size st\<rparr> # files)
               else scan_names fs lpath rpath names dirs files)"

text \<open>\<open>local_build_list\<close>; the first argument bounds the depth of the directories. The result of
  the calls for the directories in a directory is not looked at.\<close>

fun local_build_list :: "nat \<Rightarrow> lfs \<Rightarrow> string \<Rightarrow> string \<Rightarrow> copyinfo list \<Rightarrow> err + (int \<times> copyinfo list)"
and build_dirs :: "nat \<Rightarrow> lfs \<Rightarrow> copyinfo list \<Rightarrow> copyinfo list \<Rightarrow> err + copyinfo list" where
  "local_build_list 0 fs lpath rpath files = Inl OutOfFuel"
| "local_build_list (Suc n) fs lpath rpath files =
     (case f_dir fs lpath of
        None \<Rightarrow> Inr (-1, files)
      | Some names \<Rightarrow>
          (case scan_names fs lpath rpath names [] files of (dirs, files) \<Rightarrow>
             ebind (build_dirs n fs dirs files) (\<lambda>files. Inr (0, files))))"
| "build_dirs n fs [] files = Inr files"
| "build_dirs n fs (d # ds) files =
     ebind (local_build_list n fs (ci_src d) (ci_dst d) files) (\<lambda>(_, files). build_dirs n fs ds files)"

definition with_slash :: "string \<Rightarrow> string" where
  "with_slash path = (if last path = CHR ''/'' then path else path @ ''/'')"

fun start_times :: "copyinfo list \<Rightarrow> int \<Rightarrow> client \<Rightarrow> err + (bool \<times> client)" where
  "start_times [] fd c = Inr (True, c)"
| "start_times (f # fs) fd c =
     ebind (sync_start_readtime fd (ci_dst f) c) (\<lambda>(r, c). if r then start_times fs fd c else Inr (False, c))"

text \<open>A file is left out if the device has one of the same size and kind that is not older.\<close>

definition up_to_date :: "u32 \<Rightarrow> u32 \<Rightarrow> u32 \<Rightarrow> copyinfo \<Rightarrow> bool" where
  "up_to_date mode sz time f \<longleftrightarrow>
     sz = ci_size f \<and> (S_ISREG (ci_mode f AND mode) \<and> time = ci_time f \<or>
                         S_ISLNK (ci_mode f AND mode) \<and> ci_time f \<le> time)"

fun finish_times :: "copyinfo list \<Rightarrow> int \<Rightarrow> client \<Rightarrow> err + (copyinfo list option \<times> client)" where
  "finish_times [] fd c = Inr (Some [], c)"
| "finish_times (f # fs) fd c =
     ebind (sync_finish_readtime fd c) (\<lambda>(r, c).
       case r of
         None \<Rightarrow> Inr (None, c)
       | Some (mode, sz, time) \<Rightarrow>
           ebind (finish_times fs fd c) (\<lambda>(r, c).
             Inr (map_option ((#) (if up_to_date mode sz time f then f\<lparr>ci_flag := True\<rparr> else f)) r, c)))"

fun push_loop :: "bool \<Rightarrow> copyinfo list \<Rightarrow> int \<Rightarrow> lfs \<Rightarrow> client \<Rightarrow> err + (bool \<times> client)" where
  "push_loop listonly [] fd fs c = Inr (True, c)"
| "push_loop listonly (f # files) fd fs c =
     (if ci_flag f \<or> listonly then push_loop listonly files fd fs c
      else ebind (sync_send False fd (ci_src f) (ci_dst f) (ci_time f) (ci_mode f) fs c) (\<lambda>(r, c).
        if r \<noteq> 0 then Inr (False, c) else push_loop listonly files fd fs c))"

definition copy_local_dir_remote :: "nat \<Rightarrow> int \<Rightarrow> string \<Rightarrow> string \<Rightarrow> bool \<Rightarrow> bool \<Rightarrow> lfs \<Rightarrow> client \<Rightarrow> err + (int \<times> client)" where
  "copy_local_dir_remote depth fd lpath rpath checktimestamps listonly fs c =
     (if lpath = [] \<or> rpath = [] then Inr (-1, c)
      else ebind (local_build_list depth fs (with_slash lpath) (with_slash rpath) []) (\<lambda>(r, files).
        if r \<noteq> 0 then Inr (-1, c)
        else
          ebind (if checktimestamps then
                   ebind (start_times files fd c) (\<lambda>(r, c). if r then finish_times files fd c else Inr (None, c))
                 else Inr (Some files, c)) (\<lambda>(files, c).
            case files of
              None \<Rightarrow> Inr (1, c)
            | Some files \<Rightarrow> ebind (push_loop listonly files fd fs c) (\<lambda>(r, c). Inr (if r then 0 else 1, c)))))"

text \<open>A file copied into a directory keeps its name.\<close>

definition base_name :: "string \<Rightarrow> string" where
  "base_name path = (case strrchr (CHR ''/'') path of None \<Rightarrow> path | Some r \<Rightarrow> tl r)"

definition do_sync_push :: "nat \<Rightarrow> string \<Rightarrow> string \<Rightarrow> bool \<Rightarrow> lfs \<Rightarrow> client \<Rightarrow> err + (int \<times> client)" where
  "do_sync_push depth lpath rpath show_progress fs c =
     ebind (adb_connect ''sync:'' c) (\<lambda>(fd, c).
       if fd < 0 then Inr (1, c)
       else case f_stat fs lpath of
         None \<Rightarrow> ebind (sync_quit fd c) (\<lambda>c. Inr (1, c))
       | Some st \<Rightarrow>
           let finish = (\<lambda>(r, c). if r \<noteq> 0 then Inr (1, c) else ebind (sync_quit fd c) (\<lambda>c. Inr (0, c))) in
           if S_ISDIR (st_mode st) then
             ebind (copy_local_dir_remote depth fd lpath rpath False False fs c) finish
           else ebind (sync_readmode fd rpath c) (\<lambda>(mode, c).
             case mode of
               None \<Rightarrow> Inr (1, c)
             | Some mode \<Rightarrow>
                 let rpath = (if mode \<noteq> 0 \<and> S_ISDIR mode then rpath @ ''/'' @ base_name lpath else rpath) in
                 ebind (sync_send show_progress fd lpath rpath (st_mtime st) (st_mode st) fs c) finish))"

text \<open>The callback that collects the entries of a directory on the device.\<close>

definition sync_ls_build_list_cb :: "string \<Rightarrow> string \<Rightarrow> u32 \<Rightarrow> u32 \<Rightarrow> u32 \<Rightarrow> string \<Rightarrow>
    copyinfo list \<times> copyinfo list \<Rightarrow> copyinfo list \<times> copyinfo list" where
  "sync_ls_build_list_cb rpath lpath mode sz time name =
     (\<lambda>(dirs, files).
        if S_ISDIR mode then
          (if dot_name name then (dirs, files) else (mkcopyinfo rpath lpath name True # dirs, files))
        else if S_ISREG mode \<or> S_ISLNK mode then
          (dirs, (mkcopyinfo rpath lpath name False)\<lparr>ci_time := time, ci_mode := mode, ci_size := sz\<rparr> # files)
        else (dirs, files))"

fun remote_build_list :: "nat \<Rightarrow> nat \<Rightarrow> int \<Rightarrow> string \<Rightarrow> string \<Rightarrow> copyinfo list \<Rightarrow> client \<Rightarrow> err + (int \<times> copyinfo list \<times> client)"
and remote_dirs :: "nat \<Rightarrow> nat \<Rightarrow> int \<Rightarrow> copyinfo list \<Rightarrow> copyinfo list \<Rightarrow> client \<Rightarrow> err + (int \<times> copyinfo list \<times> client)" where
  "remote_build_list 0 fuel fd rpath lpath files c = Inl OutOfFuel"
| "remote_build_list (Suc n) fuel fd rpath lpath files c =
     ebind (sync_ls fuel (sync_ls_build_list_cb rpath lpath) fd rpath ([], files) c) (\<lambda>(r, (dirs, files), c).
       if r \<noteq> 0 then Inr (1, files, c) else remote_dirs n fuel fd dirs files c)"
| "remote_dirs n fuel fd [] files c = Inr (0, files, c)"
| "remote_dirs n fuel fd (d # ds) files c =
     ebind (remote_build_list n fuel fd (ci_src d) (ci_dst d) files c) (\<lambda>(r, files, c).
       if r \<noteq> 0 then Inr (1, files, c) else remote_dirs n fuel fd ds files c)"

definition set_time_and_mode :: "string \<Rightarrow> u32 \<Rightarrow> u32 \<Rightarrow> lfs \<Rightarrow> int \<times> lfs" where
  "set_time_and_mode lpath time mode fs =
     (if f_utime fs lpath \<and> f_chmod fs lpath then 0 else -1,
      fs\<lparr>f_attrs := (f_attrs fs)(lpath \<mapsto> (time, mode AND NOT (f_umask fs)))\<rparr>)"

fun pull_loop :: "nat \<Rightarrow> bool \<Rightarrow> copyinfo list \<Rightarrow> int \<Rightarrow> lfs \<Rightarrow> client \<Rightarrow> err + (bool \<times> lfs \<times> client)" where
  "pull_loop fuel copy_attrs [] fd fs c = Inr (True, fs, c)"
| "pull_loop fuel copy_attrs (f # files) fd fs c =
     (if ci_flag f then pull_loop fuel copy_attrs files fd fs c
      else ebind (sync_recv fuel False fd (ci_src f) (ci_dst f) fs c) (\<lambda>(r, fs, c).
        if r \<noteq> 0 then Inr (False, fs, c)
        else let (r, fs) = (if copy_attrs then set_time_and_mode (ci_dst f) (ci_time f) (ci_mode f) fs else (0, fs)) in
          if r \<noteq> 0 then Inr (False, fs, c) else pull_loop fuel copy_attrs files fd fs c))"

definition copy_remote_dir_local :: "nat \<Rightarrow> nat \<Rightarrow> int \<Rightarrow> string \<Rightarrow> string \<Rightarrow> bool \<Rightarrow> lfs \<Rightarrow> client \<Rightarrow> err + (int \<times> lfs \<times> client)" where
  "copy_remote_dir_local depth fuel fd rpath lpath copy_attrs fs c =
     (if rpath = [] \<or> lpath = [] then Inr (-1, fs, c)
      else ebind (remote_build_list depth fuel fd (with_slash rpath) (with_slash lpath) [] c) (\<lambda>(r, files, c).
        if r \<noteq> 0 then Inr (-1, fs, c)
        else ebind (pull_loop fuel copy_attrs files fd fs c) (\<lambda>(r, fs, c). Inr (if r then 0 else 1, fs, c))))"

definition do_sync_pull :: "nat \<Rightarrow> nat \<Rightarrow> string \<Rightarrow> string \<Rightarrow> bool \<Rightarrow> bool \<Rightarrow> lfs \<Rightarrow> client \<Rightarrow> err + (int \<times> lfs \<times> client)" where
  "do_sync_pull depth fuel rpath lpath show_progress copy_attrs fs c =
     ebind (adb_connect ''sync:'' c) (\<lambda>(fd, c).
       if fd < 0 then Inr (1, fs, c)
       else ebind (sync_readtime fd rpath c) (\<lambda>(r, c).
         case r of
           None \<Rightarrow> Inr (1, fs, c)
         | Some (time, mode) \<Rightarrow>
             if mode = 0 then Inr (1, fs, c)
             else if S_ISREG mode \<or> S_ISLNK mode \<or> S_ISCHR mode \<or> S_ISBLK mode then
               let lpath = (case f_stat fs lpath of
                              Some st \<Rightarrow> if S_ISDIR (st_mode st) then lpath @ ''/'' @ base_name rpath else lpath
                            | None \<Rightarrow> lpath) in
               ebind (sync_recv fuel show_progress fd rpath lpath fs c) (\<lambda>(r, fs, c).
                 if r \<noteq> 0 then Inr (1, fs, c)
                 else let (r, fs) = (if copy_attrs then set_time_and_mode lpath time mode fs else (0, fs)) in
                   if r \<noteq> 0 then Inr (1, fs, c) else ebind (sync_quit fd c) (\<lambda>c. Inr (0, fs, c)))
             else if S_ISDIR mode then
               ebind (copy_remote_dir_local depth fuel fd rpath lpath copy_attrs fs c) (\<lambda>(r, fs, c).
                 if r \<noteq> 0 then Inr (1, fs, c) else ebind (sync_quit fd c) (\<lambda>c. Inr (0, fs, c)))
             else Inr (1, fs, c)))"

definition do_sync_sync :: "nat \<Rightarrow> string \<Rightarrow> string \<Rightarrow> bool \<Rightarrow> lfs \<Rightarrow> client \<Rightarrow> err + (int \<times> client)" where
  "do_sync_sync depth lpath rpath listonly fs c =
     ebind (adb_connect ''sync:'' c) (\<lambda>(fd, c).
       if fd < 0 then Inr (1, c)
       else ebind (copy_local_dir_remote depth fd lpath rpath True listonly fs c) (\<lambda>(r, c).
         if r \<noteq> 0 then Inr (1, c) else ebind (sync_quit fd c) (\<lambda>c. Inr (0, c))))"

section \<open>Lemmas\<close>

lemmas id_defs = ID_STAT_def ID_LIST_def ID_ULNK_def ID_SEND_def ID_RECV_def ID_DENT_def ID_DONE_def
  ID_DATA_def ID_OKAY_def ID_FAIL_def ID_QUIT_def MKID_def

lemma id_distinct [simp]:
  "ID_DATA \<noteq> ID_DONE" "ID_DONE \<noteq> ID_DATA" "ID_FAIL \<noteq> ID_DATA" "ID_FAIL \<noteq> ID_DONE" "ID_OKAY \<noteq> ID_FAIL"
  by (simp_all add: id_defs)

lemma length_syncmsg [simp]: "length (syncmsg i n) = 8"
  by (simp add: syncmsg_def)

lemma syncmsg_not_Nil [simp]: "syncmsg i n \<noteq> []"
  using length_syncmsg [of i n] by (auto simp del: length_syncmsg)

lemma syncmsg_words [simp]: "get32 (syncmsg i n) = i" "get32 (drop 4 (syncmsg i n)) = n"
  by (simp_all add: syncmsg_def)

lemma length_data_msg [simp]: "length (data_msg d) = 8 + length d"
  by (simp add: data_msg_def)

lemma small_sizes:
  assumes "n \<le> SYNC_DATA_MAX"
  shows "int_of (of_nat n) = int n" "size_of_int (of_nat n) = n" "unat (of_nat n :: u32) = n"
proof -
  show u: "unat (of_nat n :: u32) = n"
    using assms by (simp add: unsigned_of_nat take_bit_nat_eq_self_iff SYNC_DATA_MAX_def)
  have "sint (of_nat n :: u32) = int n"
    using assms by (simp add: signed_of_nat SYNC_DATA_MAX_def signed_take_bit_int_eq_self)
  then show "int_of (of_nat n) = int n" "size_of_int (of_nat n) = n"
    using u by (simp_all add: int_of_def size_of_int_def)
qed

lemma negative_size: "int_of n < 0 \<Longrightarrow> SYNC_DATA_MAX < size_of_int n"
  by (simp add: int_of_def size_of_int_def SYNC_DATA_MAX_def)

text \<open>A connection on which no write fails.\<close>

fun steady :: "wres list \<Rightarrow> bool" where
  "steady [] = True"
| "steady (WOk n # ws) = (0 < n \<and> steady ws)"
| "steady (WErr e # ws) = ((e = EINTR \<or> e = EAGAIN) \<and> steady ws)"

text \<open>The writes that can still be made; each of them takes at least one byte.\<close>

fun room :: "wres list \<Rightarrow> nat" where
  "room [] = 0"
| "room (WOk n # ws) = Suc (room ws)"
| "room (WErr e # ws) = room ws"

lemma writex_steady:
  assumes "steady ws" and "length bs \<le> room ws"
  shows "\<exists>ws'. writex bs ws = Inr (True, bs, ws') \<and> steady ws' \<and> room ws \<le> room ws' + length bs"
  using assms
proof (induction bs ws rule: writex.induct)
  case (2 bs n ws)
  show ?case
  proof (cases "bs = []")
    case False
    have l: "length (drop n bs) + n \<le> length bs + n" "0 < n" "length (drop n bs) < length bs"
      using 2 False by (auto simp: length_greater_0_conv [symmetric] simp del: length_greater_0_conv)
    then have "length (drop n bs) \<le> room ws" using 2 by simp
    then obtain ws' where "writex (drop n bs) ws = Inr (True, drop n bs, ws')" "steady ws'"
        "room ws \<le> room ws' + length (drop n bs)" using 2 False by auto
    moreover have "Suc (length (drop n bs)) \<le> length bs" using l(3) by simp
    ultimately show ?thesis using False l(2) by (intro exI [of _ ws']) (simp del: length_drop)
  qed (use 2 in auto)
qed auto

text \<open>The bytes \<open>bs\<close> were written to \<open>fd\<close>, and nothing else has changed.\<close>

definition sent :: "int \<Rightarrow> bytes \<Rightarrow> client \<Rightarrow> client \<Rightarrow> bool" where
  "sent fd bs c c' \<longleftrightarrow> (\<exists>ws. steady ws \<and> room (c_ws c fd) \<le> room ws + length bs \<and>
     c' = c\<lparr>c_ws := (c_ws c)(fd := ws), c_out := (c_out c)(fd := c_out c fd @ bs)\<rparr>)"

lemma sent_trans: "sent fd xs c c' \<Longrightarrow> sent fd ys c' c'' \<Longrightarrow> sent fd (xs @ ys) c c''"
  by (auto simp: sent_def)

lemma sent_refl: "steady (c_ws c fd) \<Longrightarrow> sent fd [] c c"
  by (auto simp: sent_def intro!: exI [of _ "c_ws c fd"])

lemma sentD:
  assumes "sent fd bs c c'"
  shows "steady (c_ws c' fd)" "room (c_ws c fd) \<le> room (c_ws c' fd) + length bs" "c_rs c' = c_rs c"
    "c_out c' fd = c_out c fd @ bs"
  using assms by (auto simp: sent_def)

lemma c_writex_sent:
  assumes "steady (c_ws c fd)" and "length bs \<le> room (c_ws c fd)"
  obtains c' where "c_writex fd bs c = Inr (True, c')" and "sent fd bs c c'"
proof -
  obtain ws where "writex bs (c_ws c fd) = Inr (True, bs, ws)" "steady ws" "room (c_ws c fd) \<le> room ws + length bs"
    using writex_steady [OF assms] by blast
  then show ?thesis using that by (auto simp: c_writex_def sent_def)
qed

text \<open>What the reads of a file give up to its end, \<open>None\<close> where one of them fails.\<close>

fun file_content :: "rres list \<Rightarrow> bytes option" where
  "file_content [] = None"
| "file_content (RErr e # rs) = (if e = EINTR then file_content rs else None)"
| "file_content (RData bs # rs) = (if bs = [] then Some [] else map_option ((@) bs) (file_content rs))"

definition pieces :: "bytes list \<Rightarrow> bool" where
  "pieces ds \<longleftrightarrow> (\<forall>d \<in> set ds. d \<noteq> [] \<and> length d \<le> SYNC_DATA_MAX)"

lemma pieces_Cons: "pieces (d # ds) \<longleftrightarrow> d \<noteq> [] \<and> length d \<le> SYNC_DATA_MAX \<and> pieces ds"
  by (auto simp: pieces_def)

lemma length_data_msgs: "pieces ds \<Longrightarrow> length (concat (map data_msg ds)) \<le> 9 * length (concat ds)"
proof (induction ds)
  case (Cons d ds)
  then have "8 \<le> 8 * length d" by (cases d) (auto simp: pieces_Cons)
  then show ?case using Cons by (simp add: pieces_Cons)
qed simp

lemma data_loop_sends:
  assumes "file_content rs = Some content" and "steady (c_ws c fd)" and "9 * length content \<le> room (c_ws c fd)"
  shows "\<exists>c' ds. data_loop rs fd c = Inr (0, c') \<and> pieces ds \<and> concat ds = content \<and>
    sent fd (concat (map data_msg ds)) c c'"
  using assms
proof (induction rs fd c arbitrary: content rule: data_loop.induct)
  case (2 e rs fd c)
  then show ?case by (auto split: if_splits)
next
  case (3 bs rs fd c)
  show ?case
  proof (cases "bs = []")
    case True
    have "sent fd [] c c" by (rule sent_refl [OF "3.prems"(2)])
    then show ?thesis using "3.prems"(1) True
      by (intro exI [of _ c] exI [of _ "[]"]) (auto simp: pieces_def data_loop.simps(3))
  next
    case False
    define d where "d = take SYNC_DATA_MAX bs"
    define rs' where "rs' = (if length bs \<le> SYNC_DATA_MAX then rs else RData (drop SYNC_DATA_MAX bs) # rs)"
    obtain z where z: "file_content rs = Some z" "content = bs @ z" using "3.prems"(1) False by auto
    define rest where "rest = drop SYNC_DATA_MAX bs @ z"
    have rest: "file_content rs' = Some rest" "content = d @ rest" using z by (auto simp: rs'_def d_def rest_def)
    have d: "d \<noteq> []" "length d \<le> SYNC_DATA_MAX" using False by (auto simp: d_def SYNC_DATA_MAX_def)
    then have l: "8 + length d \<le> 9 * length d" by (cases d) auto
    then obtain c1 where c1: "c_writex fd (data_msg d) c = Inr (True, c1)" "sent fd (data_msg d) c c1"
      using c_writex_sent [OF "3.prems"(2), of "data_msg d"] "3.prems"(3) rest(2) by auto
    note r1 = sentD(1,2) [OF c1(2)]
    have room: "9 * length rest \<le> room (c_ws c1 fd)" using r1(2) l "3.prems"(3) rest(2) by simp
    have "\<exists>c' ds. data_loop rs' fd c1 = Inr (0, c') \<and> pieces ds \<and> concat ds = rest \<and>
        sent fd (concat (map data_msg ds)) c1 c'"
      using "3.IH"(1) [OF False, of True rest c1] "3.IH"(2) [OF False, of True rest c1] rest(1) r1(1) room
      by (cases "length bs \<le> SYNC_DATA_MAX") (simp_all add: rs'_def)
    then obtain c' ds where ds: "data_loop rs' fd c1 = Inr (0, c')" "pieces ds" "concat ds = rest"
        "sent fd (concat (map data_msg ds)) c1 c'" by blast
    have "data_loop (RData bs # rs) fd c = Inr (0, c')"
      using False c1(1) ds(1) by (simp add: data_loop.simps(3) [of bs rs fd c] d_def rs'_def split: if_splits)
    moreover have "sent fd (concat (map data_msg (d # ds))) c c'" using sent_trans [OF c1(2) ds(4)] by simp
    ultimately show ?thesis using ds(2,3) d rest(2)
      by (intro exI [of _ c'] exI [of _ "d # ds"]) (auto simp: pieces_Cons)
  qed
qed simp

lemma send_status_okay:
  assumes "healthy (c_rs c fd)" and "stream (c_rs c fd) = syncmsg ID_OKAY n @ rest"
  obtains c' where "send_status fd c = Inr (0, c')" and "c_out c' = c_out c" and "stream (c_rs c' fd) = rest"
proof -
  obtain rs where "c_readx 8 fd c = Inr (Some (syncmsg ID_OKAY n), c\<lparr>c_rs := (c_rs c)(fd := rs)\<rparr>)" "stream rs = rest"
    using c_readx_exact [OF assms, of 8] by auto
  then show ?thesis using that by (auto simp: send_status_def)
qed

text \<open>The bytes of a file on the wire, as a push sends them and a pull receives them.\<close>

definition framed :: "bytes list \<Rightarrow> u32 \<Rightarrow> bytes" where
  "framed ds t = concat (map data_msg ds) @ syncmsg ID_DONE t"

lemma length_mode_suffix: "length (mode_suffix mode) < 64"
  by (simp add: mode_suffix_def snprintf_def)

text \<open>C20: A push sends the whole file. When the file can be opened and read to its end, no write to the
  connection fails and the device answers \<open>OKAY\<close>, \<open>sync_send\<close> returns 0, and what it has written is the
  request with the path and the mode, the contents of the file cut into data messages of at most
  \<open>SYNC_DATA_MAX\<close> bytes, none of them empty, and \<open>DONE\<close> with the time of the file; the connection is
  left after the answer.\<close>

theorem push_sends_file:
  assumes "f_open fs lpath = Some rs" and "file_content rs = Some content" and "show_progress \<longrightarrow> f_fstat fs lpath"
    and "S_ISREG mode" and "length rpath \<le> 1024"
    and "steady (c_ws c fd)" and "9 * length content + length rpath + 80 \<le> room (c_ws c fd)"
    and "healthy (c_rs c fd)" and "stream (c_rs c fd) = syncmsg ID_OKAY n @ rest"
  shows "\<exists>c' ds. sync_send show_progress fd lpath rpath mtime mode fs c = Inr (0, c') \<and>
    concat ds = content \<and> pieces ds \<and> stream (c_rs c' fd) = rest \<and>
    c_out c' fd = c_out c fd @ syncmsg ID_SEND (of_nat (length rpath + length (mode_suffix mode))) @ rpath @
      mode_suffix mode @ framed ds mtime"
proof -
  let ?t = "mode_suffix mode" let ?h = "syncmsg ID_SEND (of_nat (length rpath + length ?t))"
  note lt = length_mode_suffix [of mode]
  obtain c1 where c1: "c_writex fd ?h c = Inr (True, c1)" "sent fd ?h c c1"
    using c_writex_sent [OF assms(6), of ?h] assms(7) by auto
  obtain c2 where c2: "c_writex fd rpath c1 = Inr (True, c2)" "sent fd rpath c1 c2"
    using c_writex_sent [OF sentD(1) [OF c1(2)], of rpath] sentD(2) [OF c1(2)] assms(7) by auto
  obtain c3 where c3: "c_writex fd ?t c2 = Inr (True, c3)" "sent fd ?t c2 c3"
    using c_writex_sent [OF sentD(1) [OF c2(2)], of ?t] sentD(2) [OF c1(2)] sentD(2) [OF c2(2)] assms(7) lt by auto
  note s3 = sent_trans [OF sent_trans [OF c1(2) c2(2)] c3(2)]
  have "9 * length content \<le> room (c_ws c3 fd)" using sentD(2) [OF s3] lt assms(7) by simp
  then obtain c4 ds where c4: "data_loop rs fd c3 = Inr (0, c4)" "pieces ds" "concat ds = content"
      "sent fd (concat (map data_msg ds)) c3 c4"
    using data_loop_sends [OF assms(2) sentD(1) [OF c3(2)]] by blast
  note s4 = sent_trans [OF s3 c4(4)]
  have "length (concat (map data_msg ds)) \<le> 9 * length content"
    using c4(2) unfolding c4(3) [symmetric] by (rule length_data_msgs)
  then have "8 \<le> room (c_ws c4 fd)" using sentD(2) [OF s4] lt assms(7) by simp
  then obtain c5 where c5: "c_writex fd (syncmsg ID_DONE mtime) c4 = Inr (True, c5)" "sent fd (syncmsg ID_DONE mtime) c4 c5"
    using c_writex_sent [OF sentD(1) [OF c4(4)], of "syncmsg ID_DONE mtime"] by auto
  note s5 = sentD [OF sent_trans [OF s4 c5(2)]]
  obtain c6 where c6: "send_status fd c5 = Inr (0, c6)" "c_out c6 = c_out c5" "stream (c_rs c6 fd) = rest"
    using send_status_okay [of c5 fd n rest] assms(8,9) s5(3) by auto
  have "sync_send show_progress fd lpath rpath mtime mode fs c = Inr (0, c6)"
    using assms(1,3,4,5) c1(1) c2(1) c3(1) c4(1) c5(1) c6(1) by (auto simp: sync_send_def Let_def write_data_file_def)
  then show ?thesis using c4(2,3) c6(2,3) s5(4) by (auto simp: framed_def)
qed

definition wrote :: "string \<Rightarrow> bytes \<Rightarrow> lfs \<Rightarrow> lfs" where
  "wrote lpath bs fs = fs\<lparr>f_files := (f_files fs)(lpath \<mapsto> bs)\<rparr>"

lemma framed_Cons: "framed (d # ds) t = syncmsg ID_DATA (of_nat (length d)) @ d @ framed ds t"
  by (simp add: framed_def data_msg_def)

lemma framed_Nil: "framed [] t = syncmsg ID_DONE t"
  by (simp add: framed_def)

lemma framed_head: "8 \<le> length (framed ds t)"
  by (simp add: framed_def)

lemma recv_loop_writes:
  assumes "healthy (c_rs c fd)" and "length m = 8" and "m @ stream (c_rs c fd) = framed ds t @ rest"
    and "\<forall>d \<in> set ds. length d \<le> SYNC_DATA_MAX" and "length ds < fuel"
    and "steady ws" and "length (concat ds) \<le> room ws"
  shows "\<exists>rs. recv_loop fuel fd lpath m ws (wrote lpath old fs) c =
      Inr (0, wrote lpath (old @ concat ds) fs, c\<lparr>c_rs := (c_rs c)(fd := rs)\<rparr>) \<and> healthy rs \<and> stream rs = rest"
  using assms
proof (induction ds arbitrary: fuel m ws old c)
  case Nil
  have m: "m = syncmsg ID_DONE t" "stream (c_rs c fd) = rest"
    using Nil.prems(2,3) by (auto simp: framed_Nil append_eq_append_conv)
  obtain n where "fuel = Suc n" using Nil.prems(5) by (cases fuel) auto
  then show ?case using Nil.prems(1) m by (intro exI [of _ "c_rs c fd"]) simp
next
  case (Cons d ds)
  have m: "m = syncmsg ID_DATA (of_nat (length d))" "stream (c_rs c fd) = d @ framed ds t @ rest"
    using Cons.prems(2,3) by (auto simp: framed_Cons append_eq_append_conv)
  obtain n where n: "fuel = Suc n" "length ds < n" using Cons.prems(5) by (cases fuel) auto
  have d: "length d \<le> SYNC_DATA_MAX" using Cons.prems(4) by simp
  obtain rs1 where r1: "c_readx (length d) fd c = Inr (Some d, c\<lparr>c_rs := (c_rs c)(fd := rs1)\<rparr>)"
      "healthy rs1" "stream rs1 = framed ds t @ rest" using c_readx_exact [OF Cons.prems(1) m(2) refl] by blast
  obtain ws' where w: "writex d ws = Inr (True, d, ws')" "steady ws'" "room ws \<le> room ws' + length d"
    using writex_steady [OF Cons.prems(6), of d] Cons.prems(7) by auto
  let ?h = "take 8 (framed ds t)" let ?c1 = "c\<lparr>c_rs := (c_rs c)(fd := rs1)\<rparr>"
  have h: "length ?h = 8" "stream (c_rs ?c1 fd) = ?h @ drop 8 (framed ds t) @ rest"
    using framed_head [of ds t] r1(3) by (simp_all add: append_assoc [symmetric] del: append_assoc)
  obtain rs2 where r2: "c_readx 8 fd ?c1 = Inr (Some ?h, ?c1\<lparr>c_rs := (c_rs ?c1)(fd := rs2)\<rparr>)"
      "healthy rs2" "stream rs2 = drop 8 (framed ds t) @ rest"
    using c_readx_exact [of ?c1 fd ?h "drop 8 (framed ds t) @ rest" 8] h r1(2) by auto
  let ?c2 = "c\<lparr>c_rs := (c_rs c)(fd := rs2)\<rparr>"
  have p: "healthy (c_rs ?c2 fd)" "?h @ stream (c_rs ?c2 fd) = framed ds t @ rest"
      "\<forall>d \<in> set ds. length d \<le> SYNC_DATA_MAX" "length (concat ds) \<le> room ws'"
    using r2(2,3) w(3) Cons.prems(4,7) by (simp_all add: append_assoc [symmetric] del: append_assoc)
  obtain rs where IH: "recv_loop n fd lpath ?h ws' (wrote lpath (old @ d) fs) ?c2 =
      Inr (0, wrote lpath ((old @ d) @ concat ds) fs, ?c2\<lparr>c_rs := (c_rs ?c2)(fd := rs)\<rparr>)" "healthy rs" "stream rs = rest"
    using Cons.IH [OF p(1) h(1) p(2,3) n(2) w(2) p(4), of "old @ d"] by blast
  have "recv_loop fuel fd lpath m ws (wrote lpath old fs) c =
      recv_loop n fd lpath ?h ws' (wrote lpath (old @ d) fs) ?c2"
    using m(1) n(1) d r1(1) w(1) r2(1) by (simp add: small_sizes [OF d] c_read_into_def wrote_def)
  then have "recv_loop fuel fd lpath m ws (wrote lpath old fs) c =
      Inr (0, wrote lpath (old @ concat (d # ds)) fs, c\<lparr>c_rs := (c_rs c)(fd := rs)\<rparr>)" using IH(1) by simp
  then show ?case using IH(2,3) by blast
qed

lemma mkdir_loop_frame: "f_creat (snd (mkdir_loop ds fs)) = f_creat fs \<and> f_files (snd (mkdir_loop ds fs)) = f_files fs"
  by (induction ds arbitrary: fs) auto

lemma mkdirs_frame [simp]: "f_creat (snd (mkdirs name fs)) = f_creat fs" "f_files (snd (mkdirs name fs)) = f_files fs"
  using mkdir_loop_frame [of "dir_prefixes name" fs] by (auto simp: mkdirs_def)

lemma adb_unlink_frame [simp]: "f_creat (adb_unlink path fs) = f_creat fs"
  by (simp add: adb_unlink_def)

lemma sync_request_sent:
  assumes "steady (c_ws c fd)" and "8 + length path \<le> room (c_ws c fd)"
  obtains c' where "sync_request i path fd c = Inr (True, c')"
    and "sent fd (syncmsg i (of_nat (length path)) @ path) c c'"
proof -
  let ?h = "syncmsg i (of_nat (length path))"
  obtain c1 where c1: "c_writex fd ?h c = Inr (True, c1)" "sent fd ?h c c1"
    using c_writex_sent [OF assms(1), of ?h] assms(2) by auto
  obtain c2 where c2: "c_writex fd path c1 = Inr (True, c2)" "sent fd path c1 c2"
    using c_writex_sent [OF sentD(1) [OF c1(2)], of path] sentD(2) [OF c1(2)] assms(2) by auto
  show ?thesis using that [of c2] c1(1) c2(1) sent_trans [OF c1(2) c2(2)] by (simp add: sync_request_def)
qed

text \<open>C21: A pull writes the whole file. When the device answers the request with a file cut into data
  messages of at most \<open>SYNC_DATA_MAX\<close> bytes and \<open>DONE\<close>, however the reads and the writes cut the bytes
  up, \<open>sync_recv\<close> returns 0, the local file holds exactly those bytes whatever it held before, no other
  local file has changed, and the connection is left after the answer. The fuel is one step for each
  message.\<close>

theorem pull_writes_file:
  assumes "length rpath \<le> 1024" and "steady (c_ws c fd)" and "8 + length rpath \<le> room (c_ws c fd)"
    and "healthy (c_rs c fd)" and "stream (c_rs c fd) = framed ds t @ rest"
    and "\<forall>d \<in> set ds. length d \<le> SYNC_DATA_MAX" and "length ds < fuel"
    and "f_creat fs lpath = Some ws" and "steady ws" and "length (concat ds) \<le> room ws"
  shows "\<exists>fs' c'. sync_recv fuel False fd rpath lpath fs c = Inr (0, fs', c') \<and>
    f_files fs' = (f_files fs)(lpath \<mapsto> concat ds) \<and> stream (c_rs c' fd) = rest"
proof -
  obtain c1 where c1: "sync_request ID_RECV rpath fd c = Inr (True, c1)"
      "sent fd (syncmsg ID_RECV (of_nat (length rpath)) @ rpath) c c1"
    using sync_request_sent [OF assms(2,3)] by blast
  let ?h = "take 8 (framed ds t)"
  have h: "length ?h = 8" "stream (c_rs c1 fd) = ?h @ drop 8 (framed ds t) @ rest" "healthy (c_rs c1 fd)"
    using framed_head [of ds t] assms(4,5) sentD(3) [OF c1(2)] by (simp_all add: append_assoc [symmetric] del: append_assoc)
  obtain rs where r: "c_readx 8 fd c1 = Inr (Some ?h, c1\<lparr>c_rs := (c_rs c1)(fd := rs)\<rparr>)"
      "healthy rs" "stream rs = drop 8 (framed ds t) @ rest" using c_readx_exact [OF h(3,2), of 8] h(1) by auto
  let ?c2 = "c1\<lparr>c_rs := (c_rs c1)(fd := rs)\<rparr>" and ?fs = "snd (mkdirs lpath (adb_unlink lpath fs))"
  have p: "healthy (c_rs ?c2 fd)" "?h @ stream (c_rs ?c2 fd) = framed ds t @ rest"
    using r by (simp_all add: append_assoc [symmetric] del: append_assoc)
  obtain rs' where l: "recv_loop fuel fd lpath ?h ws (wrote lpath [] ?fs) ?c2 =
      Inr (0, wrote lpath ([] @ concat ds) ?fs, ?c2\<lparr>c_rs := (c_rs ?c2)(fd := rs')\<rparr>)" "stream rs' = rest"
    using recv_loop_writes [OF p(1) h(1) p(2) assms(6,7,9,10)] by blast
  have "get32 ?h = ID_DATA \<or> get32 ?h = ID_DONE" by (cases ds) (simp_all add: framed_Cons framed_Nil)
  then have "sync_recv fuel False fd rpath lpath fs c = recv_loop fuel fd lpath ?h ws (wrote lpath [] ?fs) ?c2"
    using assms(1,8) c1(1) r(1) by (simp add: sync_recv_def wrote_def)
  then show ?thesis using l by (simp add: wrote_def adb_unlink_def)
qed

lemma sync_recv_header:
  assumes "length rpath \<le> 1024" and "steady (c_ws c fd)" and "8 + length rpath \<le> room (c_ws c fd)"
    and "healthy (c_rs c fd)" and "stream (c_rs c fd) = syncmsg i sz @ rest"
  obtains c1 where "sync_request ID_RECV rpath fd c = Inr (True, c1)" and "c_rs c1 = c_rs c"
    and "\<exists>rs. c_readx 8 fd c1 = Inr (Some (syncmsg i sz), c1\<lparr>c_rs := (c_rs c1)(fd := rs)\<rparr>) \<and> healthy rs \<and> stream rs = rest"
proof -
  obtain c1 where c1: "sync_request ID_RECV rpath fd c = Inr (True, c1)"
      "sent fd (syncmsg ID_RECV (of_nat (length rpath)) @ rpath) c c1"
    using sync_request_sent [OF assms(2,3)] by blast
  note r = sentD(3) [OF c1(2)]
  show ?thesis
    by (rule that [OF c1(1) r], rule c_readx_exact) (use assms(4,5) r in simp_all)
qed


text \<open>A pull that the device refuses deletes the local file. When the answer to the request is
  \<open>FAIL\<close> with a reason of at most 256 bytes, \<open>sync_recv\<close> still returns 0, and a local file of that name
  that was there before is gone.\<close>

theorem pull_refused_deletes:
  assumes "length rpath \<le> 1024" and "steady (c_ws c fd)" and "8 + length rpath \<le> room (c_ws c fd)"
    and "healthy (c_rs c fd)" and "stream (c_rs c fd) = syncmsg ID_FAIL (of_nat (length reason)) @ reason @ rest"
    and "length reason \<le> 256"
  shows "\<exists>c'. sync_recv fuel False fd rpath lpath fs c = Inr (0, adb_unlink lpath fs, c') \<and> stream (c_rs c' fd) = rest"
proof -
  let ?n = "of_nat (length reason) :: u32"
  obtain c1 rs where c1: "sync_request ID_RECV rpath fd c = Inr (True, c1)"
      "c_readx 8 fd c1 = Inr (Some (syncmsg ID_FAIL ?n), c1\<lparr>c_rs := (c_rs c1)(fd := rs)\<rparr>)"
      "healthy rs" "stream rs = reason @ rest"
    using sync_recv_header [OF assms(1-5)] by metis
  let ?c2 = "c1\<lparr>c_rs := (c_rs c1)(fd := rs)\<rparr>"
  obtain rs' where r: "c_readx (length reason) fd ?c2 = Inr (Some reason, ?c2\<lparr>c_rs := (c_rs ?c2)(fd := rs')\<rparr>)" "stream rs' = rest"
    using c_readx_exact [of ?c2 fd reason rest "length reason"] c1(3,4) by auto
  have l: "length reason \<le> SYNC_DATA_MAX" using assms(6) by (simp add: SYNC_DATA_MAX_def)
  have "remote_error fd lpath ID_FAIL ?n fs ?c2 = Inr (0, adb_unlink lpath fs, ?c2\<lparr>c_rs := (c_rs ?c2)(fd := rs')\<rparr>)"
    using r(1) l assms(6) by (simp add: remote_error_def c_read_into_def small_sizes [OF l])
  then show ?thesis using assms(1) c1(1,2) r(2) by (simp add: sync_recv_def)
qed

section \<open>Samples\<close>

text \<open>A client that is connected to the sync service on descriptor 3, and a local directory in which
  \<open>a\<close> is a file of five bytes that can be read and written.\<close>

definition sample_peer :: "rres list \<Rightarrow> client" where
  "sample_peer rs = (sample_asker rs)\<lparr>c_ws := (\<lambda>_. replicate 200 (WOk 4096))\<rparr>"

definition sample_lfs :: lfs where
  "sample_lfs = \<lparr>f_open = [''a'' \<mapsto> [RData ''hel'', RErr EINTR, RData ''lo'', RData []]], f_stat = (\<lambda>_. None),
     f_lstat = (\<lambda>_. None), f_fstat = (\<lambda>_. True), f_dir = (\<lambda>_. None), f_link = (\<lambda>_. None),
     f_creat = (\<lambda>_. Some (replicate 40 (WOk 2))), f_mkdir = (\<lambda>_. True), f_utime = (\<lambda>_. True), f_chmod = (\<lambda>_. True),
     f_umask = 18, f_files = [''a'' \<mapsto> ''hello''], f_dirs = [], f_attrs = (\<lambda>_. None)\<rparr>"

lemma steady_replicate [simp]: "0 < k \<Longrightarrow> steady (replicate n (WOk k))"
  by (induction n) auto

lemma room_replicate [simp]: "room (replicate n (WOk k)) = n"
  by (induction n) auto

lemma sample_peer_simps [simp]:
  "c_ws (sample_peer rs) fd = replicate 200 (WOk 4096)" "c_rs (sample_peer rs) fd = rs" "c_out (sample_peer rs) fd = []"
  by (simp_all add: sample_peer_def sample_asker_def)

theorem push_sends_file_witness:
  "\<exists>c' ds. sync_send True 3 ''a'' ''/sdcard/a'' 7 33188 sample_lfs (sample_peer [RData (syncmsg ID_OKAY 0)]) = Inr (0, c') \<and>
     concat ds = ''hello'' \<and> stream (c_rs c' 3) = [] \<and>
     c_out c' 3 = syncmsg ID_SEND (of_nat (length ''/sdcard/a'' + length (mode_suffix 33188))) @ ''/sdcard/a'' @
       mode_suffix 33188 @ framed ds 7"
proof -
  let ?c = "sample_peer [RData (syncmsg ID_OKAY 0)]"
  have o: "f_open sample_lfs ''a'' = Some [RData ''hel'', RErr EINTR, RData ''lo'', RData []]"
    and f: "True \<longrightarrow> f_fstat sample_lfs ''a''" by (simp_all add: sample_lfs_def)
  have "\<exists>c' ds. sync_send True 3 ''a'' ''/sdcard/a'' 7 33188 sample_lfs ?c = Inr (0, c') \<and>
      concat ds = ''hello'' \<and> pieces ds \<and> stream (c_rs c' 3) = [] \<and>
      c_out c' 3 = c_out ?c 3 @ syncmsg ID_SEND (of_nat (length ''/sdcard/a'' + length (mode_suffix 33188))) @
        ''/sdcard/a'' @ mode_suffix 33188 @ framed ds 7"
    by (rule push_sends_file [OF o _ f, of "''hello''" _ _ _ _ 0]) (simp_all add: S_ISREG_def)
  then show ?thesis unfolding sample_peer_simps append_Nil by blast
qed

theorem pull_writes_file_witness:
  "\<exists>fs' c'. sync_recv 3 False 3 ''/sdcard/a'' ''b/a'' sample_lfs
       (sample_peer [RData (framed [''he'', ''llo''] 7), RErr EINTR, RData ''rest'']) = Inr (0, fs', c') \<and>
     f_files fs' = [''a'' \<mapsto> ''hello'', ''b/a'' \<mapsto> ''hello''] \<and> stream (c_rs c' 3) = ''rest''"
proof -
  let ?c = "sample_peer [RData (framed [''he'', ''llo''] 7), RErr EINTR, RData ''rest'']"
  have w: "f_creat sample_lfs ''b/a'' = Some (replicate 40 (WOk 2))" by (simp add: sample_lfs_def)
  have "framed [''he'', ''llo''] 7 \<noteq> []" by (simp add: framed_def data_msg_def syncmsg_def)
  then have "\<exists>fs' c'. sync_recv 3 False 3 ''/sdcard/a'' ''b/a'' sample_lfs ?c = Inr (0, fs', c') \<and>
      f_files fs' = (f_files sample_lfs)(''b/a'' \<mapsto> concat [''he'', ''llo'']) \<and> stream (c_rs c' 3) = ''rest''"
    by (intro pull_writes_file [OF _ _ _ _ _ _ _ w]) (simp_all add: SYNC_DATA_MAX_def)
  then show ?thesis by (simp add: sample_lfs_def)
qed


theorem pull_refused_deletes_witness:
  "\<exists>fs' c'. sync_recv 1 False 3 ''/sdcard/a'' ''a'' sample_lfs
       (sample_peer [RData (syncmsg ID_FAIL 2), RData ''no'']) = Inr (0, fs', c') \<and> f_files fs' ''a'' = None"
proof -
  let ?c = "sample_peer [RData (syncmsg ID_FAIL 2), RData ''no'']"
  have "\<exists>c'. sync_recv 1 False 3 ''/sdcard/a'' ''a'' sample_lfs ?c = Inr (0, adb_unlink ''a'' sample_lfs, c') \<and>
      stream (c_rs c' 3) = []"
    by (rule pull_refused_deletes [where reason = "''no''"]) simp_all
  then show ?thesis by (auto simp: adb_unlink_def)
qed

end
