(* ===== verification/Adb_Shell.thy ===== *)
theory Adb_Shell
  imports Adb_Sync
begin

text \<open>
  The commands behind the command line (commandline.c, console.c, load\_file.c): escaping of
  arguments, the output of a service, copying between descriptors, side loading, shell commands,
  the commands of the PAX terminals, installation of packages, backup and the search for the
  directory of a product. A command runs on the state of the client process.
\<close>

section \<open>State\<close>

text \<open>Besides the connections and the local files a command sees the environment, the working
  directory (\<open>None\<close> where \<open>getcwd\<close> fails), the path of the executable and which paths exist.
  \<open>k_product\<close> and \<open>k_listen_all\<close> are the variables of that name; \<open>k_fork\<close> is what the next \<open>fork\<close>
  gives the parent; \<open>k_threads\<close> holds the arguments of the threads that were started; \<open>k_keygen\<close> is
  what the generation of a key returns.
  Standard input and output are the descriptors 0 and 1.\<close>

record shell =
  k_c :: client
  k_fs :: lfs
  k_env :: "string \<Rightarrow> string option"
  k_cwd :: "string option"
  k_exe :: string
  k_exists :: "string \<Rightarrow> bool"
  k_product :: "string option"
  k_listen_all :: bool
  k_fork :: int
  k_threads :: "(int \<times> int) list"
  k_keygen :: "string \<Rightarrow> int"

type_synonym 'a cmd = "shell \<Rightarrow> err + ('a \<times> shell)"

definition cbind :: "'a cmd \<Rightarrow> ('a \<Rightarrow> 'b cmd) \<Rightarrow> 'b cmd" where
  "cbind m f k = ebind (m k) (\<lambda>(x, k). f x k)"

definition cret :: "'a \<Rightarrow> 'a cmd" where
  "cret x k = Inr (x, k)"

definition cerr :: "err \<Rightarrow> 'a cmd" where
  "cerr e k = Inl e"

text \<open>What the client does, and what it does with the local files.\<close>

definition on_c :: "(client \<Rightarrow> err + ('a \<times> client)) \<Rightarrow> 'a cmd" where
  "on_c f k = ebind (f (k_c k)) (\<lambda>(x, c). Inr (x, k\<lparr>k_c := c\<rparr>))"

definition on_fs :: "(lfs \<Rightarrow> client \<Rightarrow> err + ('a \<times> client)) \<Rightarrow> 'a cmd" where
  "on_fs f k = on_c (f (k_fs k)) k"

definition on_both :: "(lfs \<Rightarrow> client \<Rightarrow> err + ('a \<times> lfs \<times> client)) \<Rightarrow> 'a cmd" where
  "on_both f k = ebind (f (k_fs k) (k_c k)) (\<lambda>(x, fs, c). Inr (x, k\<lparr>k_fs := fs, k_c := c\<rparr>))"

definition k_close :: "int \<Rightarrow> unit cmd" where
  "k_close fd = on_c (\<lambda>c. Inr ((), c_close fd c))"

definition k_connect :: "string \<Rightarrow> int cmd" where
  "k_connect service = on_c (adb_connect service)"

definition printf :: "string \<Rightarrow> unit cmd" where
  "printf s = on_c (\<lambda>c. Inr ((), c\<lparr>c_out := (c_out c)(1 := c_out c 1 @ s)\<rparr>))"

text \<open>\<open>usage\<close> returns 1; the text of the help goes to standard error.\<close>

definition usage :: "int cmd" where
  "usage = cret 1"

section \<open>Arguments\<close>

definition should_escape :: "char \<Rightarrow> bool" where
  "should_escape c \<longleftrightarrow> c = CHR '' '' \<or> c = CHR 0x27 \<or> c = CHR 0x22 \<or> c = CHR 0x5C \<or> c = CHR ''('' \<or> c = CHR '')''"

definition escape_arg :: "string \<Rightarrow> string" where
  "escape_arg s =
     (if s = [] then [CHR 0x22, CHR 0x22]
      else concat (map (\<lambda>c. if should_escape c then [CHR 0x5C, c] else [c]) s))"

text \<open>\<open>strncat (buf, s, sizeof (buf) - 1)\<close>: the number limits what is taken from \<open>s\<close> and not what fits
  into the buffer of \<open>cap\<close> bytes.\<close>

definition strncat :: "nat \<Rightarrow> string \<Rightarrow> string \<Rightarrow> err + string" where
  "strncat cap s buf =
     (let r = buf @ take (cap - 1) s in if length r < cap then Inr r else Inl OutOfBounds)"

text \<open>The arguments are added to a service, each after a space.\<close>

fun add_args :: "nat \<Rightarrow> string list \<Rightarrow> string \<Rightarrow> err + string" where
  "add_args cap [] buf = Inr buf"
| "add_args cap (a # as) buf =
     ebind (strncat cap '' '' buf) (\<lambda>buf. ebind (strncat cap (escape_arg a) buf) (add_args cap as))"

definition k_args :: "nat \<Rightarrow> string list \<Rightarrow> string \<Rightarrow> string cmd" where
  "k_args cap as buf k = ebind (add_args cap as buf) (\<lambda>s. Inr (s, k))"

section \<open>Output of a service\<close>

text \<open>What \<open>read_and_dump\<close> copies. The reads are of at most 4096 bytes, which makes no difference to
  what is copied.\<close>

fun dump_loop :: "rres list \<Rightarrow> err + (bytes \<times> rres list)" where
  "dump_loop [] = Inl Blocked"
| "dump_loop (RData bs # rs) =
     (if bs = [] then Inr ([], rs) else ebind (dump_loop rs) (\<lambda>(out, rs). Inr (bs @ out, rs)))"
| "dump_loop (RErr e # rs) = (if e = EINTR then dump_loop rs else Inr ([], rs))"

definition read_and_dump :: "int \<Rightarrow> unit cmd" where
  "read_and_dump fd =
     (if fd < 0 then cret ()
      else cbind (on_c (\<lambda>c. ebind (dump_loop (c_rs c fd)) (\<lambda>(out, rs). Inr (out, c\<lparr>c_rs := (c_rs c)(fd := rs)\<rparr>)))) printf)"

fun status_loop :: "nat \<Rightarrow> rres list \<Rightarrow> err + (bytes \<times> rres list)" where
  "status_loop n [] = (if n = 0 then Inr ([], []) else Inl Blocked)"
| "status_loop n (RData bs # rs) =
     (if n = 0 then Inr ([], RData bs # rs)
      else if bs = [] then Inr ([], rs)
      else if length bs \<le> n then ebind (status_loop (n - length bs) rs) (\<lambda>(out, rs). Inr (bs @ out, rs))
      else Inr (take n bs, RData (drop n bs) # rs))"
| "status_loop n (RErr e # rs) =
     (if n = 0 then Inr ([], RErr e # rs) else if e = EINTR then status_loop n rs else Inr ([], rs))"

text \<open>The line as the string it is used as.\<close>

definition read_status_line :: "int \<Rightarrow> nat \<Rightarrow> string cmd" where
  "read_status_line fd count =
     on_c (\<lambda>c. ebind (status_loop (count - 1) (c_rs c fd)) (\<lambda>(out, rs).
       Inr (takeWhile (\<lambda>c. c \<noteq> NUL) out, c\<lparr>c_rs := (c_rs c)(fd := rs)\<rparr>)))"

section \<open>Copying between descriptors\<close>

text \<open>One call of \<open>adb_write\<close>: its result and what it has written.\<close>

fun write_once :: "bytes \<Rightarrow> wres list \<Rightarrow> err + (int \<times> bytes \<times> wres list)" where
  "write_once bs [] = Inl Blocked"
| "write_once bs (WOk n # ws) = Inr (int (length (take n bs)), take n bs, ws)"
| "write_once bs (WErr e # ws) = Inr (-1, [], ws)"

definition BUFSIZE :: nat where
  "BUFSIZE = 32 * 1024"

text \<open>The loop of \<open>copy_to_file\<close>; the result of the write is not looked at.\<close>

function copy_loop :: "bool \<Rightarrow> rres list \<Rightarrow> wres list \<Rightarrow> err + (bytes \<times> rres list \<times> wres list)" where
  "copy_loop to_stdout [] ws = Inl Blocked"
| "copy_loop to_stdout (RErr e # rs) ws = (if e = EINTR then copy_loop to_stdout rs ws else Inr ([], rs, ws))"
| "copy_loop to_stdout (RData bs # rs) ws =
     (if bs = [] then Inr ([], rs, ws)
      else
        let buf = take BUFSIZE bs; rest = (if length bs \<le> BUFSIZE then rs else RData (drop BUFSIZE bs) # rs) in
        ebind (if to_stdout then Inr (0, buf, ws) else write_once buf ws) (\<lambda>(_, out, ws).
        ebind (copy_loop to_stdout rest ws) (\<lambda>(more_out, rs, ws). Inr (out @ more_out, rs, ws))))"
  by pat_completeness auto
termination
  by (relation "measure (\<lambda>(_, rs, _). size_list (\<lambda>r. case r of RData bs \<Rightarrow> length bs | RErr _ \<Rightarrow> 0) rs)")
    (auto simp: BUFSIZE_def)

declare copy_loop.simps(3) [simp del]

text \<open>Both descriptors are connections, or standard input or output.\<close>

definition copy_to_file :: "int \<Rightarrow> int \<Rightarrow> unit cmd" where
  "copy_to_file in_fd out_fd =
     on_c (\<lambda>c. ebind (copy_loop (out_fd = 1) (c_rs c in_fd) (c_ws c out_fd)) (\<lambda>(out, rs, ws).
       Inr ((), c\<lparr>c_rs := (c_rs c)(in_fd := rs), c_ws := (c_ws c)(out_fd := ws),
                  c_out := (c_out c)(out_fd := c_out c out_fd @ out)\<rparr>)))"

text \<open>From an open local file to a connection, and from a connection to a new local file.\<close>

definition copy_from_file :: "rres list \<Rightarrow> int \<Rightarrow> unit cmd" where
  "copy_from_file rs fd =
     on_c (\<lambda>c. ebind (copy_loop False rs (c_ws c fd)) (\<lambda>(out, _, ws).
       Inr ((), c\<lparr>c_ws := (c_ws c)(fd := ws), c_out := (c_out c)(fd := c_out c fd @ out)\<rparr>)))"

definition copy_into_file :: "int \<Rightarrow> string \<Rightarrow> wres list \<Rightarrow> unit cmd" where
  "copy_into_file fd path ws =
     on_both (\<lambda>fs c. ebind (copy_loop False (c_rs c fd) ws) (\<lambda>(out, rs, _).
       Inr ((), fs\<lparr>f_files := (f_files fs)(path \<mapsto> out)\<rparr>, c\<lparr>c_rs := (c_rs c)(fd := rs)\<rparr>)))"

section \<open>The interactive shell\<close>

text \<open>The keys of the user: a line that starts with a tilde and a dot ends the client (\<open>None\<close>).\<close>

definition key :: "char \<Rightarrow> nat \<Rightarrow> nat option" where
  "key ch state =
     (if ch = CHR 0x0A \<or> ch = CHR 0x0D then Some 1
      else if ch = CHR ''~'' then Some (if state = 1 then 2 else state)
      else if ch = CHR ''.'' \<and> state = 2 then None
      else Some 0)"

fun keys :: "bytes \<Rightarrow> nat \<Rightarrow> nat option" where
  "keys [] state = Some state"
| "keys (ch # chs) state = (case key ch state of None \<Rightarrow> None | Some state \<Rightarrow> keys chs state)"

text \<open>The loop of the thread on what is read from standard input: what it has written when it ends,
  and whether it has ended the client.\<close>

function stdin_loop :: "nat \<Rightarrow> rres list \<Rightarrow> wres list \<Rightarrow> err + (bytes \<times> bool)" where
  "stdin_loop state [] ws = Inl Blocked"
| "stdin_loop state (RErr e # rs) ws = (if e = EINTR then stdin_loop state rs ws else Inr ([], False))"
| "stdin_loop state (RData bs # rs) ws =
     (if bs = [] then Inr ([], False)
      else
        let buf = take 1024 bs; rest = (if length bs \<le> 1024 then rs else RData (drop 1024 bs) # rs) in
        case keys buf state of
          None \<Rightarrow> Inr ([], True)
        | Some state \<Rightarrow>
            ebind (write_once buf ws) (\<lambda>(r, out, ws).
              if r \<le> 0 then Inr (out, False)
              else ebind (stdin_loop state rest ws) (\<lambda>(more_out, quit). Inr (out @ more_out, quit))))"
  by pat_completeness auto
termination
  by (relation "measure (\<lambda>(_, rs, _). size_list (\<lambda>r. case r of RData bs \<Rightarrow> length bs | RErr _ \<Rightarrow> 0) rs)") auto

declare stdin_loop.simps(3) [simp del]

definition stdin_read_thread :: "int \<Rightarrow> int \<Rightarrow> client \<Rightarrow> err + (bytes \<times> bool)" where
  "stdin_read_thread fd fdi c = stdin_loop 0 (c_rs c fdi) (c_ws c fd)"

definition interactive_shell :: "int cmd" where
  "interactive_shell =
     cbind (k_connect ''shell:'') (\<lambda>fd.
       if fd < 0 then cret 1
       else cbind (\<lambda>k. Inr ((), k\<lparr>k_threads := k_threads k @ [(fd, 0)]\<rparr>)) (\<lambda>_.
            cbind (read_and_dump fd) (\<lambda>_. cret 0)))"

section \<open>Downloads\<close>

definition CHUNK_SIZE :: nat where
  "CHUNK_SIZE = 64 * 1024"

text \<open>The size of a file that is loaded is an \<open>int\<close>, and the file is read with one call.\<close>

definition load_file :: "string \<Rightarrow> lfs \<Rightarrow> bytes option" where
  "load_file fn fs =
     (case (f_open fs fn, f_stat fs fn) of
        (Some rs, Some st) \<Rightarrow>
          if int_of (st_size st) < 0 then None
          else if st_size st = 0 then Some []
          else (case rs of
                  RData bs # _ \<Rightarrow> if unat (st_size st) \<le> length bs then Some (take (unat (st_size st)) bs) else None
                | _ \<Rightarrow> None)
      | _ \<Rightarrow> None)"

text \<open>\<open>adb_download_buffer\<close> from the bytes that are still to be sent.\<close>

function download_loop :: "int \<Rightarrow> bytes \<Rightarrow> client \<Rightarrow> err + (bool \<times> client)" where
  "download_loop fd data c =
     (if data = [] then Inr (True, c)
      else ebind (c_writex fd (take CHUNK_SIZE data) c) (\<lambda>(r, c).
        if \<not> r then ebind (adb_status fd c) (\<lambda>(_, c). Inr (False, c))
        else download_loop fd (drop CHUNK_SIZE data) c))"
  by pat_completeness auto
termination by (relation "measure (\<lambda>(_, data, _). length data)") (auto simp: CHUNK_SIZE_def)

declare download_loop.simps [simp del]

definition adb_download_buffer :: "string \<Rightarrow> bytes \<Rightarrow> client \<Rightarrow> err + (int \<times> client)" where
  "adb_download_buffer service data c =
     (let buf = service @ '':'' @ show_int (int (length data)) in
      if 4096 \<le> length buf then Inl OutOfBounds
      else ebind (adb_connect buf c) (\<lambda>(fd, c).
        if fd < 0 then Inr (-1, c)
        else ebind (download_loop fd data c) (\<lambda>(r, c).
          if \<not> r then Inr (-1, c)
          else ebind (c_readx 4 fd c) (\<lambda>(r, c).
            Inr (if r = Some ''OKAY'' then 0 else -1, c_close fd c)))))"

definition adb_download :: "string \<Rightarrow> string \<Rightarrow> int cmd" where
  "adb_download service fn =
     on_fs (\<lambda>fs c. case load_file fn fs of None \<Rightarrow> Inr (-1, c) | Some data \<Rightarrow> adb_download_buffer service data c)"

text \<open>The product \<open>block * SIDELOAD_HOST_BLOCK_SIZE\<close> is one of \<open>int\<close>, which wraps around and then
  becomes a \<open>size_t\<close>.\<close>

definition SIDELOAD_HOST_BLOCK_SIZE :: nat where
  "SIDELOAD_HOST_BLOCK_SIZE = CHUNK_SIZE"

text \<open>\<open>atoi\<close> as the word of its result.\<close>

definition atoi_word :: "string \<Rightarrow> u32" where
  "atoi_word s = word_of_int (fst (strtol 10 s))"

definition block_offset :: "string \<Rightarrow> nat" where
  "block_offset s = size_of_int (atoi_word s * of_nat SIDELOAD_HOST_BLOCK_SIZE)"

text \<open>The loop of \<open>adb_sideload_host\<close>. Every round reads eight bytes.\<close>

fun serve_loop :: "nat \<Rightarrow> int \<Rightarrow> bytes \<Rightarrow> client \<Rightarrow> err + (int \<times> client)" where
  "serve_loop 0 fd data c = Inl OutOfFuel"
| "serve_loop (Suc n) fd data c =
     ebind (c_readx 8 fd c) (\<lambda>(r, c).
       case r of
         None \<Rightarrow> Inr (-1, c)
       | Some buf \<Rightarrow>
           if buf = ''DONEDONE'' then Inr (0, c)
           else let offset = block_offset (takeWhile (\<lambda>c. c \<noteq> NUL) buf) in
             if length data \<le> offset then Inr (-1, c)
             else ebind (c_writex fd (take SIDELOAD_HOST_BLOCK_SIZE (drop offset data)) c) (\<lambda>(r, c).
               if \<not> r then ebind (adb_status fd c) (\<lambda>(_, c). Inr (-1, c)) else serve_loop n fd data c))"

definition adb_sideload_host :: "nat \<Rightarrow> string \<Rightarrow> int cmd" where
  "adb_sideload_host fuel fn =
     on_fs (\<lambda>fs c.
       case load_file fn fs of
         None \<Rightarrow> Inr (-1, c)
       | Some data \<Rightarrow>
           ebind (adb_connect (''sideload-host:'' @ show_int (int (length data)) @ '':'' @
               show_int (int SIDELOAD_HOST_BLOCK_SIZE)) c) (\<lambda>(fd, c).
             if fd < 0 then adb_download_buffer ''sideload'' data c
             else ebind (serve_loop fuel fd data c) (\<lambda>(status, c). Inr (status, c_close fd c))))"

section \<open>Shell commands\<close>

text \<open>\<open>status_window\<close> asks for the state again and again. The state is printed when it has changed,
  and always while there is none.\<close>

fun status_window_loop :: "nat \<Rightarrow> string \<Rightarrow> string option \<Rightarrow> unit cmd" where
  "status_window_loop 0 command laststate = cerr OutOfFuel"
| "status_window_loop (Suc n) command laststate =
     cbind (on_c (adb_query command)) (\<lambda>state.
       if state \<noteq> None \<and> state = laststate then status_window_loop n command laststate
       else cbind (printf ([CHR 0x1B] @ ''[2J'' @ [CHR 0x1B] @ ''[2HAndroid Debug Bridge'' @ [CHR 0x0A] @ ''State: '' @
                case_option ''offline'' id state @ [CHR 0x0A])) (\<lambda>_.
              status_window_loop n command (if state = None then laststate else state)))"

definition status_window :: "nat \<Rightarrow> transport_type \<Rightarrow> string option \<Rightarrow> unit cmd" where
  "status_window fuel ttype serial = status_window_loop fuel (format_host_command 4096 ''get-state'' ttype serial) None"

text \<open>The parent of \<open>ppp\<close>.\<close>

definition ppp :: "string list \<Rightarrow> int cmd" where
  "ppp argv =
     (if length argv < 2 then cret 1
      else cbind (k_connect (argv ! 1)) (\<lambda>fd.
        if fd < 0 then cret 1
        else (\<lambda>k. if k_fork k < 0 then Inr (1, k) else cbind (k_close fd) (\<lambda>_. cret 0) k)))"

text \<open>\<open>docmd\<close> stands for \<open>do_cmd\<close>, which runs a whole command line. Every round that fails waits for a
  device.\<close>

type_synonym docmd = "transport_type \<Rightarrow> string option \<Rightarrow> string list \<Rightarrow> int cmd"

fun connect_waiting :: "nat \<Rightarrow> docmd \<Rightarrow> transport_type \<Rightarrow> string option \<Rightarrow> string \<Rightarrow> int cmd" where
  "connect_waiting 0 docmd transport serial buf = cerr OutOfFuel"
| "connect_waiting (Suc n) docmd transport serial buf =
     cbind (k_connect buf) (\<lambda>fd.
       if 0 \<le> fd then cret fd
       else cbind (docmd transport serial [''wait-for-device'']) (\<lambda>_. connect_waiting n docmd transport serial buf))"

text \<open>Closing the connection succeeds.\<close>

definition send_shellcommand :: "nat \<Rightarrow> docmd \<Rightarrow> transport_type \<Rightarrow> string option \<Rightarrow> string \<Rightarrow> int cmd" where
  "send_shellcommand n docmd transport serial buf =
     cbind (connect_waiting n docmd transport serial buf) (\<lambda>fd.
     cbind (read_and_dump fd) (\<lambda>_. cbind (k_close fd) (\<lambda>_. cret 0)))"

definition logcat :: "nat \<Rightarrow> docmd \<Rightarrow> transport_type \<Rightarrow> string option \<Rightarrow> string list \<Rightarrow> int cmd" where
  "logcat n docmd transport serial argv k =
     (let quoted = escape_arg (case_option [] id (k_env k ''ANDROID_LOG_TAGS''));
          buf = snprintf 4096 (''shell:export ANDROID_LOG_TAGS='' @ [CHR 0x22] @ quoted @ [CHR 0x22] @ ''; exec logcat'')
      in cbind (\<lambda>k. ebind (if hd argv = ''longcat'' then strncat 4096 '' -v long'' buf else Inr buf) (\<lambda>buf. Inr (buf, k))) (\<lambda>buf.
         cbind (k_args 4096 (tl argv) buf) (\<lambda>buf.
         cbind (send_shellcommand n docmd transport serial buf) (\<lambda>_. cret 0))) k)"

section \<open>Commands for PAX terminals\<close>

definition trim_newlines :: "string \<Rightarrow> string" where
  "trim_newlines s = rev (dropWhile (\<lambda>c. c = CHR 0x0A \<or> c = CHR 0x0D) (rev s))"

text \<open>Reading ends at the first result that is not positive.\<close>

fun getprop_loop :: "nat \<Rightarrow> rres list \<Rightarrow> err + (bytes \<times> rres list)" where
  "getprop_loop n [] = (if n = 0 then Inr ([], []) else Inl Blocked)"
| "getprop_loop n (RData bs # rs) =
     (if n = 0 then Inr ([], RData bs # rs)
      else if bs = [] then Inr ([], rs)
      else if length bs \<le> n then ebind (getprop_loop (n - length bs) rs) (\<lambda>(out, rs). Inr (bs @ out, rs))
      else Inr (take n bs, RData (drop n bs) # rs))"
| "getprop_loop n (RErr e # rs) = (if n = 0 then Inr ([], RErr e # rs) else Inr ([], rs))"

definition pax_getprop :: "string \<Rightarrow> nat \<Rightarrow> string option cmd" where
  "pax_getprop prop outlen =
     cbind (k_connect (snprintf 128 (''shell:getprop '' @ prop))) (\<lambda>fd.
       if fd < 0 then cret None
       else cbind (on_c (\<lambda>c. ebind (getprop_loop (outlen - 1) (c_rs c fd)) (\<lambda>(out, rs).
                     Inr (out, c\<lparr>c_rs := (c_rs c)(fd := rs)\<rparr>)))) (\<lambda>out.
            cbind (k_close fd) (\<lambda>_. cret (Some (takeWhile (\<lambda>c. c \<noteq> NUL) (trim_newlines out))))))"

definition pax_systool_sysver :: "int cmd" where
  "pax_systool_sysver =
     cbind (pax_getprop ''pax.ctrl.systool.sysver'' 256) (\<lambda>r.
       cret (case r of None \<Rightarrow> -1 | Some buf \<Rightarrow> atoi buf))"

text \<open>The exit code of systool in one piece of its output.\<close>

definition PFX :: string where
  "PFX = ''[SYSTOOL:-''"

fun memmem :: "bytes \<Rightarrow> bytes \<Rightarrow> bytes option" where
  "memmem pat [] = (if pat = [] then Some [] else None)"
| "memmem pat (b # bs) = (if take (length pat) (b # bs) = pat then Some (b # bs) else memmem pat bs)"

definition pax_code :: "int \<Rightarrow> int" where
  "pax_code r =
     (if r = -4 then -6
      else if r = -22 \<or> r = -101 then 0
      else if 9 < unat (word_of_int (r + 310) :: u32) then -5
      else r)"

definition parse_ret :: "bytes \<Rightarrow> int option" where
  "parse_ret buf =
     (case memmem PFX buf of
        None \<Rightarrow> None
      | Some p \<Rightarrow>
          let q = takeWhile (\<lambda>c. c \<noteq> CHR '']'') (drop (length PFX) p);
              ds = take 31 (filter isdigit q)
          in Some (pax_code (int_of (- atoi_word ds))))"

function pax_stream_loop :: "bool \<Rightarrow> int \<Rightarrow> rres list \<Rightarrow> err + (int \<times> bytes \<times> rres list)" where
  "pax_stream_loop parse ret [] = Inl Blocked"
| "pax_stream_loop parse ret (RErr e # rs) =
     (if e = EINTR then pax_stream_loop parse ret rs else Inr (ret, [], rs))"
| "pax_stream_loop parse ret (RData bs # rs) =
     (if bs = [] then Inr (ret, [], rs)
      else
        let buf = take 4096 bs; rest = (if length bs \<le> 4096 then rs else RData (drop 4096 bs) # rs);
            ret = (if parse then case_option ret id (parse_ret buf) else ret)
        in ebind (pax_stream_loop parse ret rest) (\<lambda>(r, out, rs). Inr (r, buf @ out, rs)))"
  by pat_completeness auto
termination
  by (relation "measure (\<lambda>(_, _, rs). size_list (\<lambda>r. case r of RData bs \<Rightarrow> length bs | RErr _ \<Rightarrow> 0) rs)") auto

declare pax_stream_loop.simps(3) [simp del]

definition pax_stream_and_parse_ret :: "int \<Rightarrow> bool \<Rightarrow> int cmd" where
  "pax_stream_and_parse_ret fd parse =
     cbind (on_c (\<lambda>c. ebind (pax_stream_loop parse 0 (c_rs c fd)) (\<lambda>(r, out, rs).
              Inr ((r, out), c\<lparr>c_rs := (c_rs c)(fd := rs)\<rparr>)))) (\<lambda>(r, out).
     cbind (printf out) (\<lambda>_. cret r))"

definition pax_tool_command :: "nat \<Rightarrow> docmd \<Rightarrow> transport_type \<Rightarrow> string option \<Rightarrow> string \<Rightarrow> string list \<Rightarrow> int cmd" where
  "pax_tool_command n docmd transport serial tool args =
     cbind (k_args 4096 args (snprintf 4096 (''shell:'' @ tool))) (\<lambda>svc.
     cbind (connect_waiting n docmd transport serial svc) (\<lambda>fd.
     cbind (pax_stream_and_parse_ret fd (tool = ''systool'')) (\<lambda>ret.
     cbind (k_close fd) (\<lambda>_. cret ret))))"

definition file_based :: "string \<Rightarrow> string \<Rightarrow> bool" where
  "file_based tool sub \<longleftrightarrow>
     (if tool = ''systool'' then sub \<in> {''update'', ''write'', ''install'', ''apn'', ''puk''} else sub = ''install'')"

definition pax_dest :: "string \<Rightarrow> string" where
  "pax_dest local = snprintf 256 (''/data/local/tmp/'' @ base_name local)"

text \<open>The removal of the pushed file; its outcome is ignored.\<close>

definition pax_cleanup :: "string \<Rightarrow> unit cmd" where
  "pax_cleanup dest =
     cbind (\<lambda>k. ebind (strncat 512 (escape_arg dest) ''shell:rm '') (\<lambda>s. Inr (s, k))) (\<lambda>rmbuf.
     cbind (k_connect rmbuf) (\<lambda>fd.
       if 0 \<le> fd then cbind (read_and_dump fd) (\<lambda>_. k_close fd) else cret ()))"

definition pax_tool_manage :: "nat \<Rightarrow> docmd \<Rightarrow> transport_type \<Rightarrow> string option \<Rightarrow> string \<Rightarrow> string list \<Rightarrow> int cmd" where
  "pax_tool_manage n docmd transport serial tool argv =
     (if length argv < 2 then usage
      else if file_based tool (argv ! 1) \<and> 3 \<le> length argv then
        (\<lambda>k. let local = last argv; dest = pax_dest local in
          case f_stat (k_fs k) local of
            None \<Rightarrow> Inr (1, k)
          | Some st \<Rightarrow>
              cbind (on_fs (do_sync_push n local dest False)) (\<lambda>ret.
                if ret \<noteq> 0 then cret ret
                else cbind (pax_tool_command n docmd transport serial tool (tl (butlast argv @ [dest]))) (\<lambda>ret.
                     cbind (pax_cleanup dest) (\<lambda>_. cret ret))) k)
      else pax_tool_command n docmd transport serial tool (tl argv))"

definition print_prop :: "string \<Rightarrow> string \<Rightarrow> unit cmd" where
  "print_prop label prop =
     cbind (pax_getprop prop 512) (\<lambda>r.
       case r of None \<Rightarrow> cret () | Some v \<Rightarrow> printf (label @ v @ [CHR 0x0A]))"

definition pax_sysver :: "nat \<Rightarrow> docmd \<Rightarrow> transport_type \<Rightarrow> string option \<Rightarrow> int cmd" where
  "pax_sysver n docmd transport serial =
     cbind pax_systool_sysver (\<lambda>v.
       if v = 1 then pax_tool_manage n docmd transport serial ''systool'' [''systool'', ''sysver'']
       else
         cbind (print_prop ''androidver: '' ''pax.ctrl.androidver'') (\<lambda>_.
         cbind (print_prop ''apbootver:  '' ''pax.ctrl.apbootver'') (\<lambda>_.
         cbind (print_prop ''spver:      '' ''pax.ctrl.spver'') (\<lambda>_. cret 0))))"

section \<open>Backup\<close>

text \<open>The first \<open>-f\<close> among the arguments is taken out with the name after it: \<open>None\<close> when there is no
  name.\<close>

fun find_f :: "string list \<Rightarrow> (string option \<times> string list) option" where
  "find_f [] = Some (None, [])"
| "find_f (a # as) =
     (if a = ''-f'' then (case as of [] \<Rightarrow> None | name # rest \<Rightarrow> Some (Some name, rest))
      else map_option (\<lambda>(name, rest). (name, a # rest)) (find_f as))"

text \<open>\<open>strncat\<close> with the room that is left.\<close>

fun backup_args :: "string list \<Rightarrow> string \<Rightarrow> string" where
  "backup_args [] buf = buf"
| "backup_args (a # as) buf =
     (let buf = snprintf 4096 (buf @ '':'') in backup_args as (snprintf 4096 (buf @ a)))"

definition backup :: "string list \<Rightarrow> int cmd" where
  "backup argv =
     (case find_f (tl argv) of
        None \<Rightarrow> usage
      | Some (name, args) \<Rightarrow>
          if args = [] then usage
          else (\<lambda>k.
            let filename = case_option ''./backup.ab'' id name;
                fs = snd (mkdirs filename (adb_unlink filename (k_fs k)));
                k = k\<lparr>k_fs := fs\<rparr>
            in case f_creat fs filename of
                 None \<Rightarrow> Inr (-1, k)
               | Some ws \<Rightarrow>
                   cbind (k_connect (backup_args args ''backup'')) (\<lambda>fd.
                     if fd < 0 then cret (-1)
                     else cbind (printf (''Now unlock your device and confirm the backup operation.'' @ [CHR 0x0A])) (\<lambda>_.
                          cbind (copy_into_file fd filename ws) (\<lambda>_. cbind (k_close fd) (\<lambda>_. cret 0))))
                     (k\<lparr>k_fs := fs\<lparr>f_files := (f_files fs)(filename \<mapsto> [])\<rparr>\<rparr>)))"

definition restore :: "string list \<Rightarrow> int cmd" where
  "restore argv =
     (if length argv \<noteq> 2 then usage
      else (\<lambda>k. case f_open (k_fs k) (argv ! 1) of
         None \<Rightarrow> Inr (-1, k)
       | Some rs \<Rightarrow>
           cbind (k_connect ''restore:'') (\<lambda>fd.
             if fd < 0 then cret (-1)
             else cbind (printf (''Now unlock your device and confirm the restore operation.'' @ [CHR 0x0A])) (\<lambda>_.
                  cbind (copy_from_file rs fd) (\<lambda>_. cbind (k_close fd) (\<lambda>_. cret 0)))) k))"

section \<open>The directory of a product\<close>

definition adb_is_absolute_host_path :: "string \<Rightarrow> bool" where
  "adb_is_absolute_host_path path \<longleftrightarrow> path \<noteq> [] \<and> hd path = CHR ''/''"

definition top_works :: "shell \<Rightarrow> string \<Rightarrow> bool" where
  "top_works k dir \<longleftrightarrow>
     adb_is_absolute_host_path dir \<and> k_exists k (snprintf PATH_MAX (dir @ ''/config/envsetup.make''))"

lemma strrchr_length: "strrchr c s = Some r \<Longrightarrow> 0 < length r \<and> length r \<le> length s"
  by (induction s arbitrary: r) (force split: option.splits if_splits)+

text \<open>The path without its last component, again and again.\<close>

function top_loop :: "shell \<Rightarrow> string \<Rightarrow> string option" where
  "top_loop k path =
     (if top_works k path then Some path
      else case strrchr (CHR ''/'') path of
        None \<Rightarrow> None
      | Some r \<Rightarrow> top_loop k (take (length path - length r) path))"
  by pat_completeness auto
termination
proof (relation "measure (\<lambda>(k, path). length path)")
  show "((k, take (length path - length r) path), (k, path)) \<in> measure (\<lambda>(k, path). length path)"
    if "strrchr (CHR ''/'') path = Some r" for k path r
    using strrchr_length [OF that] by (auto intro: diff_less)
qed simp

declare top_loop.simps [simp del]

text \<open>The directories are copied into buffers of \<open>PATH_MAX\<close> bytes.\<close>

definition strcpy_path :: "string \<Rightarrow> err + string" where
  "strcpy_path s = (if length s < PATH_MAX then Inr s else Inl OutOfBounds)"

definition find_top_from :: "shell \<Rightarrow> string option \<Rightarrow> err + string option" where
  "find_top_from k indir =
     (case indir of
        None \<Rightarrow> Inl NullDeref
      | Some d \<Rightarrow> ebind (strcpy_path d) (\<lambda>path. Inr (top_loop k path)))"

definition find_top :: "shell \<Rightarrow> err + string option" where
  "find_top k =
     (let env = (\<lambda>name. case k_env k name of Some (c # s) \<Rightarrow> Some (c # s) | _ \<Rightarrow> None);
          found = (\<lambda>dir. if top_works k dir then ebind (strcpy_path dir) (\<lambda>p. Inr (Some p)) else Inr None)
      in case env ''ANDROID_BUILD_TOP'' of
           Some dir \<Rightarrow> found dir
         | None \<Rightarrow>
             (case env ''TOP'' of
                Some dir \<Rightarrow> found dir
              | None \<Rightarrow>
                  ebind (find_top_from k (k_cwd k)) (\<lambda>dir.
                    case dir of Some t \<Rightarrow> Inr (Some t) | None \<Rightarrow> find_top_from k (Some (k_exe k)))))"

definition find_product_out_path :: "shell \<Rightarrow> string \<Rightarrow> err + string option" where
  "find_product_out_path k hint =
     (if hint = [] then Inr None
      else if adb_is_absolute_host_path hint then ebind (strcpy_path hint) (\<lambda>p. Inr (Some p))
      else if strchr (CHR ''/'') hint \<noteq> None then
        Inr (case k_cwd k of
               None \<Rightarrow> None
             | Some d \<Rightarrow> if PATH_MAX \<le> length d + 1 + length hint then None else Some (d @ ''/'' @ hint))
      else ebind (find_top k) (\<lambda>dir.
        Inr (case dir of
               None \<Rightarrow> None
             | Some t \<Rightarrow>
                 let p = snprintf PATH_MAX (t @ ''/out/target/product/'' @ hint) in
                 if k_exists k p then Some p else None)))"

definition product_file :: "string \<Rightarrow> string cmd" where
  "product_file extra k = (case k_product k of None \<Rightarrow> Inl (Exited 1) | Some p \<Rightarrow> Inr (p @ ''/'' @ extra, k))"

text \<open>The directories of \<open>adb sync\<close>: \<open>None\<close> for an unknown argument. \<open>lstat\<close> tells whether there is a
  directory for the vendor partition.\<close>

definition find_sync_dirs :: "string option \<Rightarrow> (string option \<times> string option \<times> string option) option cmd" where
  "find_sync_dirs srcarg =
     (case srcarg of
        None \<Rightarrow>
          cbind (product_file ''system'') (\<lambda>android.
          cbind (product_file ''data'') (\<lambda>data.
          cbind (product_file ''vendor'') (\<lambda>vendor k.
            let there = (case f_lstat (k_fs k) vendor of Some st \<Rightarrow> S_ISDIR (st_mode st) | None \<Rightarrow> False) in
            Inr (Some (Some android, Some data, if there then Some vendor else None), k))))
      | Some arg \<Rightarrow>
          if arg = ''system'' then cbind (product_file ''system'') (\<lambda>p. cret (Some (Some p, None, None)))
          else if arg = ''data'' then cbind (product_file ''data'') (\<lambda>p. cret (Some (None, Some p, None)))
          else if arg = ''vendor'' then cbind (product_file ''vendor'') (\<lambda>p. cret (Some (None, None, Some p)))
          else cret None)"

section \<open>Packages\<close>

definition pm_command :: "nat \<Rightarrow> docmd \<Rightarrow> transport_type \<Rightarrow> string option \<Rightarrow> string list \<Rightarrow> int cmd" where
  "pm_command n docmd transport serial argv =
     cbind (k_args 4096 argv ''shell:pm'') (\<lambda>buf.
     cbind (send_shellcommand n docmd transport serial buf) (\<lambda>_. cret 0))"

definition uninstall_app :: "nat \<Rightarrow> docmd \<Rightarrow> transport_type \<Rightarrow> string option \<Rightarrow> string list \<Rightarrow> int cmd" where
  "uninstall_app n docmd transport serial argv =
     (if length argv = 3 \<and> argv ! 1 = ''-k'' then
        cbind (printf (''The -k option uninstalls the application while retaining the data/cache.'' @ [CHR 0x0A] @
          ''At the moment, there is no way to remove the remaining data.'' @ [CHR 0x0A] @
          ''You will have to reinstall the application with the same signature, and fully uninstall it.'' @ [CHR 0x0A] @
          ''If you truly wish to continue, execute '' @ [CHR 0x27] @ ''adb shell pm uninstall -k '' @ argv ! 2 @
          [CHR 0x27, CHR 0x0A])) (\<lambda>_. cret (-1))
      else pm_command n docmd transport serial argv)"

definition delete_file :: "nat \<Rightarrow> docmd \<Rightarrow> transport_type \<Rightarrow> string option \<Rightarrow> string \<Rightarrow> int cmd" where
  "delete_file n docmd transport serial filename =
     cbind (\<lambda>k. ebind (strncat 4096 (escape_arg filename) ''shell:rm -f '') (\<lambda>s. Inr (s, k))) (\<lambda>buf.
     cbind (send_shellcommand n docmd transport serial buf) (\<lambda>_. cret 0))"

definition tolower :: "char \<Rightarrow> char" where
  "tolower c = (let n = of_char c :: nat in if 65 \<le> n \<and> n \<le> 90 then char_of (n + 32) else c)"

text \<open>Whether the name of a file ends in \<open>.apk\<close>, and whether it is a regular file.\<close>

definition is_apk :: "string \<Rightarrow> bool" where
  "is_apk file = (case strrchr (CHR ''.'') file of None \<Rightarrow> False | Some dot \<Rightarrow> map tolower dot = ''.apk'')"

definition regular :: "lfs \<Rightarrow> string \<Rightarrow> bool" where
  "regular fs file = (case f_stat fs file of None \<Rightarrow> False | Some sb \<Rightarrow> S_ISREG (st_mode sb))"

text \<open>The position of the last package among the first \<open>i\<close> arguments.\<close>

fun last_apk :: "nat \<Rightarrow> string list \<Rightarrow> nat option" where
  "last_apk 0 argv = None"
| "last_apk (Suc i) argv = (if is_apk (argv ! i) then Some i else last_apk i argv)"

definition install_app :: "nat \<Rightarrow> docmd \<Rightarrow> transport_type \<Rightarrow> string option \<Rightarrow> string list \<Rightarrow> int cmd" where
  "install_app n docmd transport serial argv k =
     (case last_apk (length argv) argv of
        None \<Rightarrow> Inr (-1, k)
      | Some i \<Rightarrow>
          if \<not> regular (k_fs k) (argv ! i) then Inr (-1, k)
          else
            let dir = (if ''-s'' \<in> set (tl argv) then ''/sdcard/tmp/'' else ''/data/local/tmp/'');
                apk_dest = snprintf PATH_MAX (dir @ base_name (argv ! i))
            in cbind (on_fs (do_sync_push n (argv ! i) apk_dest False)) (\<lambda>e.
               cbind (if e \<noteq> 0 then cret 0 else pm_command n docmd transport serial (argv[i := apk_dest])) (\<lambda>_.
               cbind (delete_file n docmd transport serial apk_dest) (\<lambda>_. cret e))) k)"

text \<open>The packages at the end of the arguments: the position of the first one and the sum of the sizes,
  or \<open>None\<close> when one of them is not a regular file.\<close>

fun apk_files :: "lfs \<Rightarrow> nat \<Rightarrow> string list \<Rightarrow> nat option \<Rightarrow> int \<Rightarrow> (nat option \<times> int) option" where
  "apk_files fs 0 argv first total_size = Some (first, total_size)"
| "apk_files fs (Suc i) argv first total_size =
     (if is_apk (argv ! i) then
        (if \<not> regular fs (argv ! i) then None
         else apk_files fs i argv (Some i) (total_size + (case f_stat fs (argv ! i) of Some sb \<Rightarrow> uint (st_size sb) | None \<Rightarrow> 0)))
      else Some (first, total_size))"

definition session_of :: "string \<Rightarrow> int" where
  "session_of buf =
     (if starts_with ''Success'' buf then
        (case (strrchr (CHR ''['') buf, strrchr (CHR '']'') buf) of
           (Some start, Some _) \<Rightarrow> atoi (tl start)
         | _ \<Rightarrow> -1)
      else -1)"

text \<open>The packages are sent one after the other: whether all of them were taken.\<close>

fun write_apks :: "int \<Rightarrow> nat \<Rightarrow> string list \<Rightarrow> bool cmd" where
  "write_apks session i [] = cret True"
| "write_apks session i (file # files) =
     (\<lambda>k. case (f_stat (k_fs k) file, f_open (k_fs k) file) of
        (Some sb, Some rs) \<Rightarrow>
          cbind (k_connect (snprintf 1024 (''exec:pm install-write -S '' @ show_int (uint (st_size sb)) @ '' '' @
              show_int session @ '' '' @ show_int (int i) @ ''_'' @ base_name file @ '' -''))) (\<lambda>fd.
            if fd < 0 then cret False
            else
              cbind (copy_from_file rs fd) (\<lambda>_.
              cbind (read_status_line fd 1024) (\<lambda>buf.
              cbind (k_close fd) (\<lambda>_.
                if starts_with ''Success'' buf then write_apks session (Suc i) files else cret False)))) k
      | _ \<Rightarrow> Inr (False, k))"

definition install_multiple_app :: "string list \<Rightarrow> int cmd" where
  "install_multiple_app argv k =
     (case apk_files (k_fs k) (length argv) argv None 0 of
        None \<Rightarrow> Inr (-1, k)
      | Some (None, _) \<Rightarrow> Inr (1, k)
      | Some (Some first, total_size) \<Rightarrow>
          cbind (k_args 1024 (drop 1 (take first argv)) (snprintf 1024 (''exec:pm install-create -S '' @ show_int total_size))) (\<lambda>buf.
          cbind (k_connect buf) (\<lambda>fd.
            if fd < 0 then cret (-1)
            else
              cbind (read_status_line fd 1024) (\<lambda>buf.
              cbind (k_close fd) (\<lambda>_.
                let session = session_of buf in
                if session < 0 then cret (-1)
                else
                  cbind (write_apks session first (drop first argv)) (\<lambda>success.
                  cbind (k_connect ((if success then ''exec:pm install-commit '' else ''exec:pm install-abandon '') @ show_int session)) (\<lambda>fd.
                    if fd < 0 then cret (-1)
                    else
                      cbind (read_status_line fd 1024) (\<lambda>buf.
                      cbind (k_close fd) (\<lambda>_. cret (if starts_with ''Success'' buf then 0 else -1)))))))))
          k)"

section \<open>Emulators\<close>

text \<open>The console of an emulator is a TCP connection of its own. The results of the writes are not
  looked at.\<close>

definition connect_to_console :: "int cmd" where
  "connect_to_console =
     cbind (on_c adb_get_emulator_console_port) (\<lambda>port.
       if port < 0 then cret (-1) else on_c c_open)"

definition adb_write :: "int \<Rightarrow> bytes \<Rightarrow> int cmd" where
  "adb_write fd bs =
     on_c (\<lambda>c. ebind (write_once bs (c_ws c fd)) (\<lambda>(r, out, ws).
       Inr (r, c\<lparr>c_ws := (c_ws c)(fd := ws), c_out := (c_out c)(fd := c_out c fd @ out)\<rparr>)))"

fun send_words :: "int \<Rightarrow> string list \<Rightarrow> unit cmd" where
  "send_words fd [] = cret ()"
| "send_words fd (a # as) =
     cbind (adb_write fd a) (\<lambda>_.
     cbind (adb_write fd (if as = [] then [CHR 0x0A] else '' '')) (\<lambda>_. send_words fd as))"

definition adb_send_emulator_command :: "string list \<Rightarrow> int cmd" where
  "adb_send_emulator_command argv =
     cbind connect_to_console (\<lambda>fd.
       if fd < 0 then cret 1
       else
         cbind (send_words fd (tl argv)) (\<lambda>_.
         cbind (adb_write fd (''quit'' @ [CHR 0x0A])) (\<lambda>_.
         cbind (k_close fd) (\<lambda>_. cret 0))))"

section \<open>Arguments and the shell of the device\<close>

text \<open>The words that a POSIX shell makes of a command, as far as spaces, backslashes and double quotes
  go: the flag tells whether the text is inside double quotes, and the word so far is \<open>None\<close> between
  words.\<close>

fun sh_words :: "bool \<Rightarrow> string \<Rightarrow> string option \<Rightarrow> string list" where
  "sh_words q [] w = (case w of None \<Rightarrow> [] | Some s \<Rightarrow> [s])"
| "sh_words q (c # cs) w =
     (let s = case_option [] id w in
      if c = CHR 0x22 then sh_words (\<not> q) cs (Some s)
      else if c = CHR 0x5C then
        (case cs of
           [] \<Rightarrow> [s @ [c]]
         | d # ds \<Rightarrow>
             if q \<and> d \<notin> {CHR 0x22, CHR 0x5C, CHR ''$'', CHR 0x60} then sh_words q ds (Some (s @ [c, d]))
             else sh_words q ds (Some (s @ [d])))
      else if c = CHR '' '' \<and> \<not> q then
        (case w of None \<Rightarrow> sh_words q cs None | Some s \<Rightarrow> s # sh_words q cs None)
      else sh_words q cs (Some (s @ [c])))"

lemma escape_arg_Cons:
  "escape_arg (c # s) = (if should_escape c then [CHR 0x5C, c] else [c]) @ (if s = [] then [] else escape_arg s)"
  by (simp add: escape_arg_def)

lemma sh_words_escaped:
  "s \<noteq> [] \<Longrightarrow> sh_words False (escape_arg s @ rest) w = sh_words False rest (Some (case_option [] id w @ s))"
proof (induction s arbitrary: w)
  case (Cons c s)
  have step: "sh_words False ((if should_escape c then [CHR 0x5C, c] else [c]) @ t) w =
      sh_words False t (Some (case_option [] id w @ [c]))" for t
    by (auto simp: should_escape_def Let_def)
  show ?case
  proof (cases "s = []")
    case True
    then show ?thesis by (simp add: escape_arg_Cons step del: sh_words.simps)
  next
    case False
    then show ?thesis by (simp add: escape_arg_Cons step Cons.IH del: sh_words.simps)
  qed
qed simp

lemma sh_words_arg: "sh_words False (escape_arg s @ rest) None = sh_words False rest (Some s)"
proof (cases "s = []")
  case False
  then show ?thesis by (simp add: sh_words_escaped)
qed (simp add: escape_arg_def)

definition arg_text :: "string list \<Rightarrow> string" where
  "arg_text args = concat (map (\<lambda>a. '' '' @ escape_arg a) args)"

lemma sh_words_args: "sh_words False (arg_text args) (Some w) = w # args"
proof (induction args arbitrary: w)
  case (Cons a as)
  then show ?case by (simp add: arg_text_def sh_words_arg)
qed (simp add: arg_text_def)

lemma add_args_exact:
  assumes "buf \<noteq> []" and "length buf < cap"
  shows "add_args cap args buf =
    (if length (buf @ arg_text args) < cap then Inr (buf @ arg_text args) else Inl OutOfBounds)"
  using assms
proof (induction args arbitrary: buf)
  case (Cons a as)
  have sp: "strncat cap '' '' buf = (if length buf + 1 < cap then Inr (buf @ '' '') else Inl OutOfBounds)"
  proof -
    have "2 \<le> cap" using Cons.prems by (cases buf) auto
    then show ?thesis by (auto simp: strncat_def)
  qed
  have ar: "strncat cap (escape_arg a) (buf @ '' '') =
      (if length (buf @ '' '' @ escape_arg a) < cap then Inr (buf @ '' '' @ escape_arg a) else Inl OutOfBounds)"
    if "length buf + 1 < cap" using that by (auto simp: strncat_def Let_def)
  show ?case using Cons.IH [of "buf @ '' '' @ escape_arg a"]
    by (auto simp: sp ar arg_text_def)
qed (simp add: arg_text_def)



lemma length_escape_arg: "length s \<le> length (escape_arg s)"
proof -
  have "length s \<le> length (concat (map (\<lambda>c. if should_escape c then [CHR 0x5C, c] else [c]) s))"
    by (induction s) auto
  then show ?thesis by (simp add: escape_arg_def)
qed

text \<open>A command that does not fit overruns its buffer: the number given to \<open>strncat\<close> is the size of
  the buffer and not the room that is left, so \<open>pax_tool_command\<close> writes past the end as soon as the
  tool and its arguments need 4096 bytes.\<close>

theorem long_arguments_overrun:
  assumes "length (''shell:'' @ tool) < 4096" and "4096 \<le> length (''shell:'' @ tool @ arg_text args)"
  shows "pax_tool_command n docmd transport serial tool args k = Inl OutOfBounds"
  using assms by (simp add: pax_tool_command_def cbind_def k_args_def add_args_exact)

theorem long_arguments_overrun_witness:
  "\<forall>k. pax_tool_command 1 (\<lambda>_ _ _. cret 0) kTransportAny None ''systool'' [replicate 5000 (CHR ''a'')] k = Inl OutOfBounds"
proof -
  have "5000 \<le> length (escape_arg (replicate 5000 (CHR ''a'')))"
    using length_escape_arg [of "replicate 5000 (CHR ''a'')"] by simp
  then have "4096 \<le> length (''shell:'' @ ''systool'' @ arg_text [replicate 5000 (CHR ''a'')])"
    by (simp add: arg_text_def)
  from long_arguments_overrun [OF _ this] show ?thesis by simp
qed

section \<open>The exit code of systool\<close>

lemma memmem_first:
  assumes "p \<notin> set pre"
  shows "memmem (p # ps) (pre @ (p # ps) @ post) = Some ((p # ps) @ post)"
  using assms
proof (induction pre)
  case (Cons b pre)
  have "memmem (p # ps) (b # pre @ (p # ps) @ post) = memmem (p # ps) (pre @ (p # ps) @ post)" using Cons.prems by auto
  then show ?case using Cons by (simp del: memmem.simps)
qed simp

lemma show_nat_digits: "list_all isdigit (show_nat n)"
proof (induction n rule: show_nat.induct)
  case (1 n)
  have d: "isdigit (decdigit m)" if "m < 10" for m
  proof -
    have "m \<in> {0, 1, 2, 3, 4, 5, 6, 7, 8, 9}" using that by auto
    then show ?thesis by (auto simp: decdigit_def isdigit_def)
  qed
  show ?case using 1 by (subst show_nat.simps) (auto simp: d)
qed

lemma length_show_nat: "n < 10 ^ Suc k \<Longrightarrow> length (show_nat n) \<le> Suc k"
proof (induction k arbitrary: n)
  case (Suc k)
  then have "length (show_nat (n div 10)) \<le> Suc k" by (auto simp: less_mult_imp_div_less)
  then show ?case by (subst show_nat.simps) auto
qed (subst show_nat.simps, simp)

lemma parse_ret_marker:
  assumes "CHR ''['' \<notin> set pre" and "n < 2 ^ 31"
  shows "parse_ret (pre @ PFX @ show_nat n @ '']'' @ post) = Some (pax_code (- int n))"
proof -
  let ?t = "show_nat n @ '']'' @ post"
  have m: "memmem PFX (pre @ PFX @ ?t) = Some (PFX @ ?t)"
    using memmem_first [OF assms(1), of "tl PFX" ?t] by (simp add: PFX_def)
  have "CHR '']'' \<notin> set (show_nat n)" using show_nat_digits [of n] by (auto simp: list_all_iff isdigit_def)
  then have t: "takeWhile (\<lambda>c. c \<noteq> CHR '']'') ?t = show_nat n" by (subst takeWhile_append2) auto
  have f: "filter isdigit (show_nat n) = show_nat n" using show_nat_digits [of n] by (simp add: list_all_iff)
  have "length (show_nat n) \<le> Suc 9" by (rule length_show_nat) (use assms(2) in simp)
  then have l: "take 31 (show_nat n) = show_nat n" by simp
  have "atoi_word (show_nat n) = word_of_int (int n)"
    using strtol_show_nat [of n "[]"] assms(2) by (simp add: atoi_word_def LONG_MAX_def)
  moreover have "sint (- word_of_int (int n) :: u32) = - int n"
  proof -
    have "- word_of_int (int n) = (word_of_int (- int n) :: u32)" by simp
    moreover have "sint (word_of_int (- int n) :: u32) = - int n"
      unfolding signed_of_int using assms(2) by (subst signed_take_bit_int_eq_self) simp_all
    ultimately show ?thesis by simp
  qed
  ultimately show ?thesis by (simp add: parse_ret_def m [simplified] t [simplified] f l int_of_def)
qed

lemma pax_stream_loop_chunks:
  assumes "list_all (\<lambda>b. b \<noteq> [] \<and> length b \<le> 4096) bs"
  shows "pax_stream_loop True ret (map RData bs @ RData [] # rs) =
    Inr (foldl (\<lambda>r b. case_option r id (parse_ret b)) ret bs, concat bs, rs)"
  using assms by (induction bs arbitrary: ret) (simp_all add: pax_stream_loop.simps(3))

lemma pax_code_table:
  assumes "n < 2 ^ 31"
  shows "pax_code (- int n) =
    (if n = 22 \<or> n = 101 then 0 else if n = 4 then -6 else if 301 \<le> n \<and> n \<le> 310 then - int n else -5)"
proof -
  have u: "unat (word_of_int i :: u32) = nat (i mod 2 ^ 32)" for i
    by (simp add: unsigned_of_int take_bit_eq_mod)
  have m: "(- int n + 310) mod 2 ^ 32 = (if n \<le> 310 then 310 - int n else 310 - int n + 2 ^ 32)"
  proof (cases "n \<le> 310")
    case True
    then show ?thesis by (simp add: mod_pos_pos_trivial)
  next
    case False
    have "(- int n + 310) mod 2 ^ 32 = (- int n + 310 + 2 ^ 32) mod 2 ^ 32" by (rule mod_add_self2 [symmetric])
    also have "\<dots> = - int n + 310 + 2 ^ 32" using assms False by (intro mod_pos_pos_trivial) auto
    finally show ?thesis using False by simp
  qed
  show ?thesis using assms unfolding pax_code_def u m by auto
qed

lemma foldl_no_marker:
  "list_all (\<lambda>b. parse_ret b = None) bs \<Longrightarrow> foldl (\<lambda>r b. case_option r id (parse_ret b)) ret bs = ret"
  by (induction bs arbitrary: ret) auto


section \<open>Side loading\<close>

text \<open>The number of a block in eight digits, and the block.\<close>

definition block_request :: "nat \<Rightarrow> string" where
  "block_request b = pad_left 8 (CHR ''0'') (show_nat b)"

definition block :: "bytes \<Rightarrow> nat \<Rightarrow> bytes" where
  "block data b = take SIDELOAD_HOST_BLOCK_SIZE (drop (b * SIDELOAD_HOST_BLOCK_SIZE) data)"

lemma strtol_digits:
  assumes "s \<noteq> []" and "list_all isdigit s" and "digits 10 0 s = (n, [])" and "int n \<le> LONG_MAX"
  shows "strtol 10 s = (int n, False, [])"
proof -
  obtain c r where s: "s = c # r" using assms(1) by (cases s) auto
  then have "isdigit c" using assms(2) by simp
  then have "\<not> isspace c" "c \<noteq> CHR ''-''" "c \<noteq> CHR ''+''" "digit_in 10 c \<noteq> None"
    by (auto simp: isdigit_def isspace_def digit_in_def Let_def)
  then show ?thesis using assms(3,4) s by (auto simp: strtol_def LONG_MAX_def Let_def simp del: digits.simps)
qed

lemma digits_zeros: "digits 10 0 (replicate k (CHR ''0'') @ s) = digits 10 0 s"
  by (induction k) (simp_all add: digit_in_def)

lemma block_request_digits:
  assumes "b < 10 ^ 8"
  shows "length (block_request b) = 8" "list_all isdigit (block_request b)" "strtol 10 (block_request b) = (int b, False, [])"
proof -
  have "length (show_nat b) \<le> Suc 7" by (rule length_show_nat) (use assms in simp)
  then show l: "length (block_request b) = 8" by (simp add: block_request_def pad_left_def)
  have "isdigit (CHR ''0'')" by (simp add: isdigit_def)
  then show d: "list_all isdigit (block_request b)"
    using show_nat_digits [of b] by (auto simp: block_request_def pad_left_def list_all_iff)
  show "strtol 10 (block_request b) = (int b, False, [])"
    by (rule strtol_digits) (use l d assms in \<open>auto simp: block_request_def pad_left_def digits_zeros digits_show_nat LONG_MAX_def\<close>)
qed

lemma block_offset_request:
  assumes "b * SIDELOAD_HOST_BLOCK_SIZE < 2 ^ 31"
  shows "block_offset (block_request b) = b * SIDELOAD_HOST_BLOCK_SIZE"
proof -
  have b: "b < 10 ^ 8" using assms by (simp add: SIDELOAD_HOST_BLOCK_SIZE_def CHUNK_SIZE_def)
  have "atoi_word (block_request b) * of_nat SIDELOAD_HOST_BLOCK_SIZE = of_nat (b * SIDELOAD_HOST_BLOCK_SIZE)"
    using block_request_digits(3) [OF b] by (simp add: atoi_word_def)
  moreover have s: "size_of_int (of_nat m) = m" if "m < 2 ^ 31" for m
  proof -
    have "unat (of_nat m :: u32) = m" using that by (simp add: unsigned_of_nat take_bit_nat_eq_self_iff)
    moreover have "sint (of_nat m :: u32) = int m" using that by (simp add: signed_of_nat signed_take_bit_int_eq_self)
    ultimately show ?thesis by (simp add: size_of_int_def)
  qed
  ultimately show ?thesis unfolding block_offset_def by (simp only: s [OF assms])
qed

lemma serve_loop_blocks:
  assumes "healthy (c_rs c fd)" and "stream (c_rs c fd) = concat (map block_request bs) @ ''DONEDONE'' @ rest"
    and "\<forall>b \<in> set bs. b * SIDELOAD_HOST_BLOCK_SIZE < length data" and "length data < 2 ^ 31"
    and "steady (c_ws c fd)" and "length (concat (map (block data) bs)) \<le> room (c_ws c fd)" and "length bs < fuel"
  shows "\<exists>c'. serve_loop fuel fd data c = Inr (0, c') \<and> stream (c_rs c' fd) = rest \<and>
    c_out c' fd = c_out c fd @ concat (map (block data) bs)"
  using assms
proof (induction bs arbitrary: c fuel)
  case Nil
  obtain n where n: "fuel = Suc n" using Nil.prems(7) by (cases fuel) auto
  obtain rs where "c_readx 8 fd c = Inr (Some ''DONEDONE'', c\<lparr>c_rs := (c_rs c)(fd := rs)\<rparr>)" "stream rs = rest"
    using c_readx_exact [OF Nil.prems(1), of "''DONEDONE''" rest 8] Nil.prems(2) by auto
  then show ?case using n by simp
next
  case (Cons b bs)
  obtain n where n: "fuel = Suc n" "length bs < n" using Cons.prems(7) by (cases fuel) auto
  have b: "b * SIDELOAD_HOST_BLOCK_SIZE < length data" "b * SIDELOAD_HOST_BLOCK_SIZE < 2 ^ 31"
    using Cons.prems(3,4) by auto
  then have "b < 10 ^ 8" by (simp add: SIDELOAD_HOST_BLOCK_SIZE_def CHUNK_SIZE_def)
  note r = block_request_digits(1,2) [OF this]
  have p: "block_request b \<noteq> ''DONEDONE''" using r(2) by (auto simp: isdigit_def)
  have z: "takeWhile (\<lambda>c. c \<noteq> NUL) (block_request b) = block_request b"
    using r(2) by (auto simp: list_all_iff isdigit_def takeWhile_eq_all_conv)
  obtain rs where rs: "c_readx 8 fd c = Inr (Some (block_request b), c\<lparr>c_rs := (c_rs c)(fd := rs)\<rparr>)" "healthy rs"
      "stream rs = concat (map block_request bs) @ ''DONEDONE'' @ rest"
    using c_readx_exact [OF Cons.prems(1), of "block_request b" _ 8] Cons.prems(2) r(1) by auto
  let ?c1 = "c\<lparr>c_rs := (c_rs c)(fd := rs)\<rparr>"
  obtain c2 where c2: "c_writex fd (block data b) ?c1 = Inr (True, c2)" "sent fd (block data b) ?c1 c2"
    using c_writex_sent [of ?c1 fd "block data b"] Cons.prems(5,6) by auto
  note s = sentD [OF c2(2)]
  have "\<exists>c'. serve_loop n fd data c2 = Inr (0, c') \<and> stream (c_rs c' fd) = rest \<and>
      c_out c' fd = c_out c2 fd @ concat (map (block data) bs)"
    by (rule Cons.IH) (use s rs(2,3) Cons.prems(3,4,6) n(2) in simp_all)
  then obtain c' where c': "serve_loop n fd data c2 = Inr (0, c')" "stream (c_rs c' fd) = rest"
      "c_out c' fd = c_out c2 fd @ concat (map (block data) bs)" by blast
  have "serve_loop fuel fd data c = Inr (0, c')"
    using n(1) rs(1) p b(1) c2(1) c'(1) by (simp add: z block_offset_request [OF b(2)] block_def Let_def)
  then show ?case using c'(2,3) s(4) by simp
qed

text \<open>C26: Side loading serves the file as the comment in the source says: to a device that asks for any
  sequence of blocks of the file, eight digits each, and ends with \<open>DONEDONE\<close>, \<open>adb_sideload_host\<close> sends
  exactly these blocks in that order, the last block without padding, and returns 0.\<close>

theorem sideload_serves_blocks:
  assumes "load_file fn (k_fs k) = Some data" and "length data < 2 ^ 31"
    and "k_connect (''sideload-host:'' @ show_int (int (length data)) @ '':'' @ show_int 65536) k = Inr (fd, k1)" and "0 \<le> fd"
    and "healthy (c_rs (k_c k1) fd)"
    and "stream (c_rs (k_c k1) fd) = concat (map block_request bs) @ ''DONEDONE'' @ rest"
    and "\<forall>b \<in> set bs. b * 65536 < length data"
    and "steady (c_ws (k_c k1) fd)" and "length bs < fuel"
    and "length (concat (map (\<lambda>b. take 65536 (drop (b * 65536) data)) bs)) \<le> room (c_ws (k_c k1) fd)"
  shows "\<exists>k'. adb_sideload_host fuel fn k = Inr (0, k') \<and>
    c_out (k_c k') fd = c_out (k_c k1) fd @ concat (map (\<lambda>b. take 65536 (drop (b * 65536) data)) bs)"
proof -
  have B: "SIDELOAD_HOST_BLOCK_SIZE = 65536" by (simp add: SIDELOAD_HOST_BLOCK_SIZE_def CHUNK_SIZE_def)
  have block: "block data = (\<lambda>b. take 65536 (drop (b * 65536) data))" by (rule ext) (simp add: block_def B)
  obtain c' where c': "serve_loop fuel fd data (k_c k1) = Inr (0, c')"
      "c_out c' fd = c_out (k_c k1) fd @ concat (map (block data) bs)"
    using serve_loop_blocks [OF assms(5,6) _ assms(2,8) _ assms(9)] assms(7,10) by (auto simp: B block)
  obtain c1 where c1: "adb_connect (''sideload-host:'' @ show_int (int (length data)) @ '':'' @ show_int 65536) (k_c k) = Inr (fd, c1)"
      "k1 = k\<lparr>k_c := c1\<rparr>" using assms(3) by (auto simp: k_connect_def on_c_def ebind_eq_Inr)
  have "adb_sideload_host fuel fn k = Inr (0, k\<lparr>k_c := c_close fd c'\<rparr>)"
    using assms(1,4) c1 c'(1) by (simp add: adb_sideload_host_def on_fs_def on_c_def B)
  then show ?thesis using c'(2) by (simp add: c_close_def block)
qed

section \<open>Connections\<close>

lemma send_request_sent:
  assumes "steady (c_ws c fd)" and "4 + length service \<le> room (c_ws c fd)" and "length service < 65536"
  obtains c' where "send_request fd service c = Inr (True, c')" and "sent fd (encode_request service) c c'"
proof -
  let ?h = "fmt_04x (length service)"
  have h: "length ?h = 4" using length_fmt_04x [OF assms(3)] .
  obtain c1 where c1: "c_writex fd ?h c = Inr (True, c1)" "sent fd ?h c c1"
    using c_writex_sent [OF assms(1), of ?h] assms(2) h by auto
  obtain c2 where c2: "c_writex fd service c1 = Inr (True, c2)" "sent fd service c1 c2"
    using c_writex_sent [OF sentD(1) [OF c1(2)], of service] sentD(2) [OF c1(2)] assms(2) h by auto
  show ?thesis
    using that [of c2] c1(1) c2(1) sent_trans [OF c1(2) c2(2)] h by (simp add: send_request_def encode_request_def)
qed

text \<open>A request that the server accepts.\<close>

lemma request_accepted:
  assumes "steady (c_ws c fd)" and "4 + length service \<le> room (c_ws c fd)" and "length service < 65536"
    and "healthy (c_rs c fd)" and "stream (c_rs c fd) = ''OKAY'' @ rest"
  obtains c1 ws rs where "send_request fd service c = Inr (True, c1)"
    and "adb_status fd c1 = Inr (0, c\<lparr>c_ws := (c_ws c)(fd := ws), c_out := (c_out c)(fd := c_out c fd @ encode_request service), c_rs := (c_rs c)(fd := rs)\<rparr>)"
    and "steady ws" and "room (c_ws c fd) \<le> room ws + 4 + length service" and "healthy rs" and "stream rs = rest"
proof -
  obtain c1 where c1: "send_request fd service c = Inr (True, c1)" "sent fd (encode_request service) c c1"
    using send_request_sent [OF assms(1-3)] by blast
  obtain ws where ws: "steady ws" "room (c_ws c fd) \<le> room ws + length (encode_request service)"
      "c1 = c\<lparr>c_ws := (c_ws c)(fd := ws), c_out := (c_out c)(fd := c_out c fd @ encode_request service)\<rparr>"
    using c1(2) by (auto simp: sent_def)
  have "healthy (c_rs c1 fd)" "stream (c_rs c1 fd) = ''OKAY'' @ rest" using assms(4,5) ws(3) by simp_all
  then obtain rs where "adb_status fd c1 = Inr (0, c1\<lparr>c_rs := (c_rs c1)(fd := rs)\<rparr>)" "healthy rs" "stream rs = rest"
    using adb_status_okay by blast
  then show ?thesis
    using that [of c1 rs ws] c1(1) ws assms(3) by simp
qed

lemma connect1_version:
  assumes "c_conns c = fd # fds" and "0 \<le> fd" and "healthy (c_rs c fd)" and "stream (c_rs c fd) = ''OKAY00040020'' @ r1"
    and "steady (c_ws c fd)" and "16 \<le> room (c_ws c fd)"
  obtains c1 c2 where "adb_connect1 ''host:version'' c = Inr (fd, c1)" and "server_version fd c1 = Inr (Version ADB_SERVER_VERSION, c2)"
    and "c_conns c2 = fds" and "c_serial c2 = c_serial c" and "c_transport c2 = c_transport c"
    and "\<And>f. f \<noteq> fd \<Longrightarrow> c_rs c2 f = c_rs c f \<and> c_ws c2 f = c_ws c f \<and> c_out c2 f = c_out c f"
proof -
  define c0 where "c0 = c\<lparr>c_conns := fds\<rparr>"
  obtain b ws rs where v: "send_request fd ''host:version'' c0 = Inr (True, b)"
      "adb_status fd b = Inr (0, c0\<lparr>c_ws := (c_ws c0)(fd := ws), c_out := (c_out c0)(fd := c_out c0 fd @ encode_request ''host:version''),
         c_rs := (c_rs c0)(fd := rs)\<rparr>)" "healthy rs" "stream rs = ''0004'' @ ''0020'' @ r1"
    by (rule request_accepted [of c0 fd "''host:version''" "''00040020'' @ r1"]) (use assms in \<open>simp_all add: c0_def\<close>)
  define c1 where "c1 = c0\<lparr>c_ws := (c_ws c0)(fd := ws), c_out := (c_out c0)(fd := c_out c0 fd @ encode_request ''host:version''),
         c_rs := (c_rs c0)(fd := rs)\<rparr>"
  have "c_open c = Inr (fd, c0)" using assms(1) by (simp add: c_open_def c0_def)
  then have con: "adb_connect1 ''host:version'' c = Inr (fd, c1)"
    using assms(2) v(1,2) by (simp add: adb_connect1_def starts_with_def c1_def)
  have s1: "healthy (c_rs c1 fd)" "stream (c_rs c1 fd) = ''0004'' @ ''0020'' @ r1" using v(3,4) by (simp_all add: c1_def)
  obtain rs2 where r2: "c_readx 4 fd c1 = Inr (Some ''0004'', c1\<lparr>c_rs := (c_rs c1)(fd := rs2)\<rparr>)" "healthy rs2" "stream rs2 = ''0020'' @ r1"
    using c_readx_exact [OF s1, of 4] by auto
  obtain rs3 where r3: "c_readx 4 fd (c1\<lparr>c_rs := (c_rs c1)(fd := rs2)\<rparr>) = Inr (Some ''0020'', c1\<lparr>c_rs := (c_rs c1)(fd := rs3)\<rparr>)"
    using c_readx_exact [of "c1\<lparr>c_rs := (c_rs c1)(fd := rs2)\<rparr>" fd "''0020''" r1 4] r2(2,3) by auto
  have "strtoul16 ''0004'' = 4" "scan_version ''0004'' ''0020'' = Inr (Some 32)" by code_simp+
  then have "server_version fd c1 = Inr (Version ADB_SERVER_VERSION, c_close fd (c1\<lparr>c_rs := (c_rs c1)(fd := rs3)\<rparr>))"
    using assms(2) r2(1) r3 by (simp add: server_version_def ADB_SERVER_VERSION_def)
  then show ?thesis using that [OF con] by (simp add: c_close_def c1_def c0_def)
qed

lemma adb_connect_accepted:
  assumes "c_conns c = fd1 # fd2 # fds" and "0 \<le> fd1" and "0 \<le> fd2" and "fd1 \<noteq> fd2"
    and "healthy (c_rs c fd1)" and "stream (c_rs c fd1) = ''OKAY00040020'' @ r1"
    and "steady (c_ws c fd1)" and "16 \<le> room (c_ws c fd1)"
    and "healthy (c_rs c fd2)" and "stream (c_rs c fd2) = ''OKAYOKAY'' @ rest"
    and "steady (c_ws c fd2)" and "length service + 72 \<le> room (c_ws c fd2)"
    and "service \<noteq> []" and "length service \<le> 1024" and "\<not> starts_with ''host'' service"
    and "switch_service c = Some target"
  shows "\<exists>c'. adb_connect service c = Inr (fd2, c') \<and>
    c_out c' fd2 = c_out c fd2 @ encode_request target @ encode_request service \<and>
    healthy (c_rs c' fd2) \<and> stream (c_rs c' fd2) = rest \<and>
    steady (c_ws c' fd2) \<and> room (c_ws c fd2) \<le> room (c_ws c' fd2) + length service + 72"
proof -
  obtain c1 c2 where v: "adb_connect1 ''host:version'' c = Inr (fd1, c1)" "server_version fd1 c1 = Inr (Version ADB_SERVER_VERSION, c2)"
      "c_conns c2 = fd2 # fds" "c_serial c2 = c_serial c" "c_transport c2 = c_transport c"
      "c_rs c2 fd2 = c_rs c fd2" "c_ws c2 fd2 = c_ws c fd2" "c_out c2 fd2 = c_out c fd2"
    using connect1_version [OF assms(1,2,5-8)] assms(4) by metis
  define c3 where "c3 = c2\<lparr>c_conns := fds\<rparr>"
  have o: "c_open c2 = Inr (fd2, c3)" using v(3) by (simp add: c_open_def c3_def)
  have e: "c_serial c3 = c_serial c" "c_transport c3 = c_transport c" using v(4,5) by (simp_all add: c3_def)
  have t: "switch_service c3 = Some target" using assms(16) unfolding switch_service_def e .
  then have lt: "length target < 64" by (auto simp: switch_service_def snprintf_def split: option.splits)
  obtain b4 ws4 rs4 where r4: "send_request fd2 target c3 = Inr (True, b4)"
      "adb_status fd2 b4 = Inr (0, c3\<lparr>c_ws := (c_ws c3)(fd2 := ws4), c_out := (c_out c3)(fd2 := c_out c3 fd2 @ encode_request target),
         c_rs := (c_rs c3)(fd2 := rs4)\<rparr>)"
      "steady ws4" "room (c_ws c3 fd2) \<le> room ws4 + 4 + length target" "healthy rs4" "stream rs4 = ''OKAY'' @ rest"
    by (rule request_accepted [of c3 fd2 target "''OKAY'' @ rest"]) (use assms v lt in \<open>simp_all add: c3_def\<close>)
  define c4 where "c4 = c3\<lparr>c_ws := (c_ws c3)(fd2 := ws4), c_out := (c_out c3)(fd2 := c_out c3 fd2 @ encode_request target),
         c_rs := (c_rs c3)(fd2 := rs4)\<rparr>"
  have rm: "4 + length service \<le> room ws4" using r4(4) lt assms(12) v(7) by (simp add: c3_def)
  obtain b5 ws5 rs5 where r5: "send_request fd2 service c4 = Inr (True, b5)"
      "adb_status fd2 b5 = Inr (0, c4\<lparr>c_ws := (c_ws c4)(fd2 := ws5), c_out := (c_out c4)(fd2 := c_out c4 fd2 @ encode_request service),
         c_rs := (c_rs c4)(fd2 := rs5)\<rparr>)"
      "steady ws5" "room ws4 \<le> room ws5 + 4 + length service" "healthy rs5" "stream rs5 = rest"
    by (rule request_accepted [of c4 fd2 service rest]) (use r4 assms(14) rm in \<open>simp_all add: c4_def\<close>)
  have "adb_connect1 service c2 = Inr (fd2, c4\<lparr>c_ws := (c_ws c4)(fd2 := ws5), c_out := (c_out c4)(fd2 := c_out c4 fd2 @ encode_request service),
         c_rs := (c_rs c4)(fd2 := rs5)\<rparr>)"
    using o t r4(1,2) r5(1,2) assms(3,13-15) by (simp add: adb_connect1_def switch_socket_transport_def c4_def Suc_leI)
  moreover have "service \<noteq> ''host:start-server''" "fd1 \<noteq> -2" using assms(2,15) by (auto simp: starts_with_def)
  ultimately have "adb_connect service c = Inr (fd2, c4\<lparr>c_ws := (c_ws c4)(fd2 := ws5),
      c_out := (c_out c4)(fd2 := c_out c4 fd2 @ encode_request service), c_rs := (c_rs c4)(fd2 := rs5)\<rparr>)"
    using v(1,2) by (simp add: adb_connect_def connect_service_of_def Let_def)
  then show ?thesis using r4(4) r5(3-6) lt v(7,8) by (simp add: c4_def c3_def)
qed


section \<open>Samples of commands\<close>

text \<open>A process that gets the connections 4, to a server of the right version, and 5, on which the server
  accepts the transport and the service and then the device sends \<open>rs\<close>.\<close>

definition sample_shell :: "rres list \<Rightarrow> shell" where
  "sample_shell rs = \<lparr>
     k_c = (sample_asker [])\<lparr>c_conns := [4, 5], c_ws := (\<lambda>_. replicate 2000 (WOk 4096)),
       c_rs := (\<lambda>fd. if fd = 4 then [RData ''OKAY00040020''] else if fd = 5 then RData ''OKAYOKAY'' # rs else [])\<rparr>,
     k_fs = sample_lfs\<lparr>f_open := [''a'' \<mapsto> [RData ''hello'']],
       f_stat := [''a'' \<mapsto> \<lparr>st_mode = 33188, st_size = 5, st_mtime = 7\<rparr>]\<rparr>,
     k_env = (\<lambda>_. None), k_cwd = Some ''/'', k_exe = ''/usr/bin/adb'', k_exists = (\<lambda>_. False), k_product = None,
     k_listen_all = False, k_fork = 1, k_threads = [], k_keygen = (\<lambda>_. 0)\<rparr>"


lemma sample_connect:
  assumes "service \<noteq> []" and "length service \<le> 1024" and "\<not> starts_with ''host'' service" and "healthy rs"
  obtains k1 where "k_connect service (sample_shell rs) = Inr (5, k1)" and "healthy (c_rs (k_c k1) 5)"
    and "stream (c_rs (k_c k1) 5) = stream rs" and "steady (c_ws (k_c k1) 5)" and "900 \<le> room (c_ws (k_c k1) 5)"
    and "c_out (k_c k1) 5 = encode_request ''host:transport-any'' @ encode_request service"
proof -
  let ?c = "k_c (sample_shell rs)"
  have "\<exists>c'. adb_connect service ?c = Inr (5, c') \<and>
      c_out c' 5 = c_out ?c 5 @ encode_request ''host:transport-any'' @ encode_request service \<and>
      healthy (c_rs c' 5) \<and> stream (c_rs c' 5) = stream rs \<and>
      steady (c_ws c' 5) \<and> room (c_ws ?c 5) \<le> room (c_ws c' 5) + length service + 72"
    by (rule adb_connect_accepted [where ?fd1.0 = 4 and ?r1.0 = "[]"])
      (use assms in \<open>simp_all add: sample_shell_def sample_asker_def switch_service_def transport_name_def\<close>)
  then obtain c' where c': "adb_connect service ?c = Inr (5, c')"
      "c_out c' 5 = c_out ?c 5 @ encode_request ''host:transport-any'' @ encode_request service"
      "healthy (c_rs c' 5)" "stream (c_rs c' 5) = stream rs"
      "steady (c_ws c' 5)" "room (c_ws ?c 5) \<le> room (c_ws c' 5) + length service + 72" by blast
  have s: "c_out ?c 5 = []" "room (c_ws ?c 5) = 2000" by (simp_all add: sample_shell_def sample_asker_def)
  show ?thesis
    by (rule that [of "(sample_shell rs)\<lparr>k_c := c'\<rparr>"]) (use c' s assms(2) in \<open>simp_all add: k_connect_def on_c_def\<close>)
qed


theorem sideload_serves_blocks_witness:
  "\<exists>k'. adb_sideload_host 2 ''a'' (sample_shell [RData ''00000000DONEDONE'']) = Inr (0, k') \<and>
     c_out (k_c k') 5 = encode_request ''host:transport-any'' @ encode_request ''sideload-host:5:65536'' @ ''hello''"
proof -
  let ?k = "sample_shell [RData ''00000000DONEDONE'']"
  have "show_int (int 5) = ''5''" "show_int 65536 = ''65536''"
    by (simp_all add: show_int_def show_nat.simps decdigit_def)
  then have s: "''sideload-host:'' @ show_int (int (length ''hello'')) @ '':'' @ show_int 65536 = ''sideload-host:5:65536''" by simp
  obtain k1 where k1: "k_connect ''sideload-host:5:65536'' ?k = Inr (5, k1)" "healthy (c_rs (k_c k1) 5)"
      "stream (c_rs (k_c k1) 5) = ''00000000DONEDONE''" "steady (c_ws (k_c k1) 5)" "900 \<le> room (c_ws (k_c k1) 5)"
      "c_out (k_c k1) 5 = encode_request ''host:transport-any'' @ encode_request ''sideload-host:5:65536''"
    using sample_connect [of "''sideload-host:5:65536''" "[RData ''00000000DONEDONE'']"] by (auto simp: starts_with_def)
  have b: "block_request 0 = ''00000000''" by code_simp
  have l: "load_file ''a'' (k_fs ?k) = Some ''hello''" by (simp add: load_file_def sample_shell_def sample_lfs_def int_of_def)
  have "\<exists>k'. adb_sideload_host 2 ''a'' ?k = Inr (0, k') \<and>
      c_out (k_c k') 5 = c_out (k_c k1) 5 @ concat (map (\<lambda>b. take 65536 (drop (b * 65536) ''hello'')) [0])"
    by (rule sideload_serves_blocks [OF l _ k1(1) [folded s] _ k1(2), where rest = "[]"]) (use k1(3-5) in \<open>simp_all add: b\<close>)
  then show ?thesis using k1(6) by auto
qed

end
