(* ===== verification/Adb_Cmdline.thy ===== *)
theory Adb_Cmdline
  imports Adb_Shell
begin

text \<open>
  The command line (\<open>adb_commandline\<close> of commandline.c): the flags, the commands in the order in which
  the code tests for them, and \<open>do_cmd\<close>, with which a command runs another command line.
\<close>

section \<open>Flags\<close>

record flags =
  fl_server :: bool
  fl_no_daemon :: bool
  fl_daemon :: bool
  fl_persist :: bool
  fl_ttype :: transport_type
  fl_serial :: "string option"
  fl_port :: int

definition DEFAULT_ADB_PORT :: int where
  "DEFAULT_ADB_PORT = 5037"

definition server_port :: "string \<Rightarrow> int option" where
  "server_port s = (let p = int_strtol s in if p \<le> 0 \<or> 65535 < p then None else Some p)"

text \<open>The value of a flag, which may be the next argument.\<close>

definition flag_value :: "string \<Rightarrow> string list \<Rightarrow> (string \<times> string list) option" where
  "flag_value a as =
     (if drop 2 a \<noteq> [] then Some (drop 2 a, as)
      else case as of [] \<Rightarrow> None | v # as' \<Rightarrow> Some (v, as'))"

lemma flag_value_shorter: "flag_value a as = Some (v, as') \<Longrightarrow> length as' \<le> length as"
  by (auto simp: flag_value_def split: if_splits list.splits)

text \<open>\<open>None\<close> is a call of \<open>usage\<close>.\<close>

function parse_flags :: "string list \<Rightarrow> flags \<Rightarrow> (flags \<times> string list) option cmd" where
  "parse_flags [] fl = cret (Some (fl, []))"
| "parse_flags (a # as) fl =
     (if a = ''server'' then parse_flags as (fl\<lparr>fl_server := True\<rparr>)
      else if a = ''nodaemon'' then parse_flags as (fl\<lparr>fl_no_daemon := True\<rparr>)
      else if a = ''fork-server'' then parse_flags as (fl\<lparr>fl_daemon := True\<rparr>)
      else if a = ''persist'' then parse_flags as (fl\<lparr>fl_persist := True\<rparr>)
      else if starts_with ''-p'' a then
        (case flag_value a as of
           None \<Rightarrow> cret None
         | Some (product, as') \<Rightarrow>
             (\<lambda>k. ebind (find_product_out_path k product) (\<lambda>r.
               case r of
                 None \<Rightarrow> Inr (None, k\<lparr>k_product := None\<rparr>)
               | Some p \<Rightarrow> parse_flags as' fl (k\<lparr>k_product := Some p\<rparr>))))
      else if starts_with ''-s'' a then
        (if drop 2 a \<noteq> [] \<and> isdigit (hd (drop 2 a)) then parse_flags as (fl\<lparr>fl_serial := Some (drop 2 a)\<rparr>)
         else if drop 2 a \<noteq> [] then cret None
         else case as of [] \<Rightarrow> cret None | s # as' \<Rightarrow> parse_flags as' (fl\<lparr>fl_serial := Some s\<rparr>))
      else if a = ''-d'' then parse_flags as (fl\<lparr>fl_ttype := kTransportUsb\<rparr>)
      else if a = ''-e'' then parse_flags as (fl\<lparr>fl_ttype := kTransportLocal\<rparr>)
      else if a = ''-a'' then (\<lambda>k. parse_flags as fl (k\<lparr>k_listen_all := True\<rparr>))
      else if starts_with ''-H'' a then
        (case flag_value a as of
           None \<Rightarrow> cret None
         | Some (hostname, as') \<Rightarrow>
             cbind (on_c (\<lambda>c. Inr ((), adb_set_tcp_name (Some hostname) c))) (\<lambda>_. parse_flags as' fl))
      else if starts_with ''-P'' a then
        (case flag_value a as of
           None \<Rightarrow> cret None
         | Some (s, as') \<Rightarrow>
             (if s = [] then cret None
              else case server_port s of None \<Rightarrow> cret None | Some p \<Rightarrow> parse_flags as' (fl\<lparr>fl_port := p\<rparr>)))
      else cret (Some (fl, a # as)))"
  by pat_completeness auto
termination
  by (relation "measure (\<lambda>(as, _). length as)") (auto dest!: flag_value_shorter)

section \<open>Requests to the server\<close>

text \<open>A query whose answer is printed between two strings.\<close>

definition query_print :: "string \<Rightarrow> string \<Rightarrow> string \<Rightarrow> int cmd" where
  "query_print buf before after =
     cbind (on_c (adb_query buf)) (\<lambda>tmp.
       case tmp of None \<Rightarrow> cret 1 | Some s \<Rightarrow> cbind (printf (before @ s @ after)) (\<lambda>_. cret 0))"

definition host_commands :: "string list \<Rightarrow> int cmd \<Rightarrow> int cmd" where
  "host_commands argv otherwise =
     (let a = hd argv; argc = length argv in
      if a = ''devices'' then
        (if argc < 2 \<or> argc = 2 \<and> argv ! 1 = ''-l'' then
           query_print (snprintf 4096 (''host:devices'' @ (if argc < 2 then [] else argv ! 1)))
             (''List of devices attached '' @ [CHR 0x0A]) [CHR 0x0A]
         else cret 1)
      else if a = ''connect'' then
        (if argc \<noteq> 2 then cret 1 else query_print (snprintf 4096 (''host:connect:'' @ argv ! 1)) [] [CHR 0x0A])
      else if a = ''disconnect'' then
        (if 2 < argc then cret 1
         else query_print (snprintf 4096 (''host:disconnect:'' @ (if argc = 2 then argv ! 1 else []))) [] [CHR 0x0A])
      else if a = ''emu'' then adb_send_emulator_command argv
      else otherwise)"

section \<open>Shell\<close>

text \<open>A round of \<open>adb shell\<close>; with \<open>persist\<close> there is another one once there is a device.\<close>

fun shell_loop :: "nat \<Rightarrow> docmd \<Rightarrow> flags \<Rightarrow> bool \<Rightarrow> string \<Rightarrow> int cmd" where
  "shell_loop 0 docmd fl h buf = cerr OutOfFuel"
| "shell_loop (Suc n) docmd fl h buf =
     cbind (k_connect buf) (\<lambda>fd.
     cbind (if 0 \<le> fd then cbind (read_and_dump fd) (\<lambda>_. cbind (k_close fd) (\<lambda>_. cret 0)) else cret (-1)) (\<lambda>r.
       if fl_persist fl then
         cbind (docmd (fl_ttype fl) (fl_serial fl) [''wait-for-device'']) (\<lambda>_. shell_loop n docmd fl h buf)
       else cbind (if h then printf ([CHR 0x1B] @ ''[0m'') else cret ()) (\<lambda>_. cret r)))"

definition shell_command :: "nat \<Rightarrow> docmd \<Rightarrow> flags \<Rightarrow> string list \<Rightarrow> int cmd" where
  "shell_command n docmd fl argv =
     (let h = (hd argv = ''hell'') in
      cbind (if h then printf ([CHR 0x1B] @ ''[41;33m'') else cret ()) (\<lambda>_.
        if length argv < 2 then
          cbind interactive_shell (\<lambda>r. cbind (if h then printf ([CHR 0x1B] @ ''[0m'') else cret ()) (\<lambda>_. cret r))
        else
          cbind (k_args 4096 (drop 2 argv) (snprintf 4096 (''shell:'' @ argv ! 1))) (shell_loop n docmd fl h)))"

definition exec_command :: "string list \<Rightarrow> int cmd" where
  "exec_command argv =
     (if length argv < 2 then cerr NullDeref
      else
        cbind (k_args 4096 (drop 2 argv) (snprintf 4096 (''exec:'' @ argv ! 1))) (\<lambda>buf.
        cbind (k_connect buf) (\<lambda>fd.
          if fd < 0 then cret (-1)
          else
            cbind (if hd argv = ''exec-in'' then copy_to_file 0 fd else copy_to_file fd 1) (\<lambda>_.
            cbind (k_close fd) (\<lambda>_. cret 0)))))"

definition connect_and_dump :: "string \<Rightarrow> int \<Rightarrow> int cmd" where
  "connect_and_dump service failed =
     cbind (k_connect service) (\<lambda>fd.
       if 0 \<le> fd then cbind (read_and_dump fd) (\<lambda>_. cbind (k_close fd) (\<lambda>_. cret 0)) else cret failed)"

definition reboot_service :: "string list \<Rightarrow> string" where
  "reboot_service argv =
     (if hd argv = ''reboot-bootloader'' then ''reboot:bootloader''
      else snprintf 100 (hd argv @ '':'' @ (if 1 < length argv then argv ! 1 else [])))"

definition device_commands :: "nat \<Rightarrow> docmd \<Rightarrow> flags \<Rightarrow> string list \<Rightarrow> int cmd \<Rightarrow> int cmd" where
  "device_commands n docmd fl argv otherwise =
     (let a = hd argv; argc = length argv in
      if a \<in> {''shell'', ''hell''} then shell_command n docmd fl argv
      else if a \<in> {''exec-in'', ''exec-out''} then exec_command argv
      else if a = ''kill-server'' then cbind (on_c (adb_connect1 ''host:kill'')) (\<lambda>fd. cret (if fd = -1 then 1 else 0))
      else if a = ''sideload'' then
        (if argc \<noteq> 2 then usage else cbind (adb_sideload_host n (argv ! 1)) (\<lambda>r. cret (if r \<noteq> 0 then 1 else 0)))
      else if a \<in> {''remount'', ''reboot'', ''reboot-bootloader'', ''tcpip'', ''usb'', ''root'', ''disable-verity''} then
        connect_and_dump (reboot_service argv) 1
      else if a = ''bugreport'' then
        (if argc \<noteq> 1 then usage
         else cbind (docmd (fl_ttype fl) (fl_serial fl) [''shell'', ''bugreport'']) (\<lambda>_. cret 0))
      else otherwise)"

section \<open>Forwards\<close>

text \<open>The options \<open>--list\<close>, \<open>--remove\<close>, \<open>--remove-all\<close> and \<open>--no-rebind\<close>, and what is left.\<close>

record fwd_opts =
  o_list :: bool
  o_remove :: bool
  o_remove_all :: bool
  o_no_rebind :: bool

fun forward_opts :: "string list \<Rightarrow> fwd_opts \<Rightarrow> (fwd_opts \<times> string list) option" where
  "forward_opts [] fo = Some (fo, [])"
| "forward_opts (a # as) fo =
     (if \<not> starts_with ''-'' a then Some (fo, a # as)
      else if a = ''--list'' then forward_opts as (fo\<lparr>o_list := True\<rparr>)
      else if a = ''--remove'' then forward_opts as (fo\<lparr>o_remove := True\<rparr>)
      else if a = ''--remove-all'' then forward_opts as (fo\<lparr>o_remove_all := True\<rparr>)
      else if a = ''--no-rebind'' then forward_opts as (fo\<lparr>o_no_rebind := True\<rparr>)
      else None)"

definition one_option :: "fwd_opts \<Rightarrow> bool" where
  "one_option fo \<longleftrightarrow> length (filter id [o_list fo, o_remove fo, o_remove_all fo, o_no_rebind fo]) \<le> 1"

definition host_prefix :: "bool \<Rightarrow> transport_type \<Rightarrow> string option \<Rightarrow> string" where
  "host_prefix reverse ttype serial =
     snprintf 64
       (if reverse then ''reverse''
        else case serial of
          Some s \<Rightarrow> ''host-serial:'' @ s
        | None \<Rightarrow> if ttype = kTransportUsb then ''host-usb'' else if ttype = kTransportLocal then ''host-local'' else ''host'')"

text \<open>The request of a command, \<open>None\<close> where the number of arguments is wrong.\<close>

definition forward_service :: "fwd_opts \<Rightarrow> string \<Rightarrow> string list \<Rightarrow> string option" where
  "forward_service fo prefix args =
     (if o_list fo then (if args = [] then Some (snprintf 4096 (prefix @ '':list-forward'')) else None)
      else if o_remove_all fo then (if args = [] then Some (snprintf 4096 (prefix @ '':killforward-all'')) else None)
      else if o_remove fo then
        (case args of [local] \<Rightarrow> Some (snprintf 4096 (prefix @ '':killforward:'' @ local)) | _ \<Rightarrow> None)
      else
        (case args of
           [local, remote] \<Rightarrow>
             Some (snprintf 4096 (prefix @ '':'' @ (if o_no_rebind fo then ''forward:norebind:'' else ''forward'') @
               '':'' @ local @ '';'' @ remote))
         | _ \<Rightarrow> None))"

definition forward_command :: "flags \<Rightarrow> string list \<Rightarrow> int cmd" where
  "forward_command fl argv =
     (case forward_opts (tl argv) \<lparr>o_list = False, o_remove = False, o_remove_all = False, o_no_rebind = False\<rparr> of
        None \<Rightarrow> usage
      | Some (fo, args) \<Rightarrow>
          if \<not> one_option fo then usage
          else case forward_service fo (host_prefix (hd argv = ''reverse'') (fl_ttype fl) (fl_serial fl)) args of
            None \<Rightarrow> usage
          | Some buf \<Rightarrow>
              if o_list fo then query_print buf [] []
              else cbind (on_c (adb_command buf)) (\<lambda>r. cret (if r \<noteq> 0 then 1 else 0)))"

section \<open>Files\<close>

text \<open>The leading options \<open>-p\<close> and \<open>-a\<close>, then up to two paths.\<close>

fun push_pull_opts :: "string list \<Rightarrow> bool \<Rightarrow> bool \<Rightarrow> string list \<times> bool \<times> bool" where
  "push_pull_opts [] show_progress copy_attrs = ([], show_progress, copy_attrs)"
| "push_pull_opts (a # as) show_progress copy_attrs =
     (if a = ''-p'' then push_pull_opts as True copy_attrs
      else if a = ''-a'' then push_pull_opts as show_progress True
      else (a # as, show_progress, copy_attrs))"

definition parse_push_pull_args ::
    "string list \<Rightarrow> string option \<Rightarrow> string option \<Rightarrow> string option \<times> string option \<times> bool \<times> bool" where
  "parse_push_pull_args arg path1 path2 =
     (let (paths, show_progress, copy_attrs) = push_pull_opts arg False False in
      (case paths of [] \<Rightarrow> path1 | p # _ \<Rightarrow> Some p,
       case paths of _ # p # _ \<Rightarrow> Some p | _ \<Rightarrow> path2, show_progress, copy_attrs))"

definition print_entries :: "(u32 \<times> u32 \<times> u32 \<times> string) list \<Rightarrow> string" where
  "print_entries es = concat (map (\<lambda>(mode, sz, time, name).
     pad_left 8 (CHR ''0'') (to_hex (unat mode)) @ '' '' @ pad_left 8 (CHR ''0'') (to_hex (unat sz)) @ '' '' @
     pad_left 8 (CHR ''0'') (to_hex (unat time)) @ '' '' @ name @ [CHR 0x0A]) es)"

definition ls_command :: "nat \<Rightarrow> string \<Rightarrow> int cmd" where
  "ls_command n path =
     cbind (on_c (\<lambda>c. ebind (do_sync_ls n path c) (\<lambda>(r, es, c). Inr ((r, es), c)))) (\<lambda>(r, es).
     cbind (printf (print_entries es)) (\<lambda>_. cret r))"

text \<open>Files of the directory for persistent applications go through systool on newer firmware.\<close>

definition persist_app :: "string \<Rightarrow> bool cmd" where
  "persist_app path = cbind pax_systool_sysver (\<lambda>v. cret (100 \<le> v \<and> strstr ''/data/resource/app/'' path))"

definition unlink_command :: "nat \<Rightarrow> docmd \<Rightarrow> flags \<Rightarrow> string \<Rightarrow> int cmd" where
  "unlink_command n docmd fl path =
     cbind (persist_app path) (\<lambda>b.
       if b then pax_tool_manage n docmd (fl_ttype fl) (fl_serial fl) ''systool'' [''systool'', ''remove'', ''persist-app'', path]
       else on_c (do_sync_unlink path))"

definition push_command :: "nat \<Rightarrow> docmd \<Rightarrow> flags \<Rightarrow> string list \<Rightarrow> int cmd" where
  "push_command n docmd fl args =
     (case parse_push_pull_args args None None of
        (Some lpath, Some rpath, show_progress, _) \<Rightarrow>
          cbind (persist_app rpath) (\<lambda>b.
            if b then pax_tool_manage n docmd (fl_ttype fl) (fl_serial fl) ''systool'' [''systool'', ''install'', ''persist-app'', lpath]
            else on_fs (do_sync_push n lpath rpath show_progress))
      | _ \<Rightarrow> usage)"

definition pull_command :: "nat \<Rightarrow> string list \<Rightarrow> int cmd" where
  "pull_command n args =
     (case parse_push_pull_args args None (Some ''.'') of
        (Some rpath, Some lpath, show_progress, copy_attrs) \<Rightarrow> on_both (do_sync_pull n n rpath lpath show_progress copy_attrs)
      | _ \<Rightarrow> usage)"

definition sync_dir :: "nat \<Rightarrow> bool \<Rightarrow> string option \<Rightarrow> string \<Rightarrow> int \<Rightarrow> int cmd" where
  "sync_dir n listonly dir rpath ret =
     (case dir of
        None \<Rightarrow> cret ret
      | Some d \<Rightarrow> if ret \<noteq> 0 then cret ret else on_fs (do_sync_sync n d rpath listonly))"

definition sync_command :: "nat \<Rightarrow> string list \<Rightarrow> int cmd" where
  "sync_command n args =
     (let go = (\<lambda>listonly srcarg.
        cbind (find_sync_dirs srcarg) (\<lambda>r.
          case r of
            None \<Rightarrow> usage
          | Some (android, data, vendor) \<Rightarrow>
              cbind (sync_dir n listonly android ''/system'' 0) (\<lambda>ret.
              cbind (sync_dir n listonly vendor ''/vendor'' ret) (sync_dir n listonly data ''/data''))))
      in case args of
           [] \<Rightarrow> go False None
         | a # as \<Rightarrow>
             if a = ''-l'' then go True (case as of [s] \<Rightarrow> Some s | _ \<Rightarrow> None)
             else if as = [] then go False (Some a)
             else usage)"

definition file_commands :: "nat \<Rightarrow> docmd \<Rightarrow> flags \<Rightarrow> string list \<Rightarrow> int cmd \<Rightarrow> int cmd" where
  "file_commands n docmd fl argv otherwise =
     (let a = hd argv; argc = length argv; ttype = fl_ttype fl; serial = fl_serial fl in
      if a = ''ls'' then (if argc \<noteq> 2 then usage else ls_command n (argv ! 1))
      else if a = ''syslog'' then (if argc \<noteq> 1 then usage else send_shellcommand n docmd ttype serial ''paxlog:system'')
      else if a = ''systool'' then (if argc < 2 then usage else pax_tool_manage n docmd ttype serial ''systool'' argv)
      else if a = ''puk'' then (if argc < 2 then usage else pax_tool_manage n docmd ttype serial ''puktools'' argv)
      else if a = ''sysver'' then (if argc \<noteq> 1 then usage else pax_sysver n docmd ttype serial)
      else if a = ''getappinfo'' then
        (if 2 < argc then usage
         else on_both (do_sync_pull n n ''/data/resource/public/appinfo.bin'' (if 2 \<le> argc then argv ! 1 else ''.'') False False))
      else if a = ''unlink'' then (if argc \<noteq> 2 then usage else unlink_command n docmd fl (argv ! 1))
      else if a = ''push'' then push_command n docmd fl (tl argv)
      else if a = ''pull'' then pull_command n (tl argv)
      else if a = ''install'' then (if argc < 2 then usage else install_app n docmd ttype serial argv)
      else if a = ''install-multiple'' then (if argc < 2 then usage else install_multiple_app argv)
      else if a = ''uninstall'' then (if argc < 2 then usage else uninstall_app n docmd ttype serial argv)
      else if a = ''sync'' then sync_command n (tl argv)
      else otherwise)"

section \<open>The whole command line\<close>

definition version_line :: string where
  "version_line = ''Android Debug Bridge version 1.0.'' @ show_int (int ADB_SERVER_VERSION) @ [CHR 0x0A]"

definition other_commands :: "nat \<Rightarrow> docmd \<Rightarrow> flags \<Rightarrow> string list \<Rightarrow> int cmd" where
  "other_commands n docmd fl argv =
     (let a = hd argv; argc = length argv; ttype = fl_ttype fl; serial = fl_serial fl in
      if a \<in> {''get-state'', ''get-serialno'', ''get-devpath''} then
        query_print (format_host_command 4096 a ttype serial) [] [CHR 0x0A]
      else if a = ''status-window'' then cbind (status_window n ttype serial) (\<lambda>_. cret 0)
      else if a \<in> {''logcat'', ''lolcat'', ''longcat''} then logcat n docmd ttype serial argv
      else if a = ''ppp'' then ppp argv
      else if a = ''start-server'' then k_connect ''host:start-server''
      else if a = ''backup'' then backup argv
      else if a = ''restore'' then restore argv
      else if a = ''keygen'' then (if argc < 2 then usage else (\<lambda>k. Inr (k_keygen k (argv ! 1), k)))
      else if a = ''jdwp'' then connect_and_dump ''jdwp'' (-1)
      else if a \<in> {''help'', ''/?''} then cret 0
      else if a = ''version'' then cbind (printf version_line) (\<lambda>_. cret 0)
      else usage)"

definition wait_service :: "transport_type \<Rightarrow> string \<Rightarrow> string" where
  "wait_service ttype a =
     (if starts_with ''wait-for-device'' a then
        (if ttype = kTransportUsb then ''wait-for-usb''
         else if ttype = kTransportLocal then ''wait-for-local'' else ''wait-for-any'')
      else a)"

text \<open>The commands from \<open>top\<close> on; a command may follow a wait.\<close>

fun run :: "nat \<Rightarrow> docmd \<Rightarrow> flags \<Rightarrow> string list \<Rightarrow> int cmd" where
  "run n docmd fl [] = usage"
| "run n docmd fl (a # as) =
     host_commands (a # as) (device_commands n docmd fl (a # as)
       (if starts_with ''wait-for-'' a then
          cbind (on_c (adb_command (format_host_command 4096 (wait_service (fl_ttype fl) a) (fl_ttype fl) (fl_serial fl)))) (\<lambda>r.
            if r \<noteq> 0 then cret 1 else if as = [] then cret 0 else run n docmd fl as)
        else if a \<in> {''forward'', ''reverse''} then forward_command fl (a # as)
        else file_commands n docmd fl (a # as) (other_commands n docmd fl (a # as))))"

text \<open>The process ends with a code, or goes on as the server.\<close>

datatype outcome = Code int | Serve bool int

text \<open>\<open>do_cmd\<close> on the arguments before the null pointer.\<close>

definition do_cmd :: "(string list \<Rightarrow> outcome cmd) \<Rightarrow> docmd" where
  "do_cmd commandline ttype serial args =
     (let target = (case serial of
                      Some s \<Rightarrow> [''-s'', s]
                    | None \<Rightarrow> if ttype = kTransportUsb then [''-d''] else if ttype = kTransportLocal then [''-e''] else [])
      in cbind (commandline (target @ args)) (\<lambda>r. cret (case r of Code c \<Rightarrow> c | Serve _ _ \<Rightarrow> 0)))"

definition env_value :: "shell \<Rightarrow> string \<Rightarrow> string option" where
  "env_value k name = (case k_env k name of Some (c # s) \<Rightarrow> Some (c # s) | _ \<Rightarrow> None)"

definition start_flags :: "shell \<Rightarrow> flags option" where
  "start_flags k =
     (let fl = \<lparr>fl_server = False, fl_no_daemon = False, fl_daemon = False, fl_persist = False,
                fl_ttype = kTransportAny, fl_serial = k_env k ''ANDROID_SERIAL'', fl_port = DEFAULT_ADB_PORT\<rparr>
      in case env_value k ''ANDROID_ADB_SERVER_PORT'' of
           None \<Rightarrow> Some fl
         | Some s \<Rightarrow> map_option (\<lambda>p. fl\<lparr>fl_port := p\<rparr>) (server_port s))"

text \<open>A command line runs another one at most two deep; the fuel also bounds the loops of the commands.\<close>

primrec adb_commandline :: "nat \<Rightarrow> string list \<Rightarrow> outcome cmd" where
  "adb_commandline 0 = (\<lambda>argv. cerr OutOfFuel)"
| "adb_commandline (Suc n) = (\<lambda>argv k.
     let k = k\<lparr>k_product := env_value k ''ANDROID_PRODUCT_OUT''\<rparr> in
     case start_flags k of
       None \<Rightarrow> Inr (Code 1, k)
     | Some fl \<Rightarrow>
         cbind (parse_flags argv fl) (\<lambda>r.
           case r of
             None \<Rightarrow> cret (Code 1)
           | Some (fl, args) \<Rightarrow>
               cbind (on_c (\<lambda>c. Inr ((), adb_set_tcp_specifics (fl_port fl) (adb_set_transport (fl_ttype fl) (fl_serial fl) c)))) (\<lambda>_.
                 if fl_server fl then
                   (if fl_no_daemon fl \<or> fl_daemon fl then cret (Serve (fl_daemon fl) (fl_port fl))
                    else cbind (on_c launch_server) (\<lambda>r. cret (Code r)))
                 else cbind (run n (do_cmd (adb_commandline n)) fl args) (\<lambda>r. cret (Code r)))) k)"

section \<open>Forwarding requests and the server\<close>

lemma starts_with_before:
  assumes "c \<notin> set p"
  shows "starts_with p (xs @ c # ys) \<longleftrightarrow> starts_with p xs"
proof (cases "length p \<le> length xs")
  case False
  then have "c \<in> set (take (length p) (xs @ c # ys))" by (cases "length p - length xs") auto
  then have "take (length p) (xs @ c # ys) \<noteq> p" using assms by metis
  moreover have "take (length p) xs \<noteq> p" using False by (metis length_take min.absorb_iff2 nle_le)
  ultimately show ?thesis by (simp add: starts_with_def)
qed (simp add: starts_with_def)

lemma forward_spec_names:
  assumes "local \<noteq> []" and "CHR '';'' \<notin> set local" and "\<not> starts_with ''norebind:'' local"
    and "remote \<noteq> []" and "hd remote \<noteq> CHR ''*''"
  shows "forward_spec (''forward:'' @ local @ '';'' @ remote) = Forward local remote False"
    and "forward_spec (''forward:norebind:'' @ '':'' @ local @ '';'' @ remote) = Forward ('':'' @ local) remote True"
proof -
  have n: "\<not> starts_with ''norebind:'' (local @ CHR '';'' # remote)" using assms(3) starts_with_before [of "CHR '';''" "''norebind:''"] by simp
  have c: "strchr (CHR '':'') (''forward:'' @ s) = Some ('':'' @ s)" for s by simp
  have k: "\<not> starts_with ''kill'' (''forward:'' @ s)" for s by (simp add: starts_with_def)
  show "forward_spec (''forward:'' @ local @ '';'' @ remote) = Forward local remote False"
    using assms n c [of "local @ '';'' @ remote"] k [of "local @ '';'' @ remote"] by (simp add: forward_spec_def)
  have "CHR '';'' \<notin> set ('':'' @ local)" using assms(2) by simp
  note u = strchr_append [OF this, of remote] upto_char_append [OF this, of remote]
  have s: "starts_with ''norebind:'' (''norebind::'' @ local @ '';'' @ remote)" by (simp add: starts_with_def)
  show "forward_spec (''forward:norebind:'' @ '':'' @ local @ '';'' @ remote) = Forward ('':'' @ local) remote True"
    using assms(4,5) u c [of "''norebind::'' @ local @ '';'' @ remote"] k [of "''norebind::'' @ local @ '';'' @ remote"] s
    by (simp add: forward_spec_def)
qed



end
