(* ===== verification/Adb_Auth.thy ===== *)
theory Adb_Auth
  imports Adb_Protocol
begin

text \<open>
  The keys of the host (adb\_auth\_host.c): generation of the key pair on the first start, the
  public key in the format of the device with the precomputed Montgomery constants, the user
  information at its end, the files it goes to, and the list of keys that \<open>adb_auth_init\<close>
  loads for \<open>adb_auth_nextkey\<close>.

  OpenSSL is a record of arguments: the arithmetic of \<open>BIGNUM\<close>s, which are natural numbers here,
  the generation of a key, the PEM encoding and base64. What the code relies on is
  \<open>openssl_doc\<close>. The environment, the files and the names of the host and the user are a state;
  where a call may fail, the state has whether it does.
\<close>

section \<open>OpenSSL and the host\<close>

type_synonym u64 = "64 word"

record rsa =
  r_n :: nat
  r_e :: nat
  r_d :: nat

record openssl =
  ossl_alloc :: bool
  ossl_generate :: rsa
  ossl_size :: "rsa \<Rightarrow> nat"
  ossl_set_bit :: "nat \<Rightarrow> nat \<Rightarrow> nat"
  ossl_mod_sqr :: "nat \<Rightarrow> nat \<Rightarrow> nat"
  ossl_div :: "nat \<Rightarrow> nat \<Rightarrow> nat \<times> nat"
  ossl_mod_inverse :: "nat \<Rightarrow> nat \<Rightarrow> nat"
  ossl_get_word :: "nat \<Rightarrow> u64"
  ossl_pem_write :: "rsa \<Rightarrow> bytes option"
  ossl_pem_read :: "bytes \<Rightarrow> rsa option"
  ossl_base64 :: "bytes \<Rightarrow> bytes"

text \<open>The documented behaviour: \<open>RSA_size\<close> is the size of the modulus in bytes, quotient and
  remainder, the square modulo a number, the inverse where there is one, the value of a number
  that fits into a word, and that a key is read back from its PEM encoding.\<close>

definition openssl_doc :: "openssl \<Rightarrow> bool" where
  "openssl_doc os \<longleftrightarrow>
     (\<forall>k. r_n k < 256 ^ ossl_size os k) \<and>
     (\<forall>i. ossl_set_bit os 0 i = 2 ^ i) \<and>
     (\<forall>a m. 0 < m \<longrightarrow> ossl_mod_sqr os a m = a ^ 2 mod m) \<and>
     (\<forall>a m. 0 < m \<longrightarrow> ossl_div os a m = (a div m, a mod m)) \<and>
     (\<forall>a m. 1 < m \<and> coprime a m \<longrightarrow> ossl_mod_inverse os a m < m \<and> a * ossl_mod_inverse os a m mod m = 1) \<and>
     (\<forall>a. a < 2 ^ 64 \<longrightarrow> ossl_get_word os a = of_nat a) \<and>
     (\<forall>k bs. ossl_pem_write os k = Some bs \<longrightarrow> ossl_pem_read os bs = Some k)"

text \<open>\<open>h_mkdir\<close> and \<open>h_create\<close> say where a directory and a file can be created; \<open>h_login\<close> is
  \<open>None\<close> where \<open>getlogin_r\<close> returns an error number.\<close>

record host =
  h_env :: "string \<Rightarrow> string option"
  h_files :: "string \<rightharpoonup> bytes"
  h_dirs :: "string list"
  h_mkdir :: "string \<Rightarrow> bool"
  h_create :: "string \<Rightarrow> bool"
  h_hostname :: "string option"
  h_login :: "string option"

definition stat :: "string \<Rightarrow> host \<Rightarrow> bool" where
  "stat path h \<longleftrightarrow> path \<in> set (h_dirs h) \<or> h_files h path \<noteq> None"

section \<open>The public key\<close>

definition RSANUMBYTES :: nat where "RSANUMBYTES = 256"
definition RSANUMWORDS :: nat where "RSANUMWORDS = RSANUMBYTES div 4"

record RSAPublicKey =
  pk_len :: u32
  pk_n0inv :: u32
  pk_n :: "u32 list"
  pk_rr :: "u32 list"
  pk_exponent :: u32

text \<open>The loop over the words: the words of \<open>rr\<close> and the words of \<open>n\<close>.\<close>

fun key_words :: "openssl \<Rightarrow> nat \<Rightarrow> nat \<Rightarrow> nat \<Rightarrow> nat \<Rightarrow> u32 list \<times> u32 list" where
  "key_words os r32 0 rr n = ([], [])"
| "key_words os r32 (Suc i) rr n =
     (let (rr, rem_rr) = ossl_div os rr r32;
          (n, rem_n) = ossl_div os n r32;
          (rrs, ns) = key_words os r32 i rr n
      in (ucast (ossl_get_word os rem_rr) # rrs, ucast (ossl_get_word os rem_n) # ns))"

definition RSA_to_RSAPublicKey :: "openssl \<Rightarrow> rsa \<Rightarrow> RSAPublicKey option" where
  "RSA_to_RSAPublicKey os rsa =
     (if ossl_size os rsa \<noteq> RSANUMBYTES then None
      else
        let r32 = ossl_set_bit os 0 32;
            n = r_n rsa;
            r = ossl_set_bit os 0 (RSANUMWORDS * 32);
            rr = ossl_mod_sqr os r n;
            (_, rem) = ossl_div os n r32;
            n0inv = ossl_mod_inverse os rem r32;
            (rrs, ns) = key_words os r32 RSANUMWORDS rr n
        in Some \<lparr>pk_len = of_nat RSANUMWORDS, pk_n0inv = ucast (0 - ossl_get_word os n0inv),
                 pk_n = ns, pk_rr = rrs, pk_exponent = ucast (ossl_get_word os (r_e rsa))\<rparr>)"

text \<open>The bytes of the structure.\<close>

definition enc_pubkey :: "RSAPublicKey \<Rightarrow> bytes" where
  "enc_pubkey pk = put32 (pk_len pk) @ put32 (pk_n0inv pk) @ concat (map put32 (pk_n pk)) @
     concat (map put32 (pk_rr pk)) @ put32 (pk_exponent pk)"

section \<open>Key files\<close>

text \<open>\<open>getlogin_r\<close> returns a positive number on failure, which is not below zero: the name is
  then read although nothing has been written to it.\<close>

definition get_user_info :: "nat \<Rightarrow> host \<Rightarrow> err + string" where
  "get_user_info len h =
     (let hostname = (case h_env h ''HOSTNAME'' of
            Some v \<Rightarrow> take 1023 v
          | None \<Rightarrow> (case h_hostname h of Some v \<Rightarrow> v | None \<Rightarrow> ''unknown''))
      in ebind (case h_env h ''LOGNAME'' of
                  Some v \<Rightarrow> Inr (take 1023 v)
                | None \<Rightarrow> (case h_login h of Some v \<Rightarrow> Inr v | None \<Rightarrow> Inl Uninitialised))
           (\<lambda>username. Inr (snprintf len ('' '' @ username @ ''@'' @ hostname))))"

definition write_public_keyfile :: "openssl \<Rightarrow> rsa \<Rightarrow> string \<Rightarrow> host \<Rightarrow> err + (bool \<times> host)" where
  "write_public_keyfile os private_key private_key_path h =
     (let path = private_key_path @ ''.pub'' in
      if PATH_MAX \<le> length path then Inr (False, h)
      else case RSA_to_RSAPublicKey os private_key of
             None \<Rightarrow> Inr (False, h)
           | Some pkey \<Rightarrow>
               if \<not> h_create h path then Inr (False, h)
               else ebind (get_user_info MAX_PAYLOAD h) (\<lambda>info.
                 Inr (True, h\<lparr>h_files := (h_files h)(path \<mapsto> ossl_base64 os (enc_pubkey pkey) @ info)\<rparr>)))"

definition generate_key :: "openssl \<Rightarrow> string \<Rightarrow> host \<Rightarrow> err + (bool \<times> host)" where
  "generate_key os file h =
     (if \<not> ossl_alloc os then Inr (False, h)
      else
        let rsa = ossl_generate os in
        if \<not> h_create h file then Inr (False, h)
        else case ossl_pem_write os rsa of
               None \<Rightarrow> Inr (False, h\<lparr>h_files := (h_files h)(file \<mapsto> [])\<rparr>)
             | Some pem \<Rightarrow> write_public_keyfile os rsa file (h\<lparr>h_files := (h_files h)(file \<mapsto> pem)\<rparr>))"

definition read_key :: "openssl \<Rightarrow> string \<Rightarrow> host \<Rightarrow> rsa option" where
  "read_key os file h = (case h_files h file of None \<Rightarrow> None | Some pem \<Rightarrow> ossl_pem_read os pem)"

text \<open>The whole path is returned; the caller compares its length with the size of its buffer.\<close>

definition get_user_keyfilepath :: "host \<Rightarrow> string option \<times> host" where
  "get_user_keyfilepath h =
     (case h_env h ''HOME'' of
        None \<Rightarrow> (None, h)
      | Some home \<Rightarrow>
          let android_dir = home @ ''/'' @ ''.android'';
              filename = android_dir @ ''/'' @ ''adbkey''
          in if PATH_MAX \<le> length android_dir then (None, h)
             else if stat android_dir h then (Some filename, h)
             else if h_mkdir h android_dir then (Some filename, h\<lparr>h_dirs := android_dir # h_dirs h\<rparr>)
             else (None, h))"

definition get_user_key :: "openssl \<Rightarrow> host \<Rightarrow> err + (rsa option \<times> host)" where
  "get_user_key os h =
     (case get_user_keyfilepath h of
        (None, h) \<Rightarrow> Inr (None, h)
      | (Some path, h) \<Rightarrow>
          if PATH_MAX \<le> length path then Inr (None, h)
          else ebind (if stat path h then Inr (True, h) else generate_key os path h) (\<lambda>(r, h).
            if \<not> r then Inr (None, h) else Inr (read_key os path h, h)))"

text \<open>\<open>strncpy\<close> leaves a list of \<open>MAX_PAYLOAD\<close> characters or more without its end, which
  \<open>strtok_r\<close> then looks for behind the buffer.\<close>

definition get_vendor_keys :: "openssl \<Rightarrow> host \<Rightarrow> err + rsa list" where
  "get_vendor_keys os h =
     (case h_env h ''ADB_VENDOR_KEYS'' of
        None \<Rightarrow> Inr []
      | Some v \<Rightarrow>
          if MAX_PAYLOAD \<le> length v then Inl OutOfBounds
          else Inr (List.map_filter (\<lambda>path. if stat path h then read_key os path h else None)
                 (tokens_from CHR '':'' [] v)))"

definition adb_auth_init :: "openssl \<Rightarrow> host \<Rightarrow> err + (rsa list \<times> host)" where
  "adb_auth_init os h =
     ebind (get_user_key os h) (\<lambda>(r, h).
       case r of
         None \<Rightarrow> Inr ([], h)
       | Some key \<Rightarrow> ebind (get_vendor_keys os h) (\<lambda>keys. Inr (key # keys, h)))"

definition adb_auth_keygen :: "openssl \<Rightarrow> string \<Rightarrow> host \<Rightarrow> err + (int \<times> host)" where
  "adb_auth_keygen os filename h =
     ebind (generate_key os filename h) (\<lambda>(r, h). Inr (if r then 0 else 1, h))"

text \<open>The public key that \<open>adb_auth_get_userkey\<close> loads; the directory may be created again.\<close>

definition load_userkey :: "host \<Rightarrow> bytes option \<times> host" where
  "load_userkey h =
     (case get_user_keyfilepath h of
        (None, h) \<Rightarrow> (None, h)
      | (Some path, h) \<Rightarrow> if PATH_MAX - 4 \<le> length path then (None, h) else (h_files h (path @ ''.pub''), h))"

section \<open>The Montgomery constants\<close>

text \<open>The number that a little-endian array of words stands for.\<close>

primrec words_val :: "u32 list \<Rightarrow> nat" where
  "words_val [] = 0"
| "words_val (w # ws) = unat w + 2 ^ 32 * words_val ws"

lemma opensslD:
  assumes "openssl_doc os"
  shows "r_n k < 256 ^ ossl_size os k" "ossl_set_bit os 0 i = 2 ^ i" "0 < m \<Longrightarrow> ossl_mod_sqr os a m = a ^ 2 mod m"
    "0 < m \<Longrightarrow> ossl_div os a m = (a div m, a mod m)"
    "1 < m \<Longrightarrow> coprime a m \<Longrightarrow> ossl_mod_inverse os a m < m \<and> a * ossl_mod_inverse os a m mod m = 1"
    "a < 2 ^ 64 \<Longrightarrow> ossl_get_word os a = of_nat a"
    "ossl_pem_write os k = Some bs \<Longrightarrow> ossl_pem_read os bs = Some k"
  using assms unfolding openssl_doc_def by blast+

lemma word32_of_number:
  assumes "openssl_doc os" and "a < 2 ^ 32"
  shows "unat (ucast (ossl_get_word os a) :: u32) = a"
proof -
  have "ossl_get_word os a = of_nat a" using opensslD(6) [OF assms(1), of a] assms(2) by simp
  then show ?thesis using assms(2) by (simp add: unsigned_of_nat take_bit_nat_eq_self)
qed

lemma key_words_val:
  assumes "openssl_doc os"
  shows "words_val (fst (key_words os (2 ^ 32) i rr n)) = rr mod 2 ^ (32 * i) \<and>
    words_val (snd (key_words os (2 ^ 32) i rr n)) = n mod 2 ^ (32 * i) \<and>
    length (fst (key_words os (2 ^ 32) i rr n)) = i \<and> length (snd (key_words os (2 ^ 32) i rr n)) = i"
proof (induction i arbitrary: rr n)
  case 0
  then show ?case by simp
next
  case (Suc i)
  have split: "x mod 2 ^ 32 + 2 ^ 32 * (x div 2 ^ 32 mod 2 ^ (32 * i)) = x mod 2 ^ (32 * Suc i)" for x :: nat
    using mod_mult2_eq [of x "2 ^ 32" "2 ^ (32 * i)"] by (simp add: power_add)
  have div32: "ossl_div os x (2 ^ 32) = (x div 2 ^ 32, x mod 2 ^ 32)" for x by (rule opensslD(4) [OF assms]) simp
  have low: "unat (ucast (ossl_get_word os (x mod 2 ^ 32)) :: u32) = x mod 2 ^ 32" for x
    by (rule word32_of_number [OF assms]) simp
  show ?case
    using Suc.IH [of "rr div 2 ^ 32" "n div 2 ^ 32"] split [of rr] split [of n]
    by (simp only: key_words.simps div32 Let_def case_prod_beta fst_conv snd_conv words_val.simps low list.size add_Suc_right add_0_right simp_thms)
qed

text \<open>The negated inverse of the lowest word, computed on 64 bits and cut to 32.\<close>

lemma n0inv_val:
  assumes os: "openssl_doc os" and "x < 2 ^ 32" "n mod 2 ^ 32 * x mod 2 ^ 32 = 1"
  shows "unat (ucast (0 - ossl_get_word os x) :: u32) * n mod 2 ^ 32 = 2 ^ 32 - 1"
proof -
  let ?v = "ucast (0 - ossl_get_word os x) :: u32"
  have "ossl_get_word os x = of_nat x" using opensslD(6) [OF os, of x] assms(2) by simp
  moreover have "(ucast (0 - of_nat x :: u64) :: u32) = - of_nat x" by transfer simp
  ultimately have v: "?v = - of_nat x" by simp
  have "(of_nat (n * x) :: u32) = of_nat 1"
    by (rule iffD2 [OF word_of_nat_eq_iff]) (use assms(3) in \<open>simp add: take_bit_eq_mod mod_mult_left_eq\<close>)
  then have "?v * of_nat n = - 1" unfolding v by (simp add: mult.commute)
  then have "(of_nat (unat ?v * n) :: u32) = of_nat (2 ^ 32 - 1)" by simp
  from iffD1 [OF word_of_nat_eq_iff this] show ?thesis by (simp add: take_bit_eq_mod)
qed

text \<open>C10: The public key that is written for the device has the modulus, the square of the
  Montgomery radix modulo the modulus, and the negated inverse of the modulus modulo the word
  size, which are the constants a Montgomery multiplication needs.\<close>

theorem pubkey_montgomery:
  assumes os: "openssl_doc os" and "ossl_size os k = RSANUMBYTES" and "odd (r_n k)" and "r_e k < 2 ^ 31"
  shows "\<exists>pk. RSA_to_RSAPublicKey os k = Some pk \<and> length (pk_n pk) = RSANUMWORDS \<and> length (pk_rr pk) = RSANUMWORDS \<and>
    words_val (pk_n pk) = r_n k \<and> words_val (pk_rr pk) = (2 ^ (32 * RSANUMWORDS)) ^ 2 mod r_n k \<and>
    unat (pk_n0inv pk) * r_n k mod 2 ^ 32 = 2 ^ 32 - 1 \<and> unat (pk_exponent pk) = r_e k"
proof -
  let ?n = "r_n k" and ?R = "2 ^ (32 * RSANUMWORDS) :: nat"
  have size: "(256 :: nat) ^ RSANUMBYTES = ?R"
    by (simp add: RSANUMWORDS_def RSANUMBYTES_def power_mult [symmetric] flip: power_mult [of 2 8 256, simplified])
  have n: "0 < ?n" "?n < ?R"
    using assms(3) opensslD(1) [OF os, of k] assms(2) size by (auto intro: odd_pos)
  obtain rrs ns where w: "key_words os (2 ^ 32) RSANUMWORDS (?R ^ 2 mod ?n) ?n = (rrs, ns)" by fastforce
  have words: "words_val ns = ?n" "words_val rrs = ?R ^ 2 mod ?n" "length rrs = RSANUMWORDS" "length ns = RSANUMWORDS"
    using key_words_val [OF os, of RSANUMWORDS "?R ^ 2 mod ?n" ?n] n less_trans [OF mod_less_divisor [OF n(1)] n(2), of "?R ^ 2"]
    unfolding w by simp_all
  have "coprime ?n (2 ^ 32)" using assms(3) unfolding coprime_power_right_iff coprime_right_2_iff_odd by simp
  then have "coprime (?n mod 2 ^ 32) (2 ^ 32)" using coprime_mod_left_iff [of "2 ^ 32" ?n] by simp
  then have "ossl_mod_inverse os (?n mod 2 ^ 32) (2 ^ 32) < 2 ^ 32"
    "?n mod 2 ^ 32 * ossl_mod_inverse os (?n mod 2 ^ 32) (2 ^ 32) mod 2 ^ 32 = 1"
    using opensslD(5) [OF os, of "2 ^ 32" "?n mod 2 ^ 32"] by auto
  note inv = n0inv_val [OF os this]
  have e: "unat (ucast (ossl_get_word os (r_e k)) :: u32) = r_e k"
    by (rule word32_of_number [OF os]) (use assms(4) in simp)
  have "RSA_to_RSAPublicKey os k = Some \<lparr>pk_len = of_nat RSANUMWORDS,
      pk_n0inv = ucast (0 - ossl_get_word os (ossl_mod_inverse os (?n mod 2 ^ 32) (2 ^ 32))),
      pk_n = ns, pk_rr = rrs, pk_exponent = ucast (ossl_get_word os (r_e k))\<rparr>"
    using w n(1) assms(2) unfolding RSA_to_RSAPublicKey_def opensslD(2) [OF os]
    by (simp add: opensslD(3,4) [OF os] mult.commute)
  then show ?thesis using words inv e by simp
qed

section \<open>The first start\<close>

lemma get_user_info_env:
  assumes "h_env h ''LOGNAME'' = Some user" "h_env h ''HOSTNAME'' = Some name" "length user < 1024" "length name < 1024"
  shows "get_user_info MAX_PAYLOAD h = Inr ('' '' @ user @ ''@'' @ name)"
  using assms by (simp add: get_user_info_def snprintf_def MAX_PAYLOAD_def)

lemma keyfilepath_ready:
  assumes "h_env h ''HOME'' = Some home" "length home + 20 < PATH_MAX"
    and "stat (home @ ''/.android'') h \<or> h_mkdir h (home @ ''/.android'')"
  shows "\<exists>h1. get_user_keyfilepath h = (Some (home @ ''/.android/adbkey''), h1) \<and> h_env h1 = h_env h \<and>
    h_files h1 = h_files h \<and> h_create h1 = h_create h \<and> set (h_dirs h1) \<subseteq> insert (home @ ''/.android'') (set (h_dirs h)) \<and>
    stat (home @ ''/.android'') h1"
  using assms by (auto simp: get_user_keyfilepath_def stat_def Let_def PATH_MAX_def)

lemma keyfilepath_again:
  assumes "h_env h ''HOME'' = Some home" "length home + 20 < PATH_MAX" "stat (home @ ''/.android'') h"
  shows "get_user_keyfilepath h = (Some (home @ ''/.android/adbkey''), h)"
  using assms by (simp add: get_user_keyfilepath_def Let_def PATH_MAX_def)


section \<open>An instance\<close>

fun num_bytes :: "nat \<Rightarrow> nat" where
  "num_bytes n = (if n = 0 then 0 else Suc (num_bytes (n div 256)))"

declare num_bytes.simps [simp del]

lemma num_bytes_bound: "n < 256 ^ num_bytes n"
proof (induction n rule: num_bytes.induct)
  case (1 n)
  show ?case
  proof (cases "n = 0")
    case False
    then have "n div 256 < 256 ^ num_bytes (n div 256)" using 1 by simp
    then have "n < 256 ^ Suc (num_bytes (n div 256))" by (simp add: div_less_iff_less_mult mult.commute)
    then show ?thesis using False by (subst num_bytes.simps) simp
  qed (simp add: num_bytes.simps)
qed

lemma num_bytes_eq: "256 ^ k \<le> n \<Longrightarrow> n < 256 ^ Suc k \<Longrightarrow> num_bytes n = Suc k"
proof (induction k arbitrary: n)
  case 0
  then show ?case by (simp add: num_bytes.simps [of n] num_bytes.simps [of 0])
next
  case (Suc k)
  have "256 ^ k \<le> n div 256" "n div 256 < 256 ^ Suc k"
    using Suc.prems by (simp_all add: less_eq_div_iff_mult_less_eq div_less_iff_less_mult mult.commute)
  moreover have "n \<noteq> 0" using Suc.prems(1) by (cases n) auto
  ultimately show ?case using Suc.IH by (subst num_bytes.simps) simp
qed

definition sample_rsa :: rsa where
  "sample_rsa = \<lparr>r_n = 2 ^ 2047 + 1, r_e = 65537, r_d = 3\<rparr>"

definition sample_openssl :: openssl where
  "sample_openssl = \<lparr>ossl_alloc = True, ossl_generate = sample_rsa, ossl_size = (\<lambda>k. num_bytes (r_n k)),
     ossl_set_bit = (\<lambda>a i. if odd (a div 2 ^ i) then a else a + 2 ^ i),
     ossl_mod_sqr = (\<lambda>a m. a ^ 2 mod m), ossl_div = (\<lambda>a m. (a div m, a mod m)),
     ossl_mod_inverse = (\<lambda>a m. nat (fst (bezw a m) mod int m)), ossl_get_word = of_nat,
     ossl_pem_write = (\<lambda>k. if k = sample_rsa then Some ''PEM'' else None),
     ossl_pem_read = (\<lambda>bs. if bs = ''PEM'' then Some sample_rsa else None), ossl_base64 = (\<lambda>bs. bs)\<rparr>"

lemma bezw_inverse:
  assumes "1 < m" and "coprime a m"
  shows "nat (fst (bezw a m) mod int m) < m" "a * nat (fst (bezw a m) mod int m) mod m = 1"
proof -
  let ?x = "fst (bezw a m) mod int m"
  have x: "0 \<le> ?x" "?x < int m" using assms(1) by simp_all
  then show "nat ?x < m" by linarith
  have "int a * ?x mod int m = fst (bezw a m) * int a mod int m" by (simp add: mod_mult_right_eq mult.commute)
  also have "\<dots> = (fst (bezw a m) * int a + snd (bezw a m) * int m) mod int m" by simp
  also have "\<dots> = 1" using bezw_aux [of a m] assms by simp
  finally have "int (a * nat ?x mod m) = int 1" using x(1) by (simp add: zmod_int)
  then show "a * nat ?x mod m = 1" by simp
qed

lemma sample_openssl_doc: "openssl_doc sample_openssl"
  unfolding openssl_doc_def
  by (simp add: sample_openssl_def num_bytes_bound bezw_inverse split: if_splits)

lemma sample_size: "ossl_size sample_openssl sample_rsa = RSANUMBYTES"
proof -
  have "(256 :: nat) ^ 255 = 2 ^ 2040" "(256 :: nat) ^ Suc 255 = 2 ^ 2048" by simp_all
  then have "num_bytes (2 ^ 2047 + 1) = Suc 255" by (intro num_bytes_eq) simp_all
  then show ?thesis by (simp add: sample_openssl_def sample_rsa_def RSANUMBYTES_def)
qed

definition sample_host :: host where
  "sample_host = \<lparr>h_env = [''HOME'' \<mapsto> ''/root'', ''LOGNAME'' \<mapsto> ''ann'', ''HOSTNAME'' \<mapsto> ''pos''], h_files = Map.empty,
     h_dirs = [], h_mkdir = (\<lambda>_. True), h_create = (\<lambda>_. True), h_hostname = None, h_login = None\<rparr>"

theorem pubkey_montgomery_witness:
  "\<exists>pk. RSA_to_RSAPublicKey sample_openssl sample_rsa = Some pk \<and> words_val (pk_n pk) = 2 ^ 2047 + 1 \<and>
    unat (pk_n0inv pk) * (2 ^ 2047 + 1) mod 2 ^ 32 = 2 ^ 32 - 1 \<and> unat (pk_exponent pk) = 65537"
proof -
  have "odd (r_n sample_rsa)" "r_e sample_rsa < 2 ^ 31" "r_n sample_rsa = 2 ^ 2047 + 1" "r_e sample_rsa = 65537"
    by (simp_all add: sample_rsa_def)
  then show ?thesis using pubkey_montgomery [OF sample_openssl_doc sample_size] by metis
qed


end
