(* ===== verification/Adb_Server.thy ===== *)
theory Adb_Server
  imports Adb_Smart Adb_Auth
begin

text \<open>
  The server as a whole: its start (\<open>adb_main\<close> up to the event loop, with \<open>usb_init\<close> and
  \<open>local_init\<close>), and the event loop as a step relation. A step is one callback of an event
  record, one request of a client that changes the forwards, one packet that the output thread of a
  transport posts, or the registration of a device by the thread that polls the USB bus.

  The conditions of a step are what the rest of the program guarantees of it. Events on a socket
  whose peer is a smart socket or a tracker are no step here.
\<close>

section \<open>The start\<close>

definition build_local_name :: "nat \<Rightarrow> int \<Rightarrow> string" where
  "build_local_name len server_port = snprintf len (''tcp:'' @ show_int server_port)"

definition usb_init :: "world \<Rightarrow> err + world" where
  "usb_init w =
     ebind (adb_thread_create w) (\<lambda>(r, w). if r then Inr w else Inl (Fatal ''cannot create input thread''))"

text \<open>One turn of the endless loop of \<open>server_socket_thread\<close>, with its \<open>serverfd\<close>. The thread is
  chosen where \<open>HOST\<close> is 0, so never by \<open>adb_main\<close>.\<close>

definition server_socket_turn :: "int \<Rightarrow> int \<Rightarrow> world \<Rightarrow> err + (int \<times> world)" where
  "server_socket_turn port serverfd w =
     ebind (if serverfd = -1 then open_fd w else Inr (Some serverfd, w)) (\<lambda>(s, w).
       case s of
         None \<Rightarrow> Inr (-1, w)
       | Some serverfd \<Rightarrow>
           ebind (open_fd w) (\<lambda>(fd, w).
             case fd of
               None \<Rightarrow> Inr (serverfd, w)
             | Some fd \<Rightarrow> ebind (register_socket_transport fd ''host'' port True w) (\<lambda>(_, w). Inr (serverfd, w))))"

definition local_init :: "world \<Rightarrow> err + world" where
  "local_init w =
     ebind (adb_thread_create w) (\<lambda>(r, w).
       if r then Inr w
       else Inl (Fatal (''cannot create local socket '' @ (if w_HOST w then ''client'' else ''server'') @ '' thread'')))"

text \<open>The nodes of the keys are allocated one after the other.\<close>

definition install_keys :: "rsa list \<Rightarrow> world \<Rightarrow> world" where
  "install_keys keys w =
     w\<lparr>w_key_list := [w_next w ..< w_next w + length keys], w_next := w_next w + length keys\<rparr>"

text \<open>The path of the vendor file: the result is 1 where it does not fit into the buffer.\<close>

definition ANDROID_PATH :: string where "ANDROID_PATH = ''.android''"
definition ANDROID_ADB_INI :: string where "ANDROID_ADB_INI = ''adb_usb.ini''"

definition build_path :: "nat \<Rightarrow> string \<Rightarrow> int \<times> string" where
  "build_path len home =
     (let path = home @ ''/'' @ ANDROID_PATH @ ''/'' @ ANDROID_ADB_INI
      in (if len \<le> length path then 1 else 0, snprintf len path))"

definition get_adb_usb_ini :: "nat \<Rightarrow> host \<Rightarrow> int \<times> string" where
  "get_adb_usb_ini len h = build_path len (case h_env h ''HOME'' of None \<Rightarrow> ''/tmp'' | Some home \<Rightarrow> home)"

definition vendor_file :: "host \<Rightarrow> bytes option" where
  "vendor_file h = (case get_adb_usb_ini PATH_MAX h of (r, path) \<Rightarrow> if r = 0 then h_files h path else None)"

text \<open>\<open>adb_main\<close> up to \<open>fdevent_loop\<close>: the vendor numbers, the files of the host and the state.
  \<open>bad\<close> says whether \<open>errno\<close> holds an error of \<open>strtol\<close> before.\<close>

definition adb_main :: "openssl \<Rightarrow> bool \<Rightarrow> int \<Rightarrow> host \<Rightarrow> world \<Rightarrow> err + (int list \<times> host \<times> world)" where
  "adb_main os bad server_port h w =
     ebind (init_transport_registration w) (\<lambda>w.
     let w = w\<lparr>w_HOST := True\<rparr> in
     ebind (usb_vendors_init bad (vendor_file h)) (\<lambda>vendorIds.
     ebind (usb_init w) (\<lambda>w.
     ebind (local_init w) (\<lambda>w.
     ebind (adb_auth_init os h) (\<lambda>(keys, h).
     ebind (install_listener (build_local_name 30 server_port) ''*smartsocket*'' None False (install_keys keys w)) (\<lambda>(st, w).
       if st \<noteq> INSTALL_STATUS_OK then Inl (Exited 1) else Inr (vendorIds, h, w)))))))"

text \<open>The state before: nothing is allocated, and the results of the system calls are open.\<close>

definition boot :: "(int \<Rightarrow> wres list) \<Rightarrow> (int \<Rightarrow> rres list) \<Rightarrow> int list \<Rightarrow> bool list \<Rightarrow> world" where
  "boot ws rs newfds newthreads = \<lparr>w_HOST = False, w_auth_enabled = False, w_socks = Map.empty, w_trans = Map.empty,
     w_listeners = Map.empty, w_next = 0, w_local = [], w_closing = [], w_next_id = 1, w_socket_list_lock = False,
     w_transport_list = [], w_pending_list = [], w_transport_lock = False, w_trackers = [], w_listener_list = [],
     w_local_transports = replicate 64 None, w_local_transports_lock = False, w_registration_send = 0, w_tmsgs = [],
     w_usbs = Map.empty, w_handle_list = [], w_usb_lock = False, w_key_list = [], w_fdev = fdev_init,
     w_ws = ws, w_rs = rs, w_out = (\<lambda>_. []), w_newfds = newfds, w_newthreads = newthreads, w_log = []\<rparr>"

section \<open>Steps\<close>

datatype event =
    Packet_posted addr apacket
  | Transport_ready addr int u16
  | Stream_ready addr int u16
  | Client_waiting u16
  | Forward_waiting addr u16
  | Registration int u16
  | Forward string string addr bool
  | Unforward string
  | Unforward_all
  | Usb_device addr string "string option" bool

definition handle :: "enqueue_op \<Rightarrow> auth_env \<Rightarrow> event \<Rightarrow> world \<Rightarrow> err + world" where
  "handle smart env e w =
     (case e of
        Packet_posted t p \<Rightarrow> ebind (post_packet t p w) (\<lambda>(_, w). Inr w)
      | Transport_ready t fd ev \<Rightarrow> transport_socket_events smart env t fd ev w
      | Stream_ready a fd ev \<Rightarrow> local_socket_event_func smart a fd ev w
      | Client_waiting ev \<Rightarrow> ss_listener_event_func smart ev w
      | Forward_waiting l ev \<Rightarrow> listener_event_func l ev w
      | Registration fd ev \<Rightarrow> transport_registration_func smart fd ev w
      | Forward local_name connect_to t no_rebind \<Rightarrow>
          ebind (install_listener local_name connect_to (Some t) no_rebind w) (\<lambda>(_, w). Inr w)
      | Unforward local_name \<Rightarrow> ebind (remove_listener local_name w) (\<lambda>(_, w). Inr w)
      | Unforward_all \<Rightarrow> remove_all_listeners w
      | Usb_device usb serial devpath writeable \<Rightarrow> register_usb_transport usb (Some serial) devpath writeable w)"

text \<open>What holds of the first message in the registration socket: a new transport waits on the
  list of pending ones and nothing refers to it yet, and a transport that is removed is on one
  list and has its event record.\<close>

definition message_ok :: "world \<Rightarrow> addr \<times> nat \<Rightarrow> bool" where
  "message_ok w m =
     (case m of (t, action) \<Rightarrow>
        distinct (w_transport_list w) \<and> w_trans w t \<noteq> None \<and>
        (if action = 0 then (t \<in> set (w_transport_list w) \<or> t \<in> set (w_pending_list w)) \<and> owned (w_fdev w) (FTransport t)
         else t \<in> set (w_pending_list w) \<and> t \<notin> set (w_transport_list w) \<and> w_dis w t = Some [] \<and>
              \<not> owned (w_fdev w) (FTransport t)))"

text \<open>A packet that \<open>remote_read\<close> has accepted, with a terminated banner.\<close>

definition accepted :: "apacket \<Rightarrow> bool" where
  "accepted p \<longleftrightarrow> arrived p \<and> (m_command (p_msg p) = A_CNXN \<longrightarrow> NUL \<in> set (p_data p))"

definition admissible :: "event \<Rightarrow> world \<Rightarrow> bool" where
  "admissible e w =
     (case e of
        Packet_posted t p \<Rightarrow> w_trans w t \<noteq> None
      | Transport_ready t fd ev \<Rightarrow>
          (case w_trans w t of
             None \<Rightarrow> False
           | Some x \<Rightarrow> (case t_from_remote x of [] \<Rightarrow> True | p # _ \<Rightarrow> accepted p))
      | Stream_ready a fd ev \<Rightarrow> streaming w a
      | Client_waiting ev \<Rightarrow> True
      | Forward_waiting l ev \<Rightarrow> (case w_listeners w l of None \<Rightarrow> False | Some x \<Rightarrow> l_transport x \<noteq> None)
      | Registration fd ev \<Rightarrow> (case w_tmsgs w of [] \<Rightarrow> True | m # _ \<Rightarrow> message_ok w m)
      | Forward local_name connect_to t no_rebind \<Rightarrow> w_trans w t \<noteq> None
      | Unforward local_name \<Rightarrow> True
      | Unforward_all \<Rightarrow> True
      | Usb_device usb serial devpath writeable \<Rightarrow> w_trans w (w_next w) = None)"

text \<open>The states that the server reaches, and the signatures are no longer than a packet.\<close>

inductive reach :: "enqueue_op \<Rightarrow> auth_env \<Rightarrow> world \<Rightarrow> bool" for smart :: enqueue_op and env :: auth_env where
  start: "\<lbrakk>\<forall>fd \<in> set newfds. fd < int FD_LIMIT; adb_main os bad server_port h (boot ws rs newfds newthreads) = Inr (vendorIds, h', w)\<rbrakk>
    \<Longrightarrow> reach smart env w"
| step: "\<lbrakk>reach smart env w; admissible e w; handle smart env e w = Inr w'\<rbrakk> \<Longrightarrow> reach smart env w'"

inductive_cases reachE: "reach smart env w"

section \<open>Accepting a connection\<close>

lemma create_local_server:
  assumes "wf_server w" and "free_fd (w_fdev w) fd"
  shows "\<exists>w'. create_local_socket fd w = Inr (w_next w, w') \<and> wf_server w' \<and> w_trans w' = w_trans w \<and>
    w_socks w' = (w_socks w)(w_next w \<mapsto> local_asocket (w_next_id w) fd) \<and> w_listeners w' = w_listeners w"
proof -
  have wf: "wf_world w" and li: "listeners_inv w" using assms(1) by (auto simp: wf_server_def)
  from create_local_socket_ok [OF wf assms(2)]
  obtain f n where c: "create_local_socket fd w = Inr (w_next w, w\<lparr>w_socks := (w_socks w)(w_next w \<mapsto>
        local_asocket (w_next_id w) fd), w_next := Suc (w_next w), w_next_id := n,
        w_local := w_local w @ [w_next w], w_fdev := f\<rparr>)"
      "owned f = (owned (w_fdev w))(FSock (w_next w) := True)"
      "wf_world (w\<lparr>w_socks := (w_socks w)(w_next w \<mapsto> local_asocket (w_next_id w) fd), w_next := Suc (w_next w),
        w_next_id := n, w_local := w_local w @ [w_next w], w_fdev := f\<rparr>)" by blast
  have "listeners_inv (w\<lparr>w_socks := (w_socks w)(w_next w \<mapsto> local_asocket (w_next_id w) fd), w_next := Suc (w_next w),
        w_next_id := n, w_local := w_local w @ [w_next w], w_fdev := f\<rparr>)"
    by (rule listeners_grow [OF li]) (simp_all add: c(2) registered_def w_dis_def fun_eq_iff)
  then show ?thesis using c(1,3) by (simp add: wf_server_def)
qed

lemma listener_device:
  assumes "wf_server w" and "w_listeners w l = Some x" and "l_transport x = Some t"
  shows "w_trans w t \<noteq> None"
  using listenersD(5) [of w t l] assms by (auto simp: wf_server_def registered_def w_dis_def)

text \<open>A socket other than a remote one may be given a transport.\<close>

lemma set_transport_server:
  assumes "wf_server w" and "w_socks w a = Some s" and "is_local s"
  shows "wf_server (w\<lparr>w_socks := (w_socks w)(a \<mapsto> s\<lparr>s_transport := t\<rparr>)\<rparr>)"
proof -
  let ?w = "w\<lparr>w_socks := (w_socks w)(a \<mapsto> s\<lparr>s_transport := t\<rparr>)\<rparr>"
  have wf: "wf_upto {} w" and lock: "unlocked w" and li: "listeners_inv w" using assms(1) by (auto simp: wf_server_def wf_world_def)
  have r: "same_role s (s\<lparr>s_transport := t\<rparr>)" using kinds_disjoint(1) [OF assms(3)] by (auto simp: same_role_def kind_defs)
  have "wf_upto {} ?w"
    by (rule wf_update [OF wf assms(2) r]) (use wf assms(2,3) in \<open>auto simp: wf_upto_def locals_inv_def\<close>)
  moreover have "listeners_inv ?w"
    by (rule listeners_grow [OF li]) (simp_all add: registered_def w_dis_def fun_eq_iff)
  ultimately show ?thesis using lock by (simp add: wf_server_def wf_world_def unlocked_def)
qed

lemma listener_event_ok:
  assumes "wf_server w" and "w_listeners w l = Some x" and "l_transport x = Some t"
  shows "ok (listener_event_func l ev w) wf_server"
proof (cases "ev AND FDE_READ = 0")
  case False
  have "ok (case fd of None \<Rightarrow> Inr w1 | Some fd \<Rightarrow> ebind (create_local_socket fd w1) (\<lambda>(a, w).
       ebind (get_listener l w) (\<lambda>x. ebind (mod_sock a (\<lambda>s. s\<lparr>s_transport := l_transport x\<rparr>) w) (\<lambda>w.
         connect_to_remote a (l_connect_to x) w)))) wf_server"
    if w1: "wf_server w1" "w_listeners w1 = w_listeners w" "w_trans w1 = w_trans w" "\<forall>d. fd = Some d \<longrightarrow> free_fd (w_fdev w1) d"
    for fd w1
  proof (cases fd)
    case None
    then show ?thesis using w1(1) by simp
  next
    case (Some d)
    let ?s = "local_asocket (w_next_id w1) d" and ?a = "w_next w1"
    obtain w2 where w2: "create_local_socket d w1 = Inr (?a, w2)" "wf_server w2" "w_trans w2 = w_trans w1"
        "w_socks w2 = (w_socks w1)(?a \<mapsto> ?s)" "w_listeners w2 = w_listeners w1"
      using create_local_server [OF w1(1)] w1(4) Some by blast
    let ?w3 = "w2\<lparr>w_socks := (w_socks w2)(?a \<mapsto> ?s\<lparr>s_transport := Some t\<rparr>)\<rparr>"
    have sv: "serving t ?w3"
      using set_transport_server [OF w2(2), of ?a ?s "Some t"] w2(3,4) w1(3) listener_device [OF assms] by (simp add: serving_def)
    have "ok (connect_to_remote ?a (l_connect_to x) ?w3) wf_server"
    proof (cases "MAX_PAYLOAD - 1 < length (l_connect_to x) + 1")
      case False
      have len: "unat (of_nat n :: u32) \<le> n" for n by (simp add: unsigned_of_nat take_bit_nat_less_eq_self)
      show ?thesis
        unfolding connect_to_remote_def Let_def
        using False by (simp add: get_sock_def)
          (rule ok_mono [OF serving_send [OF sv]]; use len [of "Suc (length (l_connect_to x))"] in \<open>simp add: serving_def zero_msg_def\<close>)
    qed (simp add: connect_to_remote_def)
    moreover have "get_listener l w2 = Inr x" using assms(2) w1(2) w2(5) by (simp add: get_listener_def)
    moreover have "mod_sock ?a (\<lambda>s. s\<lparr>s_transport := Some t\<rparr>) w2 = Inr ?w3"
      using w2(4) by (simp add: mod_sock_def get_sock_def)
    ultimately show ?thesis using Some w2(1) assms(3) by simp
  qed
  then show ?thesis
    unfolding listener_event_func_def using False open_fd_server [OF assms(1)]
    by (simp add: case_prod_beta) (erule ok_ebind, auto)
qed (simp add: listener_event_func_def assms(1))

definition smart_asocket :: asocket where
  "smart_asocket = \<lparr>s_id = 0, s_closing = False, s_exit_on_close = False, s_peer = None, s_fd = 0,
     s_pkts = [], s_enqueue = Smart_enqueue, s_ready = Smart_ready, s_shutdown = None,
     s_close = Smart_close, s_transport = None, s_update_needed = False\<rparr>"

lemma smart_asocket_simps [simp]:
  "is_smart smart_asocket" "\<not> is_local smart_asocket" "\<not> is_remote smart_asocket" "\<not> is_tracker smart_asocket"
  "s_peer smart_asocket = None"
  by (simp_all add: smart_asocket_def kind_defs)

lemma new_smart_server:
  assumes "wf_server w"
  shows "wf_server (w\<lparr>w_socks := (w_socks w)(w_next w \<mapsto> smart_asocket), w_next := Suc (w_next w)\<rparr>)" (is "wf_server ?w")
proof -
  have wf: "wf_upto {} w" "unlocked w" and li: "listeners_inv w" using assms by (auto simp: wf_server_def wf_world_def)
  have "fresh_socket {} w smart_asocket ?w"
    using wf(1) wf_events(1) [OF wf(1)] unfolding fresh_socket_def
    by (simp add: smart_asocket_def w_dis_def kind_defs fun_eq_iff option.map_ident)
  from new_wf [OF this] have "wf_upto {} ?w" by simp
  moreover have "listeners_inv ?w" by (rule listeners_grow [OF li]) (simp_all add: registered_def w_dis_def fun_eq_iff)
  ultimately show ?thesis using wf(2) by (simp add: wf_server_def wf_world_def unlocked_def)
qed

lemma connect_smart_ok:
  assumes "wf_server w" and "w_socks w a = Some (local_asocket i fd)"
  shows "ok (connect_to_smartsocket smart a w) wf_server"
proof -
  let ?s = "local_asocket i fd" and ?b = "w_next w"
  let ?w = "w\<lparr>w_socks := (w_socks w)(?b \<mapsto> smart_asocket), w_next := Suc ?b\<rparr>"
  have new: "wf_server ?w" by (rule new_smart_server [OF assms(1)])
  have ab: "a \<noteq> ?b" using assms by (auto simp: wf_server_def wf_world_def wf_upto_def kinds_inv_def)
  have eq: "connect_to_smartsocket smart a w = sready smart a (link a ?s ?b smart_asocket ?w)"
    using ab assms(2) by (simp add: connect_to_smartsocket_def create_smart_socket_def new_sock_def mod_sock_def get_sock_def
        link_def smart_asocket_def fun_upd_twist)
  have pl: "plain_local ?s = ?s" by (simp add: plain_local_def local_asocket_def)
  have "ok (sready smart a (link a ?s ?b smart_asocket ?w))
      (\<lambda>w'. wf_world w' \<and> shrinks {} (link a (plain_local ?s) ?b smart_asocket ?w) w')"
    by (rule link_ready_ok) (use new ab assms(2) in \<open>simp_all add: wf_server_def\<close>)
  then show ?thesis
    unfolding eq pl
  proof (rule ok_mono, elim conjE)
    fix w'
    assume w': "wf_world w'" "shrinks {} (link a ?s ?b smart_asocket ?w) w'"
    have "listeners_inv (link a ?s ?b smart_asocket ?w)" using new by (simp add: listeners_link wf_server_def)
    then show "wf_server w'" using listeners_shrinks w' by (auto simp: wf_server_def)
  qed
qed

lemma ss_listener_event_ok:
  assumes "wf_server w"
  shows "ok (ss_listener_event_func smart ev w) wf_server"
proof (cases "ev AND FDE_READ = 0")
  case False
  have "ok (case fd of None \<Rightarrow> Inr w1 | Some fd \<Rightarrow> ebind (create_local_socket fd w1) (\<lambda>(a, w). connect_to_smartsocket smart a w)) wf_server"
    if w1: "wf_server w1" "\<forall>d. fd = Some d \<longrightarrow> free_fd (w_fdev w1) d" for fd w1
  proof (cases fd)
    case (Some d)
    obtain w2 where w2: "create_local_socket d w1 = Inr (w_next w1, w2)" "wf_server w2"
        "w_socks w2 (w_next w1) = Some (local_asocket (w_next_id w1) d)"
      using create_local_server [OF w1(1), of d] w1(2) Some by auto
    then show ?thesis using connect_smart_ok [OF w2(2,3), of smart] Some by simp
  qed (use w1(1) in simp)
  then show ?thesis
    unfolding ss_listener_event_func_def using False open_fd_server [OF assms]
    by (simp add: case_prod_beta) (erule ok_ebind, auto)
qed (simp add: ss_listener_event_func_def assms)

section \<open>The event records of the transports\<close>

text \<open>The callbacks that run when a transport goes away touch the event records of sockets and
  listeners only. \<open>still w r\<close>: the records of the transports are in the result as they are in \<open>w\<close>.\<close>

definition still :: "world \<Rightarrow> err + world \<Rightarrow> bool" where
  "still w r \<longleftrightarrow> (\<forall>w' t. r = Inr w' \<longrightarrow> fdes (w_fdev w') (FTransport t) = fdes (w_fdev w) (FTransport t))"

named_theorems still_intros

lemma still_Inl [simp, still_intros]: "still w (Inl e)"
  by (simp add: still_def)

lemma still_Inr [still_intros]: "w_fdev w' = w_fdev w \<Longrightarrow> still w (Inr w')"
  by (simp add: still_def)

lemma still_ebind: "still w m \<Longrightarrow> (\<And>w1. still w1 (f w1)) \<Longrightarrow> still w (ebind m f)"
  unfolding still_def by (cases m) auto

lemma still_read:
  "(\<And>s. still w (f s)) \<Longrightarrow> still w (ebind (get_sock a w0) f)" "(\<And>x. still w (g x)) \<Longrightarrow> still w (ebind (get_trans t w0) g)"
  "(\<And>y. still w (h y)) \<Longrightarrow> still w (ebind (get_listener l w0) h)" "(\<And>u. still w (k u)) \<Longrightarrow> still w (ebind (node_alive d w0) k)"
  by (auto simp: still_def ebind_eq_Inr)

lemma still_cases [still_intros]:
  "(\<And>x. v = Some x \<Longrightarrow> still w (g x)) \<Longrightarrow> (v = None \<Longrightarrow> still w r) \<Longrightarrow> still w (case v of None \<Rightarrow> r | Some x \<Rightarrow> g x)"
  "(b \<Longrightarrow> still w r) \<Longrightarrow> (\<not> b \<Longrightarrow> still w r') \<Longrightarrow> still w (if b then r else r')"
  by (simp_all split: option.split)

lemma still_fdev: "w_fdev w0 = w_fdev w \<Longrightarrow> still w0 r \<Longrightarrow> still w r"
  by (simp add: still_def)

lemma fde_steps_fdes:
  "fdevent_plist_remove x f = Inr f' \<Longrightarrow> fdes f' = fdes f" "fdevent_disconnect x f = Inr f' \<Longrightarrow> fdes f' = fdes f"
  "fdevent_unregister x f = Inr f' \<Longrightarrow> fdes f' = fdes f"
  by (auto simp: fdevent_plist_remove_def fdevent_disconnect_def fdevent_unregister_def ebind_eq_Inr Let_def
      split: if_split_asm slot.split_asm)

lemma fdevent_remove_fdes: "fdevent_remove x f = Inr f' \<Longrightarrow> y \<noteq> x \<Longrightarrow> fdes f' y = fdes f y"
  by (auto simp: fdevent_remove_def put_fde_def ebind_eq_Inr split: if_split_asm dest!: fde_steps_fdes)

lemma fdevent_update_fdes: "fdevent_update x ev f = Inr f' \<Longrightarrow> y \<noteq> x \<Longrightarrow> fdes f' y = fdes f y"
  by (auto simp: fdevent_update_def put_fde_def ebind_eq_Inr)

lemma fdevent_set_fdes: "fdevent_set x ev f = Inr f' \<Longrightarrow> y \<noteq> x \<Longrightarrow> fdes f' y = fdes f y"
  by (auto simp: fdevent_set_def put_fde_def ebind_eq_Inr Let_def split: if_split_asm
      dest!: fde_steps_fdes(1) dest: fdevent_update_fdes)

lemma still_on_fdev [still_intros]:
  "still w (on_fdev (fdevent_remove (FSock a)) w)" "still w (on_fdev (fdevent_remove (FListener l)) w)"
  "still w (on_fdev (fdevent_del (FSock a) ev) w)"
  by (auto simp: still_def on_fdev_def ebind_eq_Inr fdevent_del_def dest: fdevent_remove_fdes fdevent_set_fdes)

lemma still_free [simp]: "still w (Inr (free_sock a w))"
  by (simp add: still_def free_sock_def fde_free_def)

lemma still_basic [still_intros]:
  "still w (mod_sock a g w)" "still w (lock_sockets w)" "still w (lock_transports w)" "still w (mod_trans t h w)"
  "still w (remove_transport_disconnect v d w)" "still w (remove_socket a w)" "still w (remote_socket_shutdown a w)"
  by (auto simp: still_def mod_sock_def lock_sockets_def lock_transports_def mod_trans_def remove_transport_disconnect_def
      remove_socket_def remote_socket_shutdown_def send_packet_def ebind_eq_Inr split: option.splits if_splits)

lemma still_unlock [still_intros]: "still w (Inr (unlock_sockets w))" "still w (Inr (insert_closing a w))"
  by (simp_all add: still_def unlock_sockets_def insert_closing_def)

lemma still_finish_close [still_intros]: "still w (local_socket_finish_close a w)"
  unfolding local_socket_finish_close_def local_socket_destroy_def
  by (intro still_read still_cases still_ebind still_intros still_free)

lemma w_writex_fdev: "w_writex fd bs w = Inr r \<Longrightarrow> w_fdev (snd r) = w_fdev w"
  by (auto simp: w_writex_def ebind_eq_Inr split: prod.split_asm)

lemma still_close_fns:
  assumes "\<And>a w. still w (close a w)"
  shows "still w (local_socket_close close a w)" "still w (local_socket_close_notify close a w)"
    "still w (remote_socket_close close a w)" "still w (smart_socket_close close a w)" "still w (device_tracker_close close a w)"
proof -
  show "still w (local_socket_close close a w)"
    unfolding local_socket_close_def by (intro still_ebind still_intros assms)
  have "still w (ebind (sendfailmsg fd m w) (\<lambda>(_, w). close a w))" for fd m w
  proof (cases "sendfailmsg fd m w")
    case (Inr r)
    then have "w_fdev (snd r) = w_fdev w" by (auto simp: sendfailmsg_def Let_def ebind_eq_Inr split: prod.split_asm if_split_asm dest!: w_writex_fdev)
    then show ?thesis using Inr still_fdev [OF _ assms, of "snd r" w a] by (simp add: case_prod_beta)
  qed simp
  then show "still w (local_socket_close_notify close a w)"
    unfolding local_socket_close_notify_def by (intro still_read still_ebind still_intros)
  show "still w (remote_socket_close close a w)"
    unfolding remote_socket_close_def by (intro still_read still_cases still_ebind still_intros still_free assms refl)
  show "still w (smart_socket_close close a w)"
    unfolding smart_socket_close_def by (intro still_read still_cases still_ebind still_intros still_free assms refl)
  have "still w (device_tracker_remove a w)" for w
    by (simp add: device_tracker_remove_def lock_transports_def unlock_transports_def still_def)
  then show "still w (device_tracker_close close a w)"
    unfolding device_tracker_close_def by (intro still_read still_cases still_ebind still_intros still_free assms refl)
qed

lemma still_sclose: "still w (sclose n a w) \<and> still w (local_socket_close_locked n a w)"
proof (induction n arbitrary: a w)
  case (Suc n)
  have "still w (sclose (Suc n) a w)"
    unfolding sclose.simps
    by (rule still_read) (auto simp: Suc intro: still_close_fns split: close_fn.split)
  moreover have "still w (local_socket_close_locked (Suc n) a w)"
    unfolding local_socket_close_locked.simps
    by (intro still_read still_cases still_ebind still_intros refl) (simp_all add: Suc)
  ultimately show ?case ..
qed simp

lemma still_dis_func: "still w (dis_func d w)"
proof (cases d)
  case (Dis_remote a)
  have "still w (remote_socket_disconnect a w)"
    unfolding remote_socket_disconnect_def
    by (intro still_read still_cases still_ebind still_intros still_free refl) (simp_all add: still_sclose)
  then show ?thesis using Dis_remote by (simp add: dis_func_def)
next
  case (Dis_listener l)
  have free: "still w (Inr (w\<lparr>w_listeners := m, w_fdev := fde_free (FListener l) (w_fdev w)\<rparr>))" for w m
    by (simp add: still_def fde_free_def)
  have rm: "still w (on_fdev (fdevent_remove (FListener l)) (w\<lparr>w_listener_list := ls\<rparr>))" for w ls
    by (rule still_fdev [OF _ still_on_fdev(2)]) simp
  have "still w (free_listener l w)"
    unfolding free_listener_def by (intro still_read still_cases still_ebind still_intros free rm refl)
  then show ?thesis using Dis_listener by (simp add: dis_func_def listener_disconnect_def)
qed

lemma still_run_disconnects: "still w (run_transport_disconnects t w)"
proof -
  have "still w (disconnects_loop n t d w)" for n d w
  proof (induction n arbitrary: d w)
    case 0
    show ?case by (cases d) (simp_all add: still_Inr)
  next
    case (Suc n)
    show ?case
    proof (cases d)
      case (Some e)
      show ?thesis
        unfolding Some disconnects_loop.simps Let_def by (intro still_read still_ebind still_dis_func Suc)
    qed (simp add: still_Inr)
  qed
  then show ?thesis unfolding run_transport_disconnects_def by (intro still_read)
qed

section \<open>Devices come and go\<close>

text \<open>The invariant does not see a transport that nothing is registered with.\<close>

definition registers :: "world \<Rightarrow> addr \<Rightarrow> disconnect \<Rightarrow> bool" where
  "registers w t d \<longleftrightarrow> (\<exists>ds. w_dis w t = Some ds \<and> d \<in> set ds)"

lemma remotes_registers:
  "remotes_inv w \<longleftrightarrow> (\<forall>a s. w_socks w a = Some s \<and> is_remote s \<longrightarrow> (\<exists>t. s_transport s = Some t \<and> registers w t (Dis_remote a))) \<and>
     (\<forall>t ds. w_dis w t = Some ds \<longrightarrow> distinct ds) \<and>
     (\<forall>t a. registers w t (Dis_remote a) \<longrightarrow> (\<exists>s. w_socks w a = Some s \<and> is_remote s \<and> s_transport s = Some t))"
  unfolding remotes_inv_def registers_def by blast

lemma server_devices:
  assumes inv: "wf_server w"
    and w': "w_socks w' = w_socks w" "w_next w \<le> w_next w'" "w_local w' = w_local w" "w_closing w' = w_closing w"
      "w_trackers w' = w_trackers w" "w_listeners w' = w_listeners w" "w_listener_list w' = w_listener_list w"
      "set (w_newfds w') \<subseteq> set (w_newfds w)" "w_socket_list_lock w' = w_socket_list_lock w" "w_transport_lock w' = w_transport_lock w"
    and ev: "fdev_inv (w_fdev w')" "\<And>a. owned (w_fdev w') (FSock a) = owned (w_fdev w) (FSock a)"
      "\<And>l. owned (w_fdev w') (FListener l) = owned (w_fdev w) (FListener l)"
    and reg: "\<And>t d. registers w' t d = registers w t d" "\<And>t ds. w_dis w' t = Some ds \<Longrightarrow> distinct ds"
    and listed: "\<And>t. t \<in> set (w_transport_list w') \<Longrightarrow> w_dis w' t \<noteq> None"
  shows "wf_server w'"
proof -
  have u: "kinds_inv w" "lists_inv w" "peers_inv {} w" "locals_inv {} w" "remotes_inv w" "trackers_inv {} w" "events_inv w"
    and li: "listeners_inv w" and lock: "unlocked w"
    using inv by (auto simp: wf_server_def wf_world_def wf_upto_def)
  have "kinds_inv w'" using u(1) w'(1,2) unfolding kinds_inv_def by fastforce
  moreover have "lists_inv w' = lists_inv w" "peers_inv {} w' = peers_inv {} w" "locals_inv {} w' = locals_inv {} w"
    "trackers_inv {} w' = trackers_inv {} w"
    by (simp_all add: lists_inv_def peers_inv_def locals_inv_def trackers_inv_def w')
  moreover have "remotes_inv w'" using u(5) reg unfolding remotes_registers w'(1) by blast
  moreover have "events_inv w'" using u(7) w' ev listed unfolding events_inv_def by auto
  moreover have "registered w' = registered w" using reg(1) by (auto simp: registered_def registers_def fun_eq_iff)
  then have "listeners_inv w'" by (intro listeners_grow [OF li]) (simp_all add: w' ev)
  ultimately show ?thesis using u lock w'(9,10) by (simp add: wf_server_def wf_world_def wf_upto_def unlocked_def)
qed

lemma server_eventsD:
  assumes "wf_server w"
  shows "fdev_inv (w_fdev w)" "\<not> w_transport_lock w" "w_dis w t = Some ds \<Longrightarrow> distinct ds"
    "t \<in> set (w_transport_list w) \<Longrightarrow> w_dis w t \<noteq> None"
  using assms server_disD [OF assms, of t ds] by (auto simp: wf_server_def wf_world_def wf_upto_def events_inv_def unlocked_def)

text \<open>What is left of a state that only differs in descriptors, threads, messages and the like.\<close>

lemma server_frame:
  assumes inv: "wf_server w"
    and w': "w_socks w' = w_socks w" "w_next w \<le> w_next w'" "w_local w' = w_local w" "w_closing w' = w_closing w"
      "w_trackers w' = w_trackers w" "w_listeners w' = w_listeners w" "w_listener_list w' = w_listener_list w"
      "set (w_newfds w') \<subseteq> set (w_newfds w)" "w_socket_list_lock w' = w_socket_list_lock w" "w_transport_lock w' = w_transport_lock w"
    and d: "w_dis w' = w_dis w" "set (w_transport_list w') \<subseteq> set (w_transport_list w)"
    and ev: "fdev_inv (w_fdev w')" "\<And>a. owned (w_fdev w') (FSock a) = owned (w_fdev w) (FSock a)"
      "\<And>l. owned (w_fdev w') (FListener l) = owned (w_fdev w) (FListener l)"
  shows "wf_server w'"
proof (rule server_devices [OF inv w' ev])
  show "registers w' t d = registers w t d" for t d by (simp add: registers_def d(1))
  show "distinct ds" if "w_dis w' t = Some ds" for t ds using server_eventsD(3) [OF inv, of t ds] that d(1) by simp
  show "w_dis w' t \<noteq> None" if "t \<in> set (w_transport_list w')" for t
    using server_eventsD(4) [OF inv, of t] that d by auto
qed

lemma write_action_ok:
  assumes "wf_server w"
  shows "ok (register_transport t w) wf_server"
proof -
  have wl: "ok (write_ptr_loop k ws) (\<lambda>_. True)" for k ws
    by (induction k ws rule: write_ptr_loop.induct) (auto simp: ok_def split: if_splits sum.splits)
  have same: "wf_server (w\<lparr>w_ws := ws, w_tmsgs := ms\<rparr>)" for ws ms
    by (rule server_frame [OF assms]) (simp_all add: server_eventsD [OF assms] w_dis_def fun_eq_iff)
  have "ok (transport_write_action (t, 1) w) (\<lambda>(r, w'). wf_server w')"
    unfolding transport_write_action_def Let_def by (rule ok_ebind [OF wl]) (simp only: case_prod_beta ok_Inr same snd_conv)
  then show ?thesis unfolding register_transport_def by (rule ok_ebind) auto
qed

lemma register_usb_ok:
  assumes inv: "wf_server w" and new: "w_trans w (w_next w) = None"
  shows "ok (register_usb_transport usb serial devpath writeable w) wf_server"
proof -
  define x where "x = init_usb_transport usb (if writeable then CS_OFFLINE else CS_NOPERM) blank_transport\<lparr>t_serial := serial, t_devpath := devpath\<rparr>"
  define w1 where "w1 = w\<lparr>w_HOST := True, w_trans := (w_trans w)(w_next w \<mapsto> x), w_next := Suc (w_next w),
    w_pending_list := w_pending_list w @ [w_next w], w_transport_lock := False\<rparr>"
  have dis: "w_dis w1 t = (if t = w_next w then Some [] else w_dis w t)" for t
    by (simp add: w1_def w_dis_def x_def init_usb_transport_def blank_transport_def)
  have old: "w_dis w (w_next w) = None" using new by (simp add: w_dis_def)
  have "wf_server w1"
  proof (rule server_devices [OF inv])
    show "registers w1 t d = registers w t d" for t d using old by (auto simp: registers_def dis)
    show "distinct ds" if "w_dis w1 t = Some ds" for t ds
      using that server_eventsD(3) [OF inv, of t ds] by (auto simp: dis split: if_splits)
    show "w_dis w1 t \<noteq> None" if "t \<in> set (w_transport_list w1)" for t
      using that server_eventsD(4) [OF inv, of t] by (simp add: dis) (simp add: w1_def)
  qed (simp_all add: w1_def server_eventsD [OF inv])
  from write_action_ok [OF this] show ?thesis
    using server_eventsD(2) [OF inv]
    by (simp add: register_usb_transport_def new_transport_def lock_transports_def unlock_transports_def Let_def w1_def flip: x_def)
qed

text \<open>The steps of a registration keep the server well formed, and the registrations and lists.\<close>

definition alike :: "world \<Rightarrow> world \<Rightarrow> bool" where
  "alike w w' \<longleftrightarrow> wf_server w' \<and> w_dis w' = w_dis w \<and> w_transport_list w' = w_transport_list w \<and>
     w_pending_list w' = w_pending_list w \<and> w_listener_list w' = w_listener_list w"

lemma alike_frame:
  assumes inv: "alike W w"
    and w': "w_socks w' = w_socks w" "w_next w' = w_next w" "w_local w' = w_local w" "w_closing w' = w_closing w"
      "w_trackers w' = w_trackers w" "w_listeners w' = w_listeners w" "w_listener_list w' = w_listener_list w"
      "set (w_newfds w') \<subseteq> set (w_newfds w)" "w_socket_list_lock w' = w_socket_list_lock w" "w_transport_lock w' = w_transport_lock w"
    and d: "w_dis w' = w_dis w" "w_transport_list w' = w_transport_list w" "w_pending_list w' = w_pending_list w"
    and ev: "fdev_inv (w_fdev w')" "\<And>a. owned (w_fdev w') (FSock a) = owned (w_fdev w) (FSock a)"
      "\<And>l. owned (w_fdev w') (FListener l) = owned (w_fdev w) (FListener l)"
  shows "alike W w'"
proof -
  have "wf_server w" using inv by (simp add: alike_def)
  then have "wf_server w'" by (rule server_frame) (use w' d ev in simp_all)
  then show ?thesis using inv d w'(7) by (simp add: alike_def)
qed

lemma alike_events: "alike W w \<Longrightarrow> fdev_inv (w_fdev w)"
  by (simp add: alike_def server_eventsD)

lemma mod_trans_alike:
  assumes "alike W w" and "w_trans w t = Some x" and "t_disconnects (g x) = t_disconnects x"
  shows "\<exists>w'. mod_trans t g w = Inr w' \<and> alike W w' \<and> w_fdev w' = w_fdev w \<and> w_trans w' t = Some (g x)"
proof -
  let ?w = "w\<lparr>w_trans := (w_trans w)(t \<mapsto> g x)\<rparr>"
  have "w_dis ?w = w_dis w" using assms(2,3) by (auto simp: w_dis_def fun_eq_iff)
  then have "alike W ?w" by (intro alike_frame [OF assms(1)]) (simp_all add: alike_events [OF assms(1)])
  then show ?thesis using assms(2) by (simp add: mod_trans_def get_trans_def)
qed

lemma open_fd_alike:
  assumes "alike W w"
  shows "ok (open_fd w) (\<lambda>(fd, w'). alike W w' \<and> w_fdev w' = w_fdev w \<and> w_trans w' = w_trans w \<and> w_newthreads w' = w_newthreads w \<and>
    (\<forall>d. fd = Some d \<longrightarrow> free_fd (w_fdev w) d))"
proof (cases "w_newfds w")
  case (Cons fd fds)
  have wf: "wf_world w" using assms by (simp add: alike_def wf_server_def)
  have "alike W (w\<lparr>w_newfds := fds\<rparr>)"
    by (rule alike_frame [OF assms]) (use Cons in \<open>simp_all add: alike_events [OF assms] w_dis_def fun_eq_iff subset_insertI\<close>)
  moreover have "free_fd (w_fdev w) fd" if "0 \<le> fd" "\<not> fd_in_use (w_fdev w) fd"
    using open_fd_free(1) [OF wf, of fd "w\<lparr>w_newfds := fds\<rparr>"] Cons that by (simp add: open_fd_def)
  ultimately show ?thesis using Cons by (simp add: open_fd_def)
qed (simp add: open_fd_def)

lemma socketpair_alike:
  assumes "alike W w"
  shows "ok (adb_socketpair w) (\<lambda>(s, w'). alike W w' \<and> w_fdev w' = w_fdev w \<and> w_trans w' = w_trans w \<and> w_newthreads w' = w_newthreads w \<and>
    (\<forall>s0 s1. s = Some (s0, s1) \<longrightarrow> free_fd (w_fdev w) s0 \<and> free_fd (w_fdev w) s1))"
  unfolding adb_socketpair_def
proof (rule ok_ebind [OF open_fd_alike [OF assms]], clarify)
  fix s0 w1
  assume w1: "alike W w1" "w_fdev w1 = w_fdev w" "w_trans w1 = w_trans w" "w_newthreads w1 = w_newthreads w"
    "\<forall>d. s0 = Some d \<longrightarrow> free_fd (w_fdev w) d"
  note open2 = open_fd_alike [OF w1(1)]
  show "ok (case s0 of None \<Rightarrow> Inr (None, w1)
      | Some s0 \<Rightarrow> ebind (open_fd w1) (\<lambda>(s1, w). case s1 of None \<Rightarrow> Inr (None, w)
          | Some s1 \<Rightarrow> if s1 = s0 then Inl Blocked else Inr (Some (s0, s1), w)))
    (\<lambda>(s, w'). alike W w' \<and> w_fdev w' = w_fdev w \<and> w_trans w' = w_trans w \<and> w_newthreads w' = w_newthreads w \<and>
      (\<forall>s0 s1. s = Some (s0, s1) \<longrightarrow> free_fd (w_fdev w) s0 \<and> free_fd (w_fdev w) s1))"
    using w1 by (cases s0) (auto split: option.split intro!: ok_ebind [OF open2])
qed

lemma thread_create_alike:
  assumes "alike W w"
  shows "ok (adb_thread_create w) (\<lambda>(r, w'). alike W w')"
  by (auto simp: adb_thread_create_def w_dis_def fun_eq_iff alike_events [OF assms] split: list.split intro!: alike_frame [OF assms])

lemma install_alike:
  assumes "alike W w" and "free_fd (w_fdev w) fd" and "\<not> owned (w_fdev w) x" and "\<And>a. x \<noteq> FSock a" "\<And>l. x \<noteq> FListener l"
  shows "ok (ebind (on_fdev (fdevent_install x fd fn) w) (on_fdev (fdevent_set x FDE_READ))) (alike W)"
proof -
  obtain f where f: "fdevent_install x fd fn (w_fdev w) = Inr f" "fdev_inv f" "owned f = (owned (w_fdev w))(x := True)"
    using ev.install_law [OF alike_events [OF assms(1)] assms(2,3)] by blast
  obtain g where g: "fdevent_set x FDE_READ f = Inr g" "fdev_inv g" "owned g = owned f"
    using fdevent_set_owned [OF f(2), of x] f(3) by auto
  have "alike W (w\<lparr>w_fdev := g\<rparr>)"
    by (rule alike_frame [OF assms(1)]) (use f(3) g(2,3) assms(4,5) in \<open>auto simp: w_dis_def fun_eq_iff\<close>)
  then show ?thesis using f(1) g(1) by (simp add: on_fdev_def)
qed

lemma start_transport_ok:
  assumes inv: "wf_server w" and t: "w_trans w t = Some x" and new: "\<not> owned (w_fdev w) (FTransport t)"
  shows "ok (start_transport t w) (alike w)"
proof -
  have "alike w w" using inv by (simp add: alike_def)
  then obtain w1 where w1: "mod_trans t (\<lambda>x. x\<lparr>t_ref_count := 2\<rparr>) w = Inr w1" "alike w w1" "w_fdev w1 = w_fdev w"
      "w_trans w1 t = Some (x\<lparr>t_ref_count := 2\<rparr>)"
    using mod_trans_alike [of w w t x "\<lambda>x. x\<lparr>t_ref_count := 2\<rparr>"] t by auto
  have threads: "ok (ebind (adb_thread_create w2) (\<lambda>(r, w). if \<not> r then Inl (Fatal m)
      else ebind (adb_thread_create w) (\<lambda>(r, w). if \<not> r then Inl (Fatal m') else Inr w))) (alike w)"
    if "alike w w2" for w2 m m'
    by (rule ok_ebind [OF thread_create_alike [OF that]]) (auto intro!: ok_ebind [OF thread_create_alike])
  show ?thesis
    unfolding start_transport_def w1(1) ebind_simps
  proof (rule ok_ebind [OF socketpair_alike [OF w1(2)]], clarify)
    fix s w2
    assume w2: "alike w w2" "w_fdev w2 = w_fdev w1" "w_trans w2 = w_trans w1"
      "\<forall>s0 s1. s = Some (s0, s1) \<longrightarrow> free_fd (w_fdev w1) s0 \<and> free_fd (w_fdev w1) s1"
    show "ok (case s of None \<Rightarrow> Inl (Fatal ''cannot open transport socketpair'')
       | Some (s0, s1) \<Rightarrow>
           ebind (mod_trans t (\<lambda>x. x\<lparr>t_transport_socket := s0, t_fd := s1\<rparr>) w2) (\<lambda>w.
           ebind (on_fdev (fdevent_install (FTransport t) s0 Transport_socket_events) w) (\<lambda>w.
           ebind (on_fdev (fdevent_set (FTransport t) FDE_READ) w) (\<lambda>w.
           ebind (adb_thread_create w) (\<lambda>(r, w).
             if \<not> r then Inl (Fatal ''cannot create input thread'')
             else ebind (adb_thread_create w) (\<lambda>(r, w).
               if \<not> r then Inl (Fatal ''cannot create output thread'') else Inr w)))))) (alike w)"
    proof (cases s)
      case (Some p)
      obtain s0 s1 where p: "p = (s0, s1)" by fastforce
      obtain w3 where w3: "mod_trans t (\<lambda>x. x\<lparr>t_transport_socket := s0, t_fd := s1\<rparr>) w2 = Inr w3" "alike w w3"
          "w_fdev w3 = w_fdev w2"
        using mod_trans_alike [OF w2(1), of t "x\<lparr>t_ref_count := 2\<rparr>" "\<lambda>x. x\<lparr>t_transport_socket := s0, t_fd := s1\<rparr>"] w1(4) w2(3) by auto
      have free: "free_fd (w_fdev w3) s0" "\<not> owned (w_fdev w3) (FTransport t)"
        using w2(2,4) w1(3) w3(3) Some p new by simp_all
      have installed: "ok (ebind (on_fdev (fdevent_install (FTransport t) s0 Transport_socket_events) w3)
          (on_fdev (fdevent_set (FTransport t) FDE_READ))) (alike w)"
        by (rule install_alike [OF w3(2) free]) simp_all
      have "ok (ebind (ebind (on_fdev (fdevent_install (FTransport t) s0 Transport_socket_events) w3)
           (on_fdev (fdevent_set (FTransport t) FDE_READ))) (\<lambda>w.
           ebind (adb_thread_create w) (\<lambda>(r, w).
             if \<not> r then Inl (Fatal ''cannot create input thread'')
             else ebind (adb_thread_create w) (\<lambda>(r, w).
               if \<not> r then Inl (Fatal ''cannot create output thread'') else Inr w)))) (alike w)"
        by (rule ok_ebind [OF installed]) (rule threads)
      then show ?thesis using Some p w3(1) by (simp add: ebind_assoc)
    qed simp
  qed
qed

lemma update_transports_server: "wf_server w \<Longrightarrow> ok (update_transports smart w) wf_server"
  using update_transports_ok [of w smart] listeners_shrinks [of w UNIV] by (auto simp: wf_server_def elim!: ok_mono)

lemma add_registered_ok:
  assumes inv: "wf_server w" and m: "message_ok w (t, a)" "a \<noteq> 0"
  shows "ok (add_registered smart t w) wf_server"
proof -
  obtain x where x: "w_trans w t = Some x" and p: "t \<in> set (w_pending_list w)" "t \<notin> set (w_transport_list w)"
      "w_dis w t = Some []" "\<not> owned (w_fdev w) (FTransport t)"
    using m by (auto simp: message_ok_def)
  have "alike w w" using inv by (simp add: alike_def)
  then have started: "ok (if t_connection_state x \<noteq> CS_NOPERM then start_transport t w else Inr w) (alike w)"
    using start_transport_ok [OF inv x p(4)] by simp
  have rest: "ok (ebind (lock_transports w1) (\<lambda>w. ebind (unlink_transport t w) (\<lambda>w.
      let w = unlock_transports (w\<lparr>w_transport_list := w_transport_list w @ [t]\<rparr>) in
      ebind (mod_trans t (\<lambda>x. x\<lparr>t_disconnects := []\<rparr>) w) (update_transports smart)))) wf_server"
    if w1: "alike w w1" for w1
  proof -
    obtain x1 where x1: "w_trans w1 t = Some x1" "t_disconnects x1 = []"
    proof -
      have "w_dis w1 t = Some []" using w1 p(3) by (simp add: alike_def)
      then show ?thesis using that by (auto simp: w_dis_def)
    qed
    have sv: "wf_server w1" and l1: "t \<in> set (w_pending_list w1)" "t \<notin> set (w_transport_list w1)"
      using w1 p(1,2) by (simp_all add: alike_def)
    define w2 where "w2 = w1\<lparr>w_pending_list := remove1 t (w_pending_list w1),
      w_transport_list := w_transport_list w1 @ [t], w_transport_lock := False\<rparr>"
    have dis: "w_dis w2 = w_dis w1" by (simp add: w2_def w_dis_def fun_eq_iff)
    have "wf_server w2"
    proof (rule server_devices [OF sv])
      show "registers w2 u d = registers w1 u d" for u d by (simp add: registers_def dis)
      show "distinct ds" if "w_dis w2 u = Some ds" for u ds using that server_eventsD(3) [OF sv, of u ds] by (simp add: dis)
      show "w_dis w2 u \<noteq> None" if "u \<in> set (w_transport_list w2)" for u
        using that server_eventsD(4) [OF sv, of u] x1 by (auto simp: w2_def w_dis_def)
    qed (simp_all add: w2_def server_eventsD [OF sv])
    moreover have "x1\<lparr>t_disconnects := []\<rparr> = x1" using x1(2) by (cases x1) simp
    then have "mod_trans t (\<lambda>x. x\<lparr>t_disconnects := []\<rparr>) w2 = Inr w2"
      using x1(1) by (simp add: mod_trans_def get_trans_def w2_def fun_upd_idem)
    ultimately show ?thesis
      using l1 server_eventsD(2) [OF sv] update_transports_server [of w2 smart]
      by (simp add: lock_transports_def unlink_transport_def unlock_transports_def w2_def Let_def)
  qed
  have "get_trans t w = Inr x" using x by (simp add: get_trans_def)
  then show ?thesis unfolding add_registered_def by (simp only: ebind_simps) (rule ok_ebind [OF started rest])
qed

lemma remove_registered_ok:
  assumes inv: "wf_server w" and m: "message_ok w (t, 0)"
  shows "ok (remove_registered smart t w) wf_server"
proof -
  obtain x where x: "w_trans w t = Some x" and l: "distinct (w_transport_list w)"
      "t \<in> set (w_transport_list w) \<or> t \<in> set (w_pending_list w)" and own: "owned (w_fdev w) (FTransport t)"
    using m by (auto simp: message_ok_def)
  obtain f where f: "fdevent_remove (FTransport t) (w_fdev w) = Inr f" "fdev_inv f" "owned f = owned (w_fdev w)"
      "idle f (FTransport t)"
    using ev.remove_law [OF server_eventsD(1) [OF inv] own] by blast
  obtain w1 where w1: "ebind (lock_transports (log_io (Close_fd (t_fd x)) (w\<lparr>w_fdev := f\<rparr>))) (unlink_transport t) = Inr w1"
      "wf_server (unlock_transports w1)" "w_fdev w1 = f" "w_trans w1 = w_trans w" "t \<notin> set (w_transport_list w1)"
  proof -
    define w1 where "w1 = w\<lparr>w_fdev := f, w_log := w_log w @ [Close_fd (t_fd x)], w_transport_lock := True,
      w_transport_list := remove1 t (w_transport_list w),
      w_pending_list := (if t \<in> set (w_transport_list w) then w_pending_list w else remove1 t (w_pending_list w))\<rparr>"
    have "ebind (lock_transports (log_io (Close_fd (t_fd x)) (w\<lparr>w_fdev := f\<rparr>))) (unlink_transport t) = Inr w1"
      using l server_eventsD(2) [OF inv]
      by (auto simp: lock_transports_def log_io_def unlink_transport_def w1_def remove1_idem)
    moreover have "wf_server (unlock_transports w1)"
      by (rule server_frame [OF inv])
        (use f server_eventsD(2) [OF inv] set_remove1_subset [of t "w_transport_list w"] in
          \<open>simp_all add: w1_def unlock_transports_def w_dis_def fun_eq_iff\<close>)
    ultimately show ?thesis using that l(1) by (simp add: w1_def)
  qed
  have gone: "ok (update_transports smart (free_transport t w2)) wf_server"
    if w2: "run_transport_disconnects t (unlock_transports w1) = Inr w2" "wf_server w2" "w_dis w2 t = Some []"
      "keeps (unlock_transports w1) w2" for w2
  proof -
    have "fdes (w_fdev w2) (FTransport t) = fdes f (FTransport t)"
      using still_run_disconnects [of "unlock_transports w1" t] w2(1) w1(3) by (simp add: still_def unlock_transports_def)
    then have "owned (w_fdev w2) (FTransport t)" "idle (w_fdev w2) (FTransport t)"
      using f(3,4) own by (simp_all add: owned_def idle_def fun_eq_iff)
    note rel = ev.release_law [OF server_eventsD(1) [OF w2(2)] this]
    have dis: "w_dis (free_transport t w2) u = (if u = t then None else w_dis w2 u)" for u
      by (simp add: free_transport_def w_dis_def)
    have "wf_server (free_transport t w2)"
    proof (rule server_devices [OF w2(2)])
      show "registers (free_transport t w2) u d = registers w2 u d" for u d using w2(3) by (auto simp: registers_def dis)
      show "distinct ds" if "w_dis (free_transport t w2) u = Some ds" for u ds
        using that server_eventsD(3) [OF w2(2), of u ds] by (simp add: dis split: if_splits)
      show "w_dis (free_transport t w2) u \<noteq> None" if "u \<in> set (w_transport_list (free_transport t w2))" for u
      proof -
        have "w_transport_list (free_transport t w2) = w_transport_list w2" "w_transport_list w2 = w_transport_list w1"
          using w2(4) by (simp_all add: free_transport_def keeps_def unlock_transports_def)
        then have "u \<in> set (w_transport_list w2)" "u \<noteq> t" using that w1(5) by auto
        then show ?thesis using server_eventsD(4) [OF w2(2), of u] by (simp add: dis)
      qed
    qed (use rel in \<open>simp_all add: free_transport_def\<close>)
    then show ?thesis by (rule update_transports_server)
  qed
  obtain r where r: "run_transport_disconnects t (unlock_transports w1) = r" by blast
  have "w_trans (unlock_transports w1) t = Some x" using w1(4) x by (simp add: unlock_transports_def)
  then have "ok r (\<lambda>w'. wf_server w' \<and> w_dis w' t = Some [] \<and> keeps (unlock_transports w1) w')"
    using run_transport_disconnects_ok [OF w1(2)] r by blast
  then have "ok (ebind r (\<lambda>w. update_transports smart (free_transport t w))) wf_server"
    using gone r by (cases r) auto
  moreover have "remove_registered smart t w =
      ebind (ebind (lock_transports (log_io (Close_fd (t_fd x)) (w\<lparr>w_fdev := f\<rparr>))) (unlink_transport t)) (\<lambda>w.
        ebind (run_transport_disconnects t (unlock_transports w)) (\<lambda>w. update_transports smart (free_transport t w)))"
    using x f(1) by (simp add: remove_registered_def get_trans_def on_fdev_def ebind_assoc)
  ultimately show ?thesis using w1(1) r by simp
qed

lemma registration_ok:
  assumes inv: "wf_server w" and m: "\<And>m ms. w_tmsgs w = m # ms \<Longrightarrow> message_ok w m"
  shows "ok (transport_registration_func smart fd ev w) wf_server"
proof (cases "ev AND FDE_READ = 0")
  case False
  have same: "message_ok (w\<lparr>w_rs := rs, w_tmsgs := ms\<rparr>) y = message_ok w y" for rs ms y
    by (simp add: message_ok_def w_dis_def)
  have sv: "wf_server (w\<lparr>w_rs := rs, w_tmsgs := ms\<rparr>)" for rs ms
    by (rule server_frame [OF inv]) (simp_all add: server_eventsD [OF inv] w_dis_def fun_eq_iff)
  show ?thesis
    unfolding transport_registration_func_def transport_read_action_def using False
  proof (simp, intro ok_ebind [OF readx_ok], clarify)
    fix r rs
    show "ok (let w = w\<lparr>w_rs := (w_rs w)(fd := rs)\<rparr> in case r of
          None \<Rightarrow> Inl (Fatal ''cannot read transport registration socket'')
        | Some _ \<Rightarrow> (case w_tmsgs w of [] \<Rightarrow> Inl Blocked
             | (t, action) # ms \<Rightarrow> let w = w\<lparr>w_tmsgs := ms\<rparr> in
                 if action = 0 then remove_registered smart t w else add_registered smart t w)) wf_server"
    proof (cases r; cases "w_tmsgs w")
      fix b y ms
      assume r: "r = Some b" and y: "w_tmsgs w = y # ms"
      obtain t action where ta: "y = (t, action)" by fastforce
      have "message_ok (w\<lparr>w_rs := (w_rs w)(fd := rs), w_tmsgs := ms\<rparr>) (t, action)" using m [OF y] ta same by simp
      then show ?thesis
        using r y ta remove_registered_ok [OF sv] add_registered_ok [OF sv] by (cases "action = 0") simp_all
    qed simp_all
  qed
qed (simp add: transport_registration_func_def inv)

section \<open>From the start\<close>

text \<open>The listener for the clients belongs to no device.\<close>

lemma install_only: "w_listener_list w = [] \<Longrightarrow> install_listener n c t r w = new_listener n c t w"
  by (simp add: install_listener_def)

lemma client_listener_ok:
  assumes inv: "wf_server w" and none: "w_listener_list w = []"
  shows "ok (install_listener name ''*smartsocket*'' None False w) (\<lambda>(st, w'). wf_server w' \<and>
    (st = INSTALL_STATUS_OK \<longrightarrow> (\<exists>l x. w_listener_list w' = [l] \<and> w_listeners w' l = Some x \<and> l_local_name x = name \<and>
       l_connect_to x = ''*smartsocket*'' \<and> l_transport x = None)))"
  unfolding install_only [OF none] new_listener_def
proof (rule ok_ebind [OF local_name_to_fd_ok [OF inv]], clarify)
  fix fd w1
  assume w1: "wf_server w1" "w_trans w1 = w_trans w" "w_listeners w1 = w_listeners w" "w_listener_list w1 = w_listener_list w"
    "w_next w1 = w_next w" "\<forall>d. fd = Some d \<longrightarrow> free_fd (w_fdev w1) d"
  let ?P = "\<lambda>(st, w'). wf_server w' \<and> (st = INSTALL_STATUS_OK \<longrightarrow> (\<exists>l x. w_listener_list w' = [l] \<and>
    w_listeners w' l = Some x \<and> l_local_name x = name \<and> l_connect_to x = ''*smartsocket*'' \<and> l_transport x = None))"
  show "ok (case fd of None \<Rightarrow> Inr (INSTALL_STATUS_CANNOT_BIND, w1)
     | Some fd \<Rightarrow> let l = w_next w1;
         func = (if ''*smartsocket*'' = ''*smartsocket*'' then Ss_listener_event_func else Listener_event_func);
         w = w1\<lparr>w_next := Suc l\<rparr>
         in ebind (on_fdev (fdevent_install (FListener l) fd func) w) (\<lambda>w.
            ebind (on_fdev (fdevent_set (FListener l) FDE_READ) w) (\<lambda>w.
            let w = w\<lparr>w_listeners := (w_listeners w)(l \<mapsto> \<lparr>l_fd = fd, l_local_name = name,
                   l_connect_to = ''*smartsocket*'', l_transport = None\<rparr>), w_listener_list := w_listener_list w @ [l]\<rparr>
            in ebind (case None of None \<Rightarrow> Inr w | Some t \<Rightarrow> add_transport_disconnect t (Dis_listener l) w)
                 (\<lambda>w. Inr (INSTALL_STATUS_OK, w))))) ?P"
  proof (cases fd)
    case (Some d)
    let ?l = "w_next w1" and ?x = "\<lparr>l_fd = d, l_local_name = name, l_connect_to = ''*smartsocket*'', l_transport = None\<rparr>"
    have li: "listeners_inv w1" and empty: "w_listener_list w1 = []" using w1(1,4) none by (auto simp: wf_server_def)
    have nol: "w_listeners w1 k = None" for k using listenersD(2) [OF li, of k] empty by auto
    have un: "\<not> owned (w_fdev w1) (FListener k)" for k using listenersD(4) [OF li, of k] nol by simp
    obtain f where f: "fdevent_install (FListener ?l) d Ss_listener_event_func (w_fdev w1) = Inr f" "fdev_inv f"
        "owned f = (owned (w_fdev w1))(FListener ?l := True)"
      using ev.install_law [OF server_eventsD(1) [OF w1(1)] _ un] w1(6) Some by blast
    obtain g where g: "fdevent_set (FListener ?l) FDE_READ f = Inr g" "fdev_inv g" "owned g = owned f"
      using fdevent_set_owned [OF f(2), of "FListener ?l"] f(3) by auto
    define w' where "w' = w1\<lparr>w_next := Suc ?l, w_fdev := g, w_listeners := (w_listeners w1)(?l \<mapsto> ?x), w_listener_list := [?l]\<rparr>"
    have dis: "w_dis w' = w_dis w1" by (simp add: w'_def w_dis_def fun_eq_iff)
    have "same_remotes w1 w'" by (rule same_remotes_refl [OF dis])
    then have "wf_world w'"
      by (rule wf_world_remotes [rotated]) (use w1(1) f(3) g(2,3) in \<open>simp_all add: w'_def wf_server_def\<close>)
    moreover have "\<not> registered w' t k" for t k using listenersD(5) [OF li, of t k] nol by (auto simp: registered_def dis)
    then have "listeners_inv w'"
      using nol un f(3) g(3) by (auto simp: listeners_inv_def w'_def special_def)
    ultimately show ?thesis
      using Some f(1) g(1) empty by (simp add: Let_def on_fdev_def w'_def wf_server_def)
  qed (use w1(1) in simp)
qed

lemma boot_server:
  assumes "\<forall>fd \<in> set newfds. fd < int FD_LIMIT"
  shows "wf_server (boot ws rs newfds newthreads)"
  using assms fdev_init_inv
  by (simp add: wf_server_def wf_world_def wf_upto_def wf_parts unlocked_def listeners_inv_def registered_def w_dis_def boot_def
      owned_def fdev_init_def)

lemma registration_alike:
  assumes "alike W w" and "\<not> owned (w_fdev w) FRegistration"
  shows "ok (init_transport_registration w) (alike W)"
  unfolding init_transport_registration_def
proof (rule ok_ebind [OF socketpair_alike [OF assms(1)]], clarify)
  fix s w1
  assume w1: "alike W w1" "w_fdev w1 = w_fdev w" "\<forall>s0 s1. s = Some (s0, s1) \<longrightarrow> free_fd (w_fdev w) s0 \<and> free_fd (w_fdev w) s1"
  have "alike W (w1\<lparr>w_registration_send := s0\<rparr>)" for s0
    by (rule alike_frame [OF w1(1)]) (simp_all add: alike_events [OF w1(1)] w_dis_def fun_eq_iff)
  then have "ok (ebind (on_fdev (fdevent_install FRegistration s1 fn) (w1\<lparr>w_registration_send := s0\<rparr>))
      (on_fdev (fdevent_set FRegistration FDE_READ))) (alike W)" if "free_fd (w_fdev w) s1" for s0 s1 fn
    by (rule install_alike) (use that w1(2) assms(2) in simp_all)
  then show "ok (case s of None \<Rightarrow> Inl (Fatal ''cannot open transport registration socketpair'')
     | Some (s0, s1) \<Rightarrow> ebind (on_fdev (fdevent_install FRegistration s1 Transport_registration_func) (w1\<lparr>w_registration_send := s0\<rparr>))
         (on_fdev (fdevent_set FRegistration FDE_READ))) (alike W)"
    using w1(3) by (auto split: option.split)
qed

lemma thread_init_alike:
  assumes "alike W w"
  shows "ok (usb_init w) (alike W)" "ok (local_init w) (alike W)"
  unfolding usb_init_def local_init_def
  by (rule ok_ebind [OF thread_create_alike [OF assms]]; auto)+

lemma adb_main_server:
  assumes fds: "\<forall>fd \<in> set newfds. fd < int FD_LIMIT"
    and main: "adb_main os bad server_port h (boot ws rs newfds newthreads) = Inr (vendorIds, h', w)"
  shows "wf_server w \<and> (\<exists>l x. w_listener_list w = [l] \<and> w_listeners w l = Some x \<and>
    l_local_name x = build_local_name 30 server_port \<and> l_connect_to x = ''*smartsocket*'' \<and> l_transport x = None)"
proof -
  let ?W = "boot ws rs newfds newthreads"
  have "alike ?W ?W" "\<not> owned (w_fdev ?W) FRegistration"
    using boot_server [OF fds] by (simp_all add: alike_def owned_def boot_def fdev_init_def)
  then have reg: "ok (init_transport_registration ?W) (alike ?W)" by (rule registration_alike)
  from main obtain w1 w2 w3 keys st where steps: "init_transport_registration ?W = Inr w1"
      "usb_init (w1\<lparr>w_HOST := True\<rparr>) = Inr w2" "local_init w2 = Inr w3" "st = INSTALL_STATUS_OK"
      "install_listener (build_local_name 30 server_port) ''*smartsocket*'' None False (install_keys keys w3) = Inr (st, w)"
    unfolding adb_main_def Let_def
    by (auto simp: ebind_eq_Inr split: if_split_asm)
  have w1: "alike ?W w1" using reg steps(1) by simp
  have "alike ?W (w1\<lparr>w_HOST := True\<rparr>)"
    by (rule alike_frame [OF w1]) (simp_all add: alike_events [OF w1] w_dis_def fun_eq_iff)
  then have "alike ?W w2" using thread_init_alike(1) steps(2) by (metis ok_Inr)
  then have w3: "alike ?W w3" using thread_init_alike(2) steps(3) by (metis ok_Inr)
  have "wf_server (install_keys keys w3)"
    by (rule server_frame [of w3])
      (use w3 alike_events [OF w3] in \<open>simp_all add: alike_def install_keys_def w_dis_def fun_eq_iff\<close>)
  moreover have "w_listener_list (install_keys keys w3) = []" using w3 by (simp add: alike_def install_keys_def boot_def)
  ultimately show ?thesis
    using client_listener_ok [of "install_keys keys w3" "build_local_name 30 server_port"] steps(4,5) by simp
qed

section \<open>The event loop\<close>

text \<open>One step, whatever it is.\<close>

lemma post_packet_ok:
  assumes sv: "serving t w"
  shows "ok (post_packet t p w) (\<lambda>(_, w'). wf_server w')"
proof -
  obtain x where x: "w_trans w t = Some x" and inv: "wf_server w" using sv by (auto simp: serving_def)
  have w': "wf_server (w\<lparr>w_ws := ws, w_trans := (w_trans w)(t \<mapsto> x\<lparr>t_from_remote := ps\<rparr>)\<rparr>)" for ws ps
    by (rule server_frame [OF inv]) (simp_all add: server_eventsD [OF inv] w_dis_def fun_eq_iff x)
  have w1: "wf_server (w\<lparr>w_ws := ws\<rparr>)" for ws
    by (rule server_frame [OF inv]) (simp_all add: server_eventsD [OF inv] w_dis_def fun_eq_iff)
  show ?thesis
    by (auto simp: post_packet_def get_trans_def mod_trans_def x Let_def write_packet_def w' w1 intro!: ok_ebind [OF write_ptr_loop_ok])
qed

lemma socket_events_ok:
  assumes sv: "serving t w" and x: "w_trans w t = Some x" and p: "\<And>p ps. t_from_remote x = p # ps \<Longrightarrow> accepted p"
    and sig: "\<And>k tok sig. ae_sign env k tok = Some sig \<Longrightarrow> length sig \<le> MAX_PAYLOAD"
  shows "ok (transport_socket_events smart env t fd ev w) wf_server"
proof (cases "ev AND FDE_READ = 0")
  case False
  have inv: "wf_server w" using sv by (simp add: serving_def)
  have w1: "wf_server (w\<lparr>w_rs := rs\<rparr>)" for rs
    by (rule server_frame [OF inv]) (simp_all add: server_eventsD [OF inv] w_dis_def fun_eq_iff)
  have w2: "serving t (w\<lparr>w_rs := rs, w_trans := (w_trans w)(t \<mapsto> x\<lparr>t_from_remote := ps\<rparr>)\<rparr>)" for rs ps
    unfolding serving_def
    by (rule conjI, rule server_frame [OF inv]) (simp_all add: server_eventsD [OF inv] w_dis_def fun_eq_iff x)
  have h: "ok (handle_packet smart env q t (w\<lparr>w_rs := rs, w_trans := (w_trans w)(t \<mapsto> x\<lparr>t_from_remote := ps\<rparr>)\<rparr>)) wf_server"
    if "accepted q" for q rs ps
    by (rule ok_mono [OF handle_packet_ok [OF w2]]) (use that sig in \<open>auto simp: accepted_def serving_def\<close>)
  show ?thesis
    using False x by (auto simp: transport_socket_events_def get_trans_def mod_trans_def read_packet_def Let_def w1
        intro!: ok_ebind [OF readx_ok] h p split: option.split list.split)
qed (use sv in \<open>simp add: transport_socket_events_def serving_def\<close>)

lemma handle_ok:
  assumes inv: "wf_server w" and adm: "admissible e w"
    and sig: "\<And>k tok sig. ae_sign env k tok = Some sig \<Longrightarrow> length sig \<le> MAX_PAYLOAD"
  shows "ok (handle smart env e w) wf_server"
proof (cases e)
  case (Packet_posted t p)
  then have "serving t w" using inv adm by (simp add: admissible_def serving_def)
  from post_packet_ok [OF this] show ?thesis unfolding Packet_posted handle_def event.case by (rule ok_ebind) auto
next
  case (Transport_ready t fd ev)
  then obtain x where x: "w_trans w t = Some x" and c: "case t_from_remote x of [] \<Rightarrow> True | p # _ \<Rightarrow> accepted p"
    using adm by (auto simp: admissible_def split: option.splits)
  then have "serving t w" using inv by (simp add: serving_def)
  then have "ok (transport_socket_events smart env t fd ev w) wf_server"
    by (rule socket_events_ok [OF _ x]) (use c sig in simp_all)
  then show ?thesis using Transport_ready by (simp add: handle_def)
next
  case (Stream_ready a fd ev)
  have "listeners_inv w" and "wf_world w" using inv by (auto simp: wf_server_def)
  moreover have "streaming w a" using adm Stream_ready by (simp add: admissible_def)
  ultimately show ?thesis
    using local_socket_event_ok [of w a smart fd ev] listeners_shrinks [of w] Stream_ready
    by (auto simp: handle_def settled_def wf_server_def elim!: ok_mono)
next
  case (Client_waiting ev)
  then show ?thesis using ss_listener_event_ok [OF inv] by (simp add: handle_def)
next
  case (Forward_waiting l ev)
  then obtain x t where "w_listeners w l = Some x" "l_transport x = Some t"
    using adm by (auto simp: admissible_def split: option.splits)
  then show ?thesis using listener_event_ok [OF inv] Forward_waiting by (simp add: handle_def)
next
  case (Registration fd ev)
  have "message_ok w m" if "w_tmsgs w = m # ms" for m ms using adm Registration that by (simp add: admissible_def)
  then show ?thesis using registration_ok [OF inv, of smart fd ev] Registration by (simp add: handle_def)
next
  case (Forward local_name connect_to t no_rebind)
  then obtain y where "w_trans w t = Some y" using adm by (auto simp: admissible_def)
  from install_listener_ok [OF inv this] show ?thesis
    unfolding Forward handle_def event.case by (rule ok_ebind) auto
next
  case (Unforward name)
  then show ?thesis using remove_listener_ok [OF inv, of name] by (auto simp: handle_def)
next
  case Unforward_all
  then show ?thesis using remove_all_listeners_clears [OF inv] by (auto simp: handle_def elim!: ok_mono)
next
  case (Usb_device usb serial devpath writeable)
  then show ?thesis using register_usb_ok [OF inv] adm by (simp add: handle_def admissible_def)
qed

lemma reach_server:
  assumes "reach smart env w" and "\<And>k tok sig. ae_sign env k tok = Some sig \<Longrightarrow> length sig \<le> MAX_PAYLOAD"
  shows "wf_server w"
  using assms(1)
proof induction
  case (start newfds os bad server_port h ws rs newthreads vendorIds h' w)
  then show ?case using adb_main_server by blast
next
  case (step w e w')
  then show ?case using handle_ok [OF step.IH step.hyps(2), of env smart] assms(2) by simp
qed



section \<open>An instance\<close>

definition quiet_host :: host where
  "quiet_host = \<lparr>h_env = (\<lambda>_. None), h_files = Map.empty, h_dirs = [], h_mkdir = (\<lambda>_. False), h_create = (\<lambda>_. False),
     h_hostname = None, h_login = None\<rparr>"

lemma grow_256: "grow_table_max 256 n = 256" if "n < 256"
  by (subst grow_table_max.simps) (use that in simp)

text \<open>The first event record on a small descriptor.\<close>

lemma first_install:
  "fdevent_install x 4 fn fdev_init = Inr (fdev_init\<lparr>fdes := [x \<mapsto> \<lparr>fde_fd = 4, fde_force_eof = False, fde_state = FDE_ACTIVE,
     fde_events = 0, fde_func = fn\<rparr>], fd_table := (new_slots 256)[4 := Fde x], select_n := 5\<rparr>)"
  by (simp add: fdevent_install_def fdevent_register_def fdevent_connect_def get_fde_def put_fde_def fdev_init_def Let_def grow_256)

lemma fdevent_set_table: "fdevent_set x ev f = Inr f' \<Longrightarrow> fd_table f' = fd_table f"
  by (auto simp: fdevent_set_def put_fde_def fdevent_update_def fdevent_plist_remove_def ebind_eq_Inr Let_def split: if_split_asm)

definition sample_boot :: world where
  "sample_boot = boot (\<lambda>_. replicate 4 (WOk 16)) (\<lambda>_. []) [3, 4, 5] [True, True]"

lemma sample_registration:
  "\<exists>g. init_transport_registration sample_boot = Inr (sample_boot\<lparr>w_newfds := [5], w_registration_send := 3, w_fdev := g\<rparr>) \<and>
     \<not> fd_in_use g 5"
proof -
  have free: "free_fd fdev_init 4" "\<not> owned fdev_init FRegistration"
    by (simp_all add: free_fd_def FD_LIMIT_def active_def fdev_init_def owned_def)
  obtain f where f: "fdevent_install FRegistration 4 Transport_registration_func fdev_init = Inr f" "fdev_inv f"
      "owned f = (owned fdev_init)(FRegistration := True)"
    using ev.install_law [OF fdev_init_inv free] by blast
  obtain g where g: "fdevent_set FRegistration FDE_READ f = Inr g"
    using fdevent_set_owned [OF f(2), of FRegistration] f(3) by auto
  have "fd_table g = (new_slots 256)[4 := Fde FRegistration]"
    using f(1) fdevent_set_table [OF g] by (auto simp: first_install)
  then have "\<not> fd_in_use g 5" by (simp add: fd_in_use_def new_slots_def nth_append ptr_size_def)
  moreover have "\<not> fd_in_use fdev_init n" for n by (simp add: fd_in_use_def fdev_init_def)
  then have "adb_socketpair sample_boot = Inr (Some (3, 4), sample_boot\<lparr>w_newfds := [5]\<rparr>)"
    by (simp add: adb_socketpair_def open_fd_def sample_boot_def boot_def)
  then have "init_transport_registration sample_boot = Inr (sample_boot\<lparr>w_newfds := [5], w_registration_send := 3, w_fdev := g\<rparr>)"
    using f(1) g by (simp add: init_transport_registration_def on_fdev_def) (simp add: sample_boot_def boot_def on_fdev_def)
  ultimately show ?thesis by blast
qed

lemma sample_main:
  "\<exists>ids h w. adb_main sample_openssl False 5037 quiet_host sample_boot = Inr (ids, h, w) \<and> w_trans w = Map.empty"
proof -
  have lim: "\<forall>fd \<in> set [3, 4, 5]. fd < int FD_LIMIT" by (simp add: FD_LIMIT_def)
  have "wf_server sample_boot" unfolding sample_boot_def by (rule boot_server [OF lim])
  then have boot: "alike sample_boot sample_boot" by (simp add: alike_def)
  have un: "\<not> owned (w_fdev sample_boot) FRegistration" by (simp add: sample_boot_def boot_def owned_def fdev_init_def)
  obtain g where g: "init_transport_registration sample_boot = Inr (sample_boot\<lparr>w_newfds := [5], w_registration_send := 3, w_fdev := g\<rparr>)"
      "\<not> fd_in_use g 5" using sample_registration by blast
  have "alike sample_boot (sample_boot\<lparr>w_newfds := [5], w_registration_send := 3, w_fdev := g\<rparr>)"
    using registration_alike [OF boot un] g(1) by simp
  then have wf: "wf_server (sample_boot\<lparr>w_newfds := [5], w_registration_send := 3, w_fdev := g\<rparr>)" by (simp add: alike_def)
  let ?w = "sample_boot\<lparr>w_newfds := [5], w_registration_send := 3, w_fdev := g, w_HOST := True, w_newthreads := [], w_key_list := []\<rparr>"
  have keys: "install_keys [] (sample_boot\<lparr>w_newfds := [5], w_registration_send := 3, w_fdev := g, w_HOST := True, w_newthreads := []\<rparr>) = ?w"
    by (simp add: install_keys_def)
  have sv: "wf_server ?w"
    by (rule server_frame [OF wf]) (simp_all add: server_eventsD(1) [OF wf, simplified] w_dis_def fun_eq_iff)
  have free: "free_fd g 5"
    using open_fd_free(1) [of ?w 5 "?w\<lparr>w_newfds := []\<rparr>"] sv g(2) by (simp add: open_fd_def wf_server_def)
  have li: "\<not> owned g (FListener 0)" using listenersD(4) [of ?w 0] sv by (simp add: wf_server_def) (simp add: sample_boot_def boot_def)
  obtain f1 where f1: "fdevent_install (FListener 0) 5 Ss_listener_event_func g = Inr f1" "fdev_inv f1"
      "owned f1 = (owned g)(FListener 0 := True)"
    using ev.install_law [OF _ free li] server_eventsD(1) [OF wf] by auto
  obtain g1 where g1: "fdevent_set (FListener 0) FDE_READ f1 = Inr g1"
    using fdevent_set_owned [OF f1(2), of "FListener 0"] f1(3) by auto
  have zero: "w_next ?w = 0" "w_listener_list ?w = []" "w_trans ?w = Map.empty" by (simp_all add: sample_boot_def boot_def)
  have "local_name_to_fd (build_local_name 30 5037) ?w = Inr (Some 5, ?w\<lparr>w_newfds := []\<rparr>)"
    using g(2) by (simp add: local_name_to_fd_def build_local_name_def snprintf_def starts_with_def open_fd_def)
  then have "\<exists>w. install_listener (build_local_name 30 5037) ''*smartsocket*'' None False ?w = Inr (INSTALL_STATUS_OK, w) \<and> w_trans w = Map.empty"
    using f1(1) g1 zero unfolding install_only [OF zero(2)] new_listener_def by (simp add: Let_def on_fdev_def)
  moreover have "usb_vendors_init False (vendor_file quiet_host) = Inr builtInVendorIds"
    by (simp add: usb_vendors_init_def length_builtin VENDOR_COUNT_MAX_def vendor_file_def quiet_host_def split: prod.split)
  moreover have "adb_auth_init sample_openssl quiet_host = Inr ([], quiet_host)"
    by (simp add: adb_auth_init_def get_user_key_def get_user_keyfilepath_def quiet_host_def)
  moreover have "w_newthreads sample_boot = [True, True]" "w_key_list sample_boot = []" by (simp_all add: sample_boot_def boot_def)
  ultimately show ?thesis
    using g(1) keys by (auto simp: adb_main_def usb_init_def local_init_def adb_thread_create_def)
qed

lemma sample_reach: "\<exists>w. reach (\<lambda>_ _ _. Inl Blocked) no_auth w \<and> w_trans w = Map.empty"
proof -
  have "\<forall>fd \<in> set [3, 4, 5]. fd < int FD_LIMIT" by (simp add: FD_LIMIT_def)
  then show ?thesis using sample_main reach.start unfolding sample_boot_def by blast
qed

lemma no_auth_short: "ae_sign no_auth k tok = Some sig \<Longrightarrow> length sig \<le> MAX_PAYLOAD"
  by (simp add: no_auth_def)



end
