(* ===== verification/Adb_Net.thy ===== *)
theory Adb_Net
  imports Adb_Protocol "HOL-Library.Sublist"
begin

text \<open>
  The socket helpers (socket\_inaddr\_any\_server.c, socket\_loopback\_server.c,
  socket\_loopback\_client.c, socket\_local\_server.c, socket\_local\_client.c,
  socket\_network\_client.c), the functions that choose one of them for a name
  (\<open>local_name_to_fd\<close>, \<open>service_to_fd\<close>, \<open>local_connect_arbitrary_ports\<close>) and
  get\_my\_path\_linux.c.

  The other theories treat a call that opens a descriptor as one step that gives a new
  descriptor or none. Here the system calls are single steps: the state has the results that
  the kernel will give, the descriptors that are open, and the calls made so far. Closing a
  descriptor that is not open is \<open>UseAfterFree\<close>.
\<close>

section \<open>System calls\<close>

definition AF_LOCAL :: int where "AF_LOCAL = 1"
definition AF_INET :: int where "AF_INET = 2"
definition SOCK_STREAM :: u32 where "SOCK_STREAM = 1"
definition EINPROGRESS :: nat where "EINPROGRESS = 115"
definition O_NONBLOCK :: u32 where "O_NONBLOCK = 0x800"
definition LISTEN_BACKLOG :: nat where "LISTEN_BACKLOG = 4"
definition SOCK_TYPE_MASK :: u32 where "SOCK_TYPE_MASK = 0xf"

lemmas net_defs = AF_LOCAL_def AF_INET_def SOCK_STREAM_def EINPROGRESS_def O_NONBLOCK_def LISTEN_BACKLOG_def
  SOCK_TYPE_MASK_def

text \<open>Addresses: family, address and port, or the bytes of \<open>sun_path\<close> and the length.\<close>

datatype sockaddr = Inet int bytes u16 | Unix bytes nat

datatype call = Socket int u32 | Setsockopt int | Bind int sockaddr | Listen int nat | Connect int sockaddr
  | Close int | Unlink string | Getfl int | Setfl int u32 | Select int nat | Getsockopt int

text \<open>A result is the return value and what else the call leaves: \<open>errno\<close>, the error that
  \<open>getsockopt\<close> stores, or for \<open>select\<close> whether the descriptor is in one of its sets.\<close>

record net =
  nt_rets :: "(int \<times> nat) list"
  nt_open :: "int list"
  nt_trace :: "call list"

definition sys :: "call \<Rightarrow> net \<Rightarrow> err + ((int \<times> nat) \<times> net)" where
  "sys c n = (case nt_rets n of [] \<Rightarrow> Inl Blocked | r # rs \<Rightarrow> Inr (r, n\<lparr>nt_rets := rs, nt_trace := nt_trace n @ [c]\<rparr>))"

text \<open>\<open>socket\<close> gives a descriptor that is not open.\<close>

definition sys_socket :: "int \<Rightarrow> u32 \<Rightarrow> net \<Rightarrow> err + (int \<times> net)" where
  "sys_socket domain type n =
     ebind (sys (Socket domain type) n) (\<lambda>((s, _), n).
       if s < 0 then Inr (s, n)
       else if s \<in> set (nt_open n) then Inl Blocked
       else Inr (s, n\<lparr>nt_open := s # nt_open n\<rparr>))"

definition sys_close :: "int \<Rightarrow> net \<Rightarrow> err + net" where
  "sys_close s n =
     (if s \<in> set (nt_open n) then Inr (n\<lparr>nt_open := remove1 s (nt_open n), nt_trace := nt_trace n @ [Close s]\<rparr>)
      else Inl UseAfterFree)"

definition close_fail :: "int \<Rightarrow> net \<Rightarrow> err + (int \<times> net)" where
  "close_fail s n = ebind (sys_close s n) (\<lambda>n. Inr (-1, n))"

section \<open>Internet sockets\<close>

definition INADDR_ANY :: bytes where "INADDR_ANY = [NUL, NUL, NUL, NUL]"
definition INADDR_LOOPBACK :: bytes where "INADDR_LOOPBACK = [CHR 0x7F, NUL, NUL, CHR 0x01]"

text \<open>The two servers differ in the address only. \<open>htons\<close> takes the low half of the port.\<close>

definition inet_server :: "bytes \<Rightarrow> int \<Rightarrow> u32 \<Rightarrow> net \<Rightarrow> err + (int \<times> net)" where
  "inet_server address port type n =
     (let addr = Inet AF_INET address (word_of_int port) in
      ebind (sys_socket AF_INET type n) (\<lambda>(s, n).
        if s < 0 then Inr (-1, n)
        else ebind (sys (Setsockopt s) n) (\<lambda>(_, n).
             ebind (sys (Bind s addr) n) (\<lambda>((r, _), n).
               if r < 0 then close_fail s n
               else if type = SOCK_STREAM then
                 ebind (sys (Listen s LISTEN_BACKLOG) n) (\<lambda>((r, _), n). if r < 0 then close_fail s n else Inr (s, n))
               else Inr (s, n)))))"

definition socket_inaddr_any_server :: "int \<Rightarrow> u32 \<Rightarrow> net \<Rightarrow> err + (int \<times> net)" where
  "socket_inaddr_any_server port type n = inet_server INADDR_ANY port type n"

definition socket_loopback_server :: "int \<Rightarrow> u32 \<Rightarrow> net \<Rightarrow> err + (int \<times> net)" where
  "socket_loopback_server port type n = inet_server INADDR_LOOPBACK port type n"

definition socket_loopback_client :: "int \<Rightarrow> u32 \<Rightarrow> net \<Rightarrow> err + (int \<times> net)" where
  "socket_loopback_client port type n =
     (let addr = Inet AF_INET INADDR_LOOPBACK (word_of_int port) in
      ebind (sys_socket AF_INET type n) (\<lambda>(s, n).
        if s < 0 then Inr (-1, n)
        else ebind (sys (Connect s addr) n) (\<lambda>((r, _), n). if r < 0 then close_fail s n else Inr (s, n))))"

text \<open>\<open>gethostbyname\<close> finds IPv4 addresses.\<close>

type_synonym resolver = "string \<Rightarrow> u32 option"

text \<open>The part behind \<open>done\<close>.\<close>

definition restore_flags :: "int \<Rightarrow> u32 \<Rightarrow> net \<Rightarrow> err + (int \<times> net)" where
  "restore_flags s flags n =
     ebind (sys (Setfl s flags) n) (\<lambda>((r, _), n). if r < 0 then close_fail s n else Inr (s, n))"

text \<open>The wait for a connection in progress. \<open>FD_SET\<close> does not check the descriptor.\<close>

definition await_connection :: "int \<Rightarrow> u32 \<Rightarrow> nat \<Rightarrow> net \<Rightarrow> err + (int \<times> net)" where
  "await_connection s flags timeout n =
     (if FD_SETSIZE \<le> s then Inl OutOfBounds
      else ebind (sys (Select s timeout) n) (\<lambda>((r, ready), n).
        if r \<le> 0 then close_fail s n
        else if ready = 0 then close_fail s n
        else ebind (sys (Getsockopt s) n) (\<lambda>((r, error), n).
          if r < 0 then close_fail s n
          else if error \<noteq> 0 then close_fail s n
          else restore_flags s flags n)))"

definition socket_network_client_timeout :: "resolver \<Rightarrow> string \<Rightarrow> int \<Rightarrow> u32 \<Rightarrow> nat \<Rightarrow> net \<Rightarrow> err + (int \<times> net)" where
  "socket_network_client_timeout dns host port type timeout n =
     (case dns host of
        None \<Rightarrow> Inr (-1, n)
      | Some address \<Rightarrow>
          let addr = Inet AF_INET (put32 address) (word_of_int port) in
          ebind (sys_socket AF_INET type n) (\<lambda>(s, n).
            if s < 0 then Inr (-1, n)
            else ebind (sys (Getfl s) n) (\<lambda>((fl, _), n).
              if fl < 0 then close_fail s n
              else
                let flags = word_of_int fl in
                ebind (sys (Setfl s (flags OR O_NONBLOCK)) n) (\<lambda>((r, _), n).
                  if r < 0 then close_fail s n
                  else ebind (sys (Connect s addr) n) (\<lambda>((r, errno), n).
                    if r < 0 \<and> errno \<noteq> EINPROGRESS then close_fail s n
                    else if r = 0 then restore_flags s flags n
                    else await_connection s flags timeout n)))))"

definition socket_network_client :: "resolver \<Rightarrow> string \<Rightarrow> int \<Rightarrow> u32 \<Rightarrow> net \<Rightarrow> err + (int \<times> net)" where
  "socket_network_client dns host port type n = socket_network_client_timeout dns host port type 0 n"

section \<open>Local sockets\<close>

definition SUN_PATH_SIZE :: nat where "SUN_PATH_SIZE = 108"
definition SUN_PATH_OFFSET :: nat where "SUN_PATH_OFFSET = 2"
definition ANDROID_RESERVED_SOCKET_PREFIX :: string where "ANDROID_RESERVED_SOCKET_PREFIX = ''/dev/socket/''"

lemmas sun_defs = SUN_PATH_SIZE_def SUN_PATH_OFFSET_def ANDROID_RESERVED_SOCKET_PREFIX_def

text \<open>A write to the cleared \<open>sun_path\<close>.\<close>

definition sun_write :: "nat \<Rightarrow> bytes \<Rightarrow> err + bytes" where
  "sun_write off bs =
     (if SUN_PATH_SIZE < off + length bs then Inl OutOfBounds
      else Inr (replicate off NUL @ bs @ replicate (SUN_PATH_SIZE - off - length bs) NUL))"

text \<open>\<open>strcpy\<close> and \<open>strcat\<close> write the NUL at the end as well.\<close>

definition socket_make_sockaddr_un :: "string \<Rightarrow> socket_namespace \<Rightarrow> err + (bytes \<times> nat) option" where
  "socket_make_sockaddr_un name namespaceId =
     (case namespaceId of
        NS_Abstract \<Rightarrow>
          let namelen = length name in
          if SUN_PATH_SIZE < namelen + 1 then Inr None
          else ebind (sun_write 1 name) (\<lambda>path. Inr (Some (path, namelen + SUN_PATH_OFFSET + 1)))
      | NS_Reserved \<Rightarrow>
          let namelen = length name + length ANDROID_RESERVED_SOCKET_PREFIX in
          if SUN_PATH_SIZE - 1 < namelen then Inr None
          else ebind (sun_write 0 (ANDROID_RESERVED_SOCKET_PREFIX @ name @ [NUL])) (\<lambda>path.
                 Inr (Some (path, namelen + SUN_PATH_OFFSET + 1)))
      | NS_Filesystem \<Rightarrow>
          let namelen = length name in
          if SUN_PATH_SIZE - 1 < namelen then Inr None
          else ebind (sun_write 0 (name @ [NUL])) (\<lambda>path. Inr (Some (path, namelen + SUN_PATH_OFFSET + 1))))"

definition socket_local_client_connect :: "int \<Rightarrow> string \<Rightarrow> socket_namespace \<Rightarrow> net \<Rightarrow> err + (int \<times> net)" where
  "socket_local_client_connect fd name namespaceId n =
     ebind (socket_make_sockaddr_un name namespaceId) (\<lambda>a.
       case a of
         None \<Rightarrow> Inr (-1, n)
       | Some (path, alen) \<Rightarrow>
           ebind (sys (Connect fd (Unix path alen)) n) (\<lambda>((r, _), n). Inr (if r < 0 then -1 else fd, n)))"

definition socket_local_client :: "string \<Rightarrow> socket_namespace \<Rightarrow> u32 \<Rightarrow> net \<Rightarrow> err + (int \<times> net)" where
  "socket_local_client name namespaceId type n =
     ebind (sys_socket AF_LOCAL type n) (\<lambda>(s, n).
       if s < 0 then Inr (-1, n)
       else ebind (socket_local_client_connect s name namespaceId n) (\<lambda>(r, n).
         if r < 0 then close_fail s n else Inr (s, n)))"

definition socket_local_server_bind :: "int \<Rightarrow> string \<Rightarrow> socket_namespace \<Rightarrow> net \<Rightarrow> err + (int \<times> net)" where
  "socket_local_server_bind s name namespaceId n =
     ebind (socket_make_sockaddr_un name namespaceId) (\<lambda>a.
       case a of
         None \<Rightarrow> Inr (-1, n)
       | Some (path, alen) \<Rightarrow>
           ebind (if namespaceId = NS_Abstract then Inr n
                  else ebind (cstr_at path) (\<lambda>p. ebind (sys (Unlink p) n) (\<lambda>(_, n). Inr n))) (\<lambda>n.
           ebind (sys (Setsockopt s) n) (\<lambda>(_, n).
           ebind (sys (Bind s (Unix path alen)) n) (\<lambda>((r, _), n). Inr (if r < 0 then -1 else s, n)))))"

definition socket_local_server :: "string \<Rightarrow> socket_namespace \<Rightarrow> u32 \<Rightarrow> net \<Rightarrow> err + (int \<times> net)" where
  "socket_local_server name namespaceId type n =
     ebind (sys_socket AF_LOCAL type n) (\<lambda>(s, n).
       if s < 0 then Inr (-1, n)
       else ebind (socket_local_server_bind s name namespaceId n) (\<lambda>(r, n).
         if r < 0 then close_fail s n
         else if type AND SOCK_TYPE_MASK = SOCK_STREAM then
           ebind (sys (Listen s LISTEN_BACKLOG) n) (\<lambda>((r, _), n). if r < 0 then close_fail s n else Inr (s, n))
         else Inr (s, n)))"

section \<open>Names\<close>

text \<open>\<open>local_name_to_fd\<close>; \<open>listen_all\<close> is \<open>gListenAll > 0\<close>.\<close>

definition bind_local_name :: "bool \<Rightarrow> string \<Rightarrow> net \<Rightarrow> err + (int \<times> net)" where
  "bind_local_name listen_all name n =
     (if starts_with ''tcp:'' name then
        (let port = atoi (drop 4 name) in
         if listen_all then socket_inaddr_any_server port SOCK_STREAM n else socket_loopback_server port SOCK_STREAM n)
      else if starts_with ''local:'' name then socket_local_server (drop 6 name) NS_Abstract SOCK_STREAM n
      else if starts_with ''localabstract:'' name then socket_local_server (drop 14 name) NS_Abstract SOCK_STREAM n
      else if starts_with ''localfilesystem:'' name then socket_local_server (drop 16 name) NS_Filesystem SOCK_STREAM n
      else Inr (-1, n))"

text \<open>The socket that \<open>service_to_fd\<close> connects to an endpoint.\<close>

definition connect_endpoint :: "resolver \<Rightarrow> endpoint \<Rightarrow> net \<Rightarrow> err + (int \<times> net)" where
  "connect_endpoint dns e n =
     (case e of
        Loopback port \<Rightarrow>
          ebind (socket_loopback_client port SOCK_STREAM n) (\<lambda>(s, n).
            if s < 0 then Inr (s, n) else ebind (sys (Setsockopt s) n) (\<lambda>(_, n). Inr (s, n)))
      | Network host port \<Rightarrow> socket_network_client dns host port SOCK_STREAM n
      | Local_socket name namespaceId \<Rightarrow> socket_local_client name namespaceId SOCK_STREAM n)"

text \<open>The socket of \<open>local_connect_arbitrary_ports\<close>; \<open>host\<close> is the variable \<open>ADBHOST\<close>.\<close>

definition emulator_socket :: "resolver \<Rightarrow> string option \<Rightarrow> int \<Rightarrow> net \<Rightarrow> err + (int \<times> net)" where
  "emulator_socket dns host adb_port n =
     ebind (case host of None \<Rightarrow> Inr (-1, n) | Some host \<Rightarrow> socket_network_client dns host adb_port SOCK_STREAM n) (\<lambda>(fd, n).
       if fd < 0 then socket_loopback_client adb_port SOCK_STREAM n else Inr (fd, n))"

section \<open>The path of the program\<close>

text \<open>\<open>get_my_path\<close> with the target of the link \<open>/proc/PID/exe\<close>, \<open>None\<close> where \<open>readlink\<close> fails.\<close>

definition get_my_path :: "bytes option \<Rightarrow> nat \<Rightarrow> string" where
  "get_my_path exe maxLen = (case exe of None \<Rightarrow> [] | Some l \<Rightarrow> take (maxLen - 1) l)"

section \<open>The contract of a helper\<close>

text \<open>Either a new descriptor is open and is the result, or the result is -1 and the open
  descriptors are the same.\<close>

definition later :: "net \<Rightarrow> net \<Rightarrow> bool" where
  "later n n' \<longleftrightarrow> set (nt_rets n') \<subseteq> set (nt_rets n) \<and> prefix (nt_trace n) (nt_trace n')"

definition opens :: "net \<Rightarrow> int \<Rightarrow> net \<Rightarrow> bool" where
  "opens n r n' \<longleftrightarrow> later n n' \<and>
     (if r < 0 then r = -1 \<and> nt_open n' = nt_open n else r \<notin> set (nt_open n) \<and> nt_open n' = r # nt_open n)"

text \<open>In between the new descriptor \<open>s\<close> is open.\<close>

definition holding :: "net \<Rightarrow> int \<Rightarrow> net \<Rightarrow> bool" where
  "holding n s n' \<longleftrightarrow> later n n' \<and> 0 \<le> s \<and> s \<notin> set (nt_open n) \<and> nt_open n' = s # nt_open n \<and> s \<in> fst ` set (nt_rets n)"

definition small_fds :: "net \<Rightarrow> bool" where
  "small_fds n \<longleftrightarrow> (\<forall>p \<in> set (nt_rets n). fst p < FD_SETSIZE)"

lemma later_refl [simp]: "later n n"
  by (simp add: later_def)

lemma later_trans: "later n n' \<Longrightarrow> later n' n'' \<Longrightarrow> later n n''"
  unfolding later_def by (meson order_trans prefix_order.trans)

lemma fails_opens: "opens n (-1) n"
  by (simp add: opens_def)

lemma sys_later: "ok (sys c n) (\<lambda>(_, n'). later n n' \<and> nt_open n' = nt_open n \<and> nt_trace n' = nt_trace n @ [c])"
  by (auto simp: sys_def later_def split: list.split)

locale opener =
  fixes f :: "net \<Rightarrow> err + (int \<times> net)"
  assumes contract: "small_fds n \<Longrightarrow> ok (f n) (\<lambda>(r, n'). opens n r n')"
begin

lemma no_leak:
  assumes "small_fds n" and "f n = Inr (r, n')"
  shows "set (nt_open n) \<subseteq> set (nt_open n')" and "r < 0 \<Longrightarrow> nt_open n' = nt_open n"
    and "0 \<le> r \<Longrightarrow> nt_open n' = r # nt_open n \<and> r \<notin> set (nt_open n)"
  using contract [OF assms(1)] assms(2) by (auto simp: opens_def split: if_splits)

end

text \<open>A second helper is tried where the first one fails.\<close>

locale fallback = first: opener f + second: opener g for f g :: "net \<Rightarrow> err + (int \<times> net)"
begin

lemma try_both:
  assumes "small_fds n"
  shows "ok (ebind (f n) (\<lambda>(r, n). if r < 0 then g n else Inr (r, n))) (\<lambda>(r, n'). opens n r n')"
proof (rule ok_ebind [OF first.contract [OF assms]], clarify)
  fix r n1
  assume n1: "opens n r n1"
  show "ok (if r < 0 then g n1 else Inr (r, n1)) (\<lambda>(r, n'). opens n r n')"
  proof (cases "r < 0")
    case True
    then have same: "nt_open n1 = nt_open n" "later n n1" using n1 by (simp_all add: opens_def)
    then have "small_fds n1" using assms by (auto simp: small_fds_def later_def)
    from second.contract [OF this] show ?thesis
      using True same later_trans [OF same(2)] by (auto simp: opens_def elim!: ok_mono split: if_splits)
  qed (use n1 in simp)
qed

end

section \<open>Every helper keeps it\<close>

lemma holding_sys:
  assumes "holding n s n1" and "\<And>r e n2. holding n s n2 \<Longrightarrow> nt_trace n2 = nt_trace n1 @ [c] \<Longrightarrow> ok (k ((r, e), n2)) P"
  shows "ok (ebind (sys c n1) k) P"
proof (rule ok_ebind [OF sys_later], clarify)
  fix r e n2
  assume n2: "later n1 n2" "nt_open n2 = nt_open n1" "nt_trace n2 = nt_trace n1 @ [c]"
  then have "holding n s n2" using assms(1) later_trans [of n n1 n2] by (auto simp: holding_def)
  then show "ok (k ((r, e), n2)) P" using assms(2) n2(3) by blast
qed

lemma holding_close:
  assumes "holding n s n1"
  shows "ok (close_fail s n1) (\<lambda>(r, n'). opens n r n' \<and> r = -1 \<and> nt_trace n' = nt_trace n1 @ [Close s])"
proof -
  have "later n (n1\<lparr>nt_open := nt_open n, nt_trace := nt_trace n1 @ [Close s]\<rparr>)"
    using assms by (auto simp: holding_def later_def)
  then show ?thesis using assms by (simp add: close_fail_def sys_close_def holding_def opens_def)
qed

lemma holding_opens: "holding n s n1 \<Longrightarrow> opens n s n1"
  by (auto simp: holding_def opens_def)

lemma holding_small: "small_fds n \<Longrightarrow> holding n s n1 \<Longrightarrow> s < FD_SETSIZE"
  by (auto simp: holding_def small_fds_def)

lemma socket_holding:
  assumes "\<And>s n1. holding n s n1 \<Longrightarrow> nt_trace n1 = nt_trace n @ [Socket d t] \<Longrightarrow> ok (k (s, n1)) P"
    and "\<And>s n1. s < 0 \<Longrightarrow> opens n (-1) n1 \<Longrightarrow> nt_trace n1 = nt_trace n @ [Socket d t] \<Longrightarrow> ok (k (s, n1)) P"
  shows "ok (ebind (sys_socket d t n) k) P"
proof (cases "nt_rets n")
  case (Cons p ps)
  obtain s e where p: "p = (s, e)" by fastforce
  let ?n = "n\<lparr>nt_rets := ps, nt_trace := nt_trace n @ [Socket d t]\<rparr>"
  have l: "later n ?n" "later n (?n\<lparr>nt_open := s # nt_open n\<rparr>)" using Cons by (auto simp: later_def)
  show ?thesis
  proof (cases "s < 0")
    case True
    then show ?thesis using assms(2) [of s ?n] l Cons p by (simp add: sys_socket_def sys_def opens_def)
  next
    case False
    then have "holding n s (?n\<lparr>nt_open := s # nt_open n\<rparr>)" if "s \<notin> set (nt_open n)"
      using that l Cons p by (simp add: holding_def)
    then show ?thesis using assms(1) [of s "?n\<lparr>nt_open := s # nt_open n\<rparr>"] False Cons p by (simp add: sys_socket_def sys_def)
  qed
qed (simp add: sys_socket_def sys_def)

text \<open>The addresses that were bound on the way, and the socket that listens at the end.\<close>

definition binds :: "net \<Rightarrow> net \<Rightarrow> sockaddr set" where
  "binds n n' = {addr. \<exists>s. Bind s addr \<in> set (drop (length (nt_trace n)) (nt_trace n'))}"

definition listens :: "sockaddr \<Rightarrow> net \<Rightarrow> int \<Rightarrow> net \<Rightarrow> bool" where
  "listens addr n r n' \<longleftrightarrow> opens n r n' \<and> binds n n' \<subseteq> {addr} \<and>
     (0 \<le> r \<longrightarrow> (\<exists>cs. nt_trace n' = nt_trace n @ cs @ [Bind r addr, Listen r LISTEN_BACKLOG]))"

lemma listen_step:
  assumes h: "holding n s n1" and tr: "nt_trace n1 = nt_trace n @ cs" and cs: "\<And>s' a. Bind s' a \<notin> set cs"
  shows "ok (ebind (sys (Bind s addr) n1) (\<lambda>((r, _), n). if r < 0 then close_fail s n
      else ebind (sys (Listen s LISTEN_BACKLOG) n) (\<lambda>((r, _), n). if r < 0 then close_fail s n else Inr (s, n))))
    (\<lambda>(r, n'). listens addr n r n')"
proof (rule holding_sys [OF h], simp only: case_prod_conv)
  fix r n2
  assume n2: "holding n s n2" "nt_trace n2 = nt_trace n1 @ [Bind s addr]"
  have fail: "ok (close_fail s n3) (\<lambda>(r, n'). listens addr n r n')"
    if "holding n s n3" "nt_trace n3 = nt_trace n @ cs'" "\<And>s' a. Bind s' a \<in> set cs' \<Longrightarrow> a = addr" for n3 cs'
    by (rule ok_mono [OF holding_close [OF that(1)]]) (use that(2,3) in \<open>auto simp: listens_def binds_def\<close>)
  have "ok (ebind (sys (Listen s LISTEN_BACKLOG) n2) (\<lambda>((r, _), n). if r < 0 then close_fail s n else Inr (s, n)))
      (\<lambda>(r, n'). listens addr n r n')"
  proof (rule holding_sys [OF n2(1)], simp only: case_prod_conv)
    fix r n3
    assume n3: "holding n s n3" "nt_trace n3 = nt_trace n2 @ [Listen s LISTEN_BACKLOG]"
    have "listens addr n s n3"
      using holding_opens [OF n3(1)] n2(2) n3(2) tr cs by (auto simp: listens_def binds_def)
    moreover have "ok (close_fail s n3) (\<lambda>(r, n'). listens addr n r n')"
      by (rule fail [OF n3(1), of "cs @ [Bind s addr, Listen s LISTEN_BACKLOG]"]) (use n2(2) n3(2) tr cs in auto)
    ultimately show "ok (if r < 0 then close_fail s n3 else Inr (s, n3)) (\<lambda>(r, n'). listens addr n r n')" by simp
  qed
  moreover have "ok (close_fail s n2) (\<lambda>(r, n'). listens addr n r n')"
    by (rule fail [OF n2(1), of "cs @ [Bind s addr]"]) (use n2(2) tr cs in auto)
  ultimately show "ok (if r < 0 then close_fail s n2
      else ebind (sys (Listen s LISTEN_BACKLOG) n2) (\<lambda>((r, _), n). if r < 0 then close_fail s n else Inr (s, n)))
      (\<lambda>(r, n'). listens addr n r n')" by simp
qed

lemma inet_server_listens:
  "ok (inet_server address port SOCK_STREAM n) (\<lambda>(r, n'). listens (Inet AF_INET address (word_of_int port)) n r n')"
  unfolding inet_server_def Let_def simp_thms(6) if_True
proof (rule socket_holding, simp_all only: case_prod_conv)
  fix s n1
  assume n1: "holding n s n1" "nt_trace n1 = nt_trace n @ [Socket AF_INET SOCK_STREAM]"
  then have "\<not> s < 0" by (simp add: holding_def)
  moreover have "ok (ebind (sys (Setsockopt s) n1) (\<lambda>(_, n). ebind (sys (Bind s (Inet AF_INET address (word_of_int port))) n) (\<lambda>((r, _), n).
      if r < 0 then close_fail s n
      else ebind (sys (Listen s LISTEN_BACKLOG) n) (\<lambda>((r, _), n). if r < 0 then close_fail s n else Inr (s, n)))))
     (\<lambda>(r, n'). listens (Inet AF_INET address (word_of_int port)) n r n')"
    by (rule holding_sys [OF n1(1)], simp only: case_prod_conv)
      (rule listen_step [where cs = "[Socket AF_INET SOCK_STREAM, Setsockopt s]"], use n1(2) in simp_all)
  ultimately show "ok (if s < 0 then Inr (-1, n1) else ebind (sys (Setsockopt s) n1) (\<lambda>(_, n).
      ebind (sys (Bind s (Inet AF_INET address (word_of_int port))) n) (\<lambda>((r, _), n). if r < 0 then close_fail s n
      else ebind (sys (Listen s LISTEN_BACKLOG) n) (\<lambda>((r, _), n). if r < 0 then close_fail s n else Inr (s, n)))))
    (\<lambda>(r, n'). listens (Inet AF_INET address (word_of_int port)) n r n')" by simp
qed (auto simp: listens_def binds_def)

text \<open>The address of a name in a namespace.\<close>

definition unix_address :: "string \<Rightarrow> socket_namespace \<Rightarrow> sockaddr option" where
  "unix_address name ns =
     (let path = (case ns of NS_Abstract \<Rightarrow> NUL # name | NS_Reserved \<Rightarrow> ANDROID_RESERVED_SOCKET_PREFIX @ name @ [NUL]
                  | NS_Filesystem \<Rightarrow> name @ [NUL])
      in if SUN_PATH_SIZE < length path then None
         else Some (Unix (path @ replicate (SUN_PATH_SIZE - length path) NUL) (SUN_PATH_OFFSET + length path)))"

text \<open>\<open>sun_path\<close> is never overrun, and the length given to the kernel takes in the name and
  the NUL before or behind it.\<close>

lemma make_sockaddr_un:
  "socket_make_sockaddr_un name ns = Inr (case unix_address name ns of Some (Unix path alen) \<Rightarrow> Some (path, alen) | _ \<Rightarrow> None)"
  by (cases ns) (auto simp: socket_make_sockaddr_un_def unix_address_def sun_write_def sun_defs Let_def)

lemma unix_address_cases:
  obtains "unix_address name ns = None" "socket_make_sockaddr_un name ns = Inr None"
  | path alen where "unix_address name ns = Some (Unix path alen)" "socket_make_sockaddr_un name ns = Inr (Some (path, alen))"
      "ns \<noteq> NS_Abstract \<Longrightarrow> NUL \<in> set path"
  by (cases "SUN_PATH_SIZE < length (case ns of NS_Abstract \<Rightarrow> NUL # name
        | NS_Reserved \<Rightarrow> ANDROID_RESERVED_SOCKET_PREFIX @ name @ [NUL] | NS_Filesystem \<Rightarrow> name @ [NUL])")
     (auto simp: make_sockaddr_un unix_address_def Let_def split: socket_namespace.split)

lemma stream_masked: "SOCK_STREAM AND SOCK_TYPE_MASK = SOCK_STREAM"
  by (simp add: net_defs)

lemma local_server_listens:
  "ok (socket_local_server name ns SOCK_STREAM n) (\<lambda>(r, n').
     case unix_address name ns of None \<Rightarrow> opens n r n' \<and> r = -1 \<and> binds n n' = {} | Some addr \<Rightarrow> listens addr n r n')"
  unfolding socket_local_server_def stream_masked simp_thms(6) if_True
proof (rule socket_holding, simp_all only: case_prod_conv)
  fix s n1
  assume n1: "holding n s n1" "nt_trace n1 = nt_trace n @ [Socket AF_LOCAL SOCK_STREAM]"
  then have pos: "\<not> s < 0" by (simp add: holding_def)
  let ?P = "\<lambda>(r, n'). case unix_address name ns of None \<Rightarrow> opens n r n' \<and> r = -1 \<and> binds n n' = {} | Some addr \<Rightarrow> listens addr n r n'"
  let ?rest = "\<lambda>(r, n). if r < 0 then close_fail s n
      else ebind (sys (Listen s LISTEN_BACKLOG) n) (\<lambda>((r, _), n). if r < 0 then close_fail s n else Inr (s, n))"
  have "ok (ebind (socket_local_server_bind s name ns n1) ?rest) ?P"
  proof (cases rule: unix_address_cases [where name = name and ns = ns])
    case 1
    have "ok (close_fail s n1) ?P"
      by (rule ok_mono [OF holding_close [OF n1(1)]]) (use 1(1) n1(2) in \<open>auto simp: binds_def\<close>)
    then show ?thesis using 1(2) by (simp add: socket_local_server_bind_def)
  next
    case (2 path alen)
    have bound: "ok (ebind (ebind (sys (Bind s (Unix path alen)) n2) (\<lambda>((r, _), n). Inr (if r < 0 then -1 else s, n))) ?rest) ?P"
      if n2: "holding n s n2" "nt_trace n2 = nt_trace n @ cs" "\<And>s' a. Bind s' a \<notin> set cs" for n2 cs
    proof -
      have "ebind (ebind (sys (Bind s (Unix path alen)) n2) (\<lambda>((r, _), n). Inr (if r < 0 then -1 else s, n))) ?rest =
          ebind (sys (Bind s (Unix path alen)) n2) (\<lambda>((r, _), n). if r < 0 then close_fail s n
            else ebind (sys (Listen s LISTEN_BACKLOG) n) (\<lambda>((r, _), n). if r < 0 then close_fail s n else Inr (s, n)))"
        using pos by (cases "sys (Bind s (Unix path alen)) n2") (auto split: prod.split)
      then show ?thesis using listen_step [OF n2, of "Unix path alen"] 2(1) by simp
    qed
    have opt: "ok (ebind (ebind (sys (Setsockopt s) n2) (\<lambda>(_, n). ebind (sys (Bind s (Unix path alen)) n)
        (\<lambda>((r, _), n). Inr (if r < 0 then -1 else s, n)))) ?rest) ?P"
      if n2: "holding n s n2" "nt_trace n2 = nt_trace n @ cs" "\<And>s' a. Bind s' a \<notin> set cs" for n2 cs
      unfolding ebind_assoc
      by (rule holding_sys [OF n2(1)], simp only: case_prod_conv)
        (rule bound [of _ "cs @ [Setsockopt s]"], use n2(2,3) in auto)
    show ?thesis
    proof (cases "ns = NS_Abstract")
      case True
      then show ?thesis using opt [OF n1, simplified] 2(2) by (simp add: socket_local_server_bind_def)
    next
      case False
      then obtain p where p: "cstr_at path = Inr p" using 2(3) by (simp add: cstr_at_def)
      have "ok (ebind (sys (Unlink p) n1) (\<lambda>(_, n). ebind (ebind (sys (Setsockopt s) n) (\<lambda>(_, n). ebind (sys (Bind s (Unix path alen)) n)
        (\<lambda>((r, _), n). Inr (if r < 0 then -1 else s, n)))) ?rest)) ?P"
        by (rule holding_sys [OF n1(1)], simp only: case_prod_conv)
          (rule opt [of _ "[Socket AF_LOCAL SOCK_STREAM, Unlink p]"], use n1(2) in auto)
      moreover have "ebind (socket_local_server_bind s name ns n1) ?rest =
          ebind (sys (Unlink p) n1) (\<lambda>(_, n). ebind (ebind (sys (Setsockopt s) n) (\<lambda>(_, n). ebind (sys (Bind s (Unix path alen)) n)
            (\<lambda>((r, _), n). Inr (if r < 0 then -1 else s, n)))) ?rest)"
        using 2(2) False p by (cases "sys (Unlink p) n1") (auto simp: socket_local_server_bind_def ebind_assoc split: prod.split)
      ultimately show ?thesis by simp
    qed
  qed
  then show "ok (if s < 0 then Inr (-1, n1) else ebind (socket_local_server_bind s name ns n1) ?rest) ?P" using pos by simp
qed (auto simp: listens_def binds_def split: option.split)

text \<open>The clients.\<close>

lemma close_fail_opens: "holding n s n1 \<Longrightarrow> ok (close_fail s n1) (\<lambda>(r, n'). opens n r n')"
  by (rule ok_mono [OF holding_close]) auto

lemma loopback_client_opens: "ok (socket_loopback_client port type n) (\<lambda>(r, n'). opens n r n')"
  unfolding socket_loopback_client_def Let_def
proof (rule socket_holding, simp_all only: case_prod_conv)
  fix s n1
  assume n1: "holding n s n1"
  have "ok (ebind (sys c n1) (\<lambda>((r, _), n). if r < 0 then close_fail s n else Inr (s, n))) (\<lambda>(r, n'). opens n r n')" for c
    by (rule holding_sys [OF n1], simp only: case_prod_conv)
      (auto intro: close_fail_opens holding_opens)
  then show "ok (if s < 0 then Inr (-1, n1) else ebind (sys (Connect s (Inet AF_INET INADDR_LOOPBACK (word_of_int port))) n1)
      (\<lambda>((r, _), n). if r < 0 then close_fail s n else Inr (s, n))) (\<lambda>(r, n'). opens n r n')"
    using n1 by (simp add: holding_def)
qed simp

lemma local_client_opens: "ok (socket_local_client name ns type n) (\<lambda>(r, n'). opens n r n')"
  unfolding socket_local_client_def
proof (rule socket_holding, simp_all only: case_prod_conv)
  fix s n1
  assume n1: "holding n s n1"
  have "ok (ebind (socket_local_client_connect s name ns n1) (\<lambda>(r, n). if r < 0 then close_fail s n else Inr (s, n)))
      (\<lambda>(r, n'). opens n r n')"
  proof (cases rule: unix_address_cases [where name = name and ns = ns])
    case 1
    then show ?thesis using ok_mono [OF holding_close [OF n1]] by (fastforce simp: socket_local_client_connect_def)
  next
    case (2 path alen)
    have "ok (ebind (sys (Connect s (Unix path alen)) n1) (\<lambda>x. ebind ((\<lambda>((r, _), n). Inr (if r < 0 then -1 else s, n)) x)
        (\<lambda>(r, n). if r < 0 then close_fail s n else Inr (s, n)))) (\<lambda>(r, n'). opens n r n')"
      by (rule holding_sys [OF n1]) (use n1 in \<open>auto simp: holding_def [of n s n1] intro: close_fail_opens holding_opens\<close>)
    then show ?thesis using 2(2) by (simp add: socket_local_client_connect_def ebind_assoc)
  qed
  then show "ok (if s < 0 then Inr (-1, n1) else ebind (socket_local_client_connect s name ns n1)
      (\<lambda>(r, n). if r < 0 then close_fail s n else Inr (s, n))) (\<lambda>(r, n'). opens n r n')"
    using n1 by (simp add: holding_def)
qed simp

lemma restore_flags_opens:
  "holding n s n1 \<Longrightarrow> ok (restore_flags s flags n1) (\<lambda>(r, n'). opens n r n')"
  unfolding restore_flags_def
  by (rule holding_sys, assumption) (auto intro: close_fail_opens holding_opens)

lemma await_opens:
  assumes "holding n s n1" and "small_fds n"
  shows "ok (await_connection s flags timeout n1) (\<lambda>(r, n'). opens n r n')"
  unfolding await_connection_def using holding_small [OF assms(2,1)]
  by (simp, intro holding_sys [OF assms(1)])
    (auto intro!: close_fail_opens restore_flags_opens elim!: holding_sys)

lemma network_client_opens:
  assumes "small_fds n"
  shows "ok (socket_network_client_timeout dns host port type timeout n) (\<lambda>(r, n'). opens n r n')"
proof (cases "dns host")
  case (Some address)
  show ?thesis
    unfolding socket_network_client_timeout_def Some option.case Let_def
  proof (rule socket_holding, simp_all only: case_prod_conv)
    fix s n1
    assume n1: "holding n s n1"
    then have pos: "\<not> s < 0" by (simp add: holding_def)
    have conn: "ok (ebind (sys (Connect s a) n2) (\<lambda>((r, errno), n). if r < 0 \<and> errno \<noteq> EINPROGRESS then close_fail s n
        else if r = 0 then restore_flags s flags n else await_connection s flags timeout n)) (\<lambda>(r, n'). opens n r n')"
      if "holding n s n2" for n2 a flags
      by (rule holding_sys [OF that]) (auto intro!: close_fail_opens restore_flags_opens await_opens assms)
    have fl: "ok (ebind (sys (Setfl s (flags OR O_NONBLOCK)) n2) (\<lambda>((r, _), n). if r < 0 then close_fail s n
        else ebind (sys (Connect s a) n) (\<lambda>((r, errno), n). if r < 0 \<and> errno \<noteq> EINPROGRESS then close_fail s n
        else if r = 0 then restore_flags s flags n else await_connection s flags timeout n))) (\<lambda>(r, n'). opens n r n')"
      if "holding n s n2" for n2 a flags
      by (rule holding_sys [OF that]) (auto intro!: close_fail_opens conn)
    show "ok (if s < 0 then Inr (-1, n1) else ebind (sys (Getfl s) n1) (\<lambda>((fl, _), n). if fl < 0 then close_fail s n
        else ebind (sys (Setfl s (word_of_int fl OR O_NONBLOCK)) n) (\<lambda>((r, _), n). if r < 0 then close_fail s n
        else ebind (sys (Connect s (Inet AF_INET (put32 address) (word_of_int port))) n) (\<lambda>((r, errno), n).
          if r < 0 \<and> errno \<noteq> EINPROGRESS then close_fail s n
          else if r = 0 then restore_flags s (word_of_int fl) n else await_connection s (word_of_int fl) timeout n))))
      (\<lambda>(r, n'). opens n r n')"
      unfolding if_not_P [OF pos] by (rule holding_sys [OF n1]) (auto intro!: close_fail_opens fl)
  qed simp
qed (simp add: socket_network_client_timeout_def opens_def)

interpretation lo: opener "socket_loopback_client port type" for port type
  by unfold_locales (rule loopback_client_opens)

interpretation nw: opener "socket_network_client dns host port type" for dns host port type
  by unfold_locales (simp add: socket_network_client_def network_client_opens)

interpretation un: opener "socket_local_client name ns type" for name ns type
  by unfold_locales (rule local_client_opens)

text \<open>The server of an emulator: the host in the environment, if there is one, and then this one.\<close>

interpretation em: fallback "\<lambda>n. case host of None \<Rightarrow> Inr (-1, n) | Some host \<Rightarrow> socket_network_client dns host adb_port SOCK_STREAM n"
  "socket_loopback_client adb_port SOCK_STREAM" for dns host adb_port
  by unfold_locales (simp_all add: fails_opens nw.contract lo.contract split: option.split)

section \<open>Names\<close>

text \<open>What a forward listens on.\<close>

definition listen_address :: "bool \<Rightarrow> string \<Rightarrow> sockaddr option" where
  "listen_address listen_all name =
     (if starts_with ''tcp:'' name then
        Some (Inet AF_INET (if listen_all then INADDR_ANY else INADDR_LOOPBACK) (word_of_int (atoi (drop 4 name))))
      else if starts_with ''local:'' name then unix_address (drop 6 name) NS_Abstract
      else if starts_with ''localabstract:'' name then unix_address (drop 14 name) NS_Abstract
      else if starts_with ''localfilesystem:'' name then unix_address (drop 16 name) NS_Filesystem
      else None)"

lemma bind_local_name_listens:
  "ok (bind_local_name listen_all name n) (\<lambda>(r, n'). case listen_address listen_all name of
     None \<Rightarrow> opens n r n' \<and> r = -1 \<and> binds n n' = {} | Some addr \<Rightarrow> listens addr n r n')"
  using inet_server_listens [of INADDR_ANY "atoi (drop 4 name)" n] inet_server_listens [of INADDR_LOOPBACK "atoi (drop 4 name)" n]
    local_server_listens [of "drop 6 name" NS_Abstract n] local_server_listens [of "drop 14 name" NS_Abstract n]
    local_server_listens [of "drop 16 name" NS_Filesystem n]
  by (simp add: bind_local_name_def listen_address_def socket_inaddr_any_server_def socket_loopback_server_def
      opens_def binds_def)

text \<open>C12: The name of a forward is bound to the address it stands for and to nothing else, which
  for a TCP port is the loopback interface unless the server was told to listen on all of them.
  The result is a new descriptor that listens there, or -1 with no descriptor left open.\<close>

theorem bind_local_name_correct:
  "ok (bind_local_name listen_all name n) (\<lambda>(r, n').
     (if r < 0 then r = -1 \<and> nt_open n' = nt_open n else r \<notin> set (nt_open n) \<and> nt_open n' = r # nt_open n) \<and>
     binds n n' \<subseteq> set_option (listen_address listen_all name) \<and>
     (0 \<le> r \<longrightarrow> (\<exists>addr cs. listen_address listen_all name = Some addr \<and>
        nt_trace n' = nt_trace n @ cs @ [Bind r addr, Listen r LISTEN_BACKLOG])))"
  by (rule ok_mono [OF bind_local_name_listens])
    (auto simp: listens_def opens_def split: option.splits if_splits)


section \<open>An instance\<close>

definition sample_net :: net where
  "sample_net = \<lparr>nt_rets = [(5, 0), (0, 0), (0, 0), (0, 0)], nt_open = [3], nt_trace = []\<rparr>"

theorem bind_local_name_correct_witness:
  "\<exists>n'. bind_local_name False ''tcp:6000'' sample_net = Inr (5, n') \<and> nt_open n' = [5, 3] \<and>
     (\<exists>cs. nt_trace n' = cs @ [Bind 5 (Inet AF_INET INADDR_LOOPBACK 6000), Listen 5 LISTEN_BACKLOG])"
proof -
  obtain n' where r: "bind_local_name False ''tcp:6000'' sample_net = Inr (5, n')"
    by (simp add: bind_local_name_def socket_loopback_server_def inet_server_def sys_socket_def sys_def sample_net_def
        starts_with_def)
  have "listen_address False ''tcp:6000'' = Some (Inet AF_INET INADDR_LOOPBACK 6000)" by code_simp
  then show ?thesis
    using bind_local_name_correct [of False "''tcp:6000''" sample_net] r by (simp add: sample_net_def)
qed


end
